(* ===== verification/Prelude.thy ===== *)
theory Prelude
  imports Main "HOL-Library.Word" "HOL-Library.Monad_Syntax"
begin

text \<open>
  What the component theories share: the machine integers of the 32-bit ARM target, C arrays as
  lists with checked access, network byte order, the step-system locale, and the collections that
  steer the simplifier.

  Conventions.
  \<^item> A C function that can run into undefined behaviour (an access outside an object, a signed
    overflow, a null dereference) has a result of type \<open>'a option\<close>; \<open>None\<close> is the undefined
    behaviour and nothing else. An error the code reports is a value inside \<open>Some\<close>.
  \<^item> A C \<open>int\<close> is an \<^typ>\<open>int\<close>, with \<open>sadd\<close> and \<open>smul\<close> where it can overflow; unsigned
    types are words. \<open>long\<close> is 32 bits wide on this target.
  \<^item> The host is little-endian, so storing \<open>htonl(v)\<close> writes the bytes of \<open>v\<close> most
    significant first, and \<open>ntohl\<close> of a loaded word reads them so: \<open>be32\<close> and \<open>of_be32\<close>.
\<close>

unbundle bit_operations_syntax

type_synonym u8 = "8 word"
type_synonym u16 = "16 word"
type_synonym u32 = "32 word"
type_synonym u64 = "64 word"
type_synonym i8 = "8 word"
type_synonym i16 = "16 word"
type_synonym i32 = "32 word"

named_theorems mem_simps \<open>checked array access\<close>
named_theorems ok_intros \<open>operations that keep the well-formedness of their state\<close>
named_theorems stream_simps \<open>operations as seen on the byte streams of a handle\<close>

subsection \<open>Signed arithmetic\<close>

definition int32_ok :: "int \<Rightarrow> bool" where
  "int32_ok i \<longleftrightarrow> - (2 ^ 31) \<le> i \<and> i < 2 ^ 31"

definition sadd :: "int \<Rightarrow> int \<Rightarrow> int option" where
  "sadd a b = (if int32_ok (a + b) then Some (a + b) else None)"

definition smul :: "int \<Rightarrow> int \<Rightarrow> int option" where
  "smul a b = (if int32_ok (a * b) then Some (a * b) else None)"

subsection \<open>Arrays\<close>

definition mem_read :: "'a list \<Rightarrow> int \<Rightarrow> nat \<Rightarrow> 'a list option" where
  "mem_read m i n =
     (if 0 \<le> i \<and> i + int n \<le> int (length m) then Some (take n (drop (nat i) m)) else None)"

definition mem_write :: "'a list \<Rightarrow> int \<Rightarrow> 'a list \<Rightarrow> 'a list option" where
  "mem_write m i xs =
     (if 0 \<le> i \<and> i + int (length xs) \<le> int (length m)
      then Some (take (nat i) m @ xs @ drop (nat i + length xs) m) else None)"

definition mem_get :: "'a list \<Rightarrow> int \<Rightarrow> 'a option" where
  "mem_get m i = (if 0 \<le> i \<and> i < int (length m) then Some (m ! nat i) else None)"

definition mem_set :: "'a list \<Rightarrow> int \<Rightarrow> 'a \<Rightarrow> 'a list option" where
  "mem_set m i v = (if 0 \<le> i \<and> i < int (length m) then Some (m[nat i := v]) else None)"

subsection \<open>Network byte order\<close>

definition be32 :: "u32 \<Rightarrow> u8 list" where
  "be32 w = [ucast (drop_bit 24 w), ucast (drop_bit 16 w), ucast (drop_bit 8 w), ucast w]"

fun of_be32 :: "u8 list \<Rightarrow> u32" where
  "of_be32 [a, b, c, d] =
     push_bit 24 (ucast a) OR push_bit 16 (ucast b) OR push_bit 8 (ucast c) OR ucast d"
| "of_be32 _ = 0"

text \<open>\<open>ntohl(((uint32 *)m)[i])\<close> and \<open>((uint32 *)m)[i] = htonl(v)\<close>.\<close>

definition load32 :: "u8 list \<Rightarrow> nat \<Rightarrow> u32 option" where
  "load32 m i = map_option of_be32 (mem_read m (4 * int i) 4)"

definition store32 :: "u8 list \<Rightarrow> nat \<Rightarrow> u32 \<Rightarrow> u8 list option" where
  "store32 m i v = mem_write m (4 * int i) (be32 v)"

subsection \<open>Lemmas on signed arithmetic and arrays\<close>

lemma sadd_small: "int32_ok (a + b) \<Longrightarrow> sadd a b = Some (a + b)"
  by (simp add: sadd_def)

lemma smul_small: "int32_ok (a * b) \<Longrightarrow> smul a b = Some (a * b)"
  by (simp add: smul_def)

lemma mem_write_Some_iff:
  "mem_write m i xs = Some m' \<longleftrightarrow>
     0 \<le> i \<and> i + int (length xs) \<le> int (length m) \<and>
     m' = take (nat i) m @ xs @ drop (nat i + length xs) m"
  by (auto simp: mem_write_def)

lemma mem_write_length [mem_simps]: "mem_write m i xs = Some m' \<Longrightarrow> length m' = length m"
  by (auto simp: mem_write_Some_iff)

lemma mem_write_in [mem_simps]:
  "0 \<le> i \<Longrightarrow> i + int (length xs) \<le> int (length m) \<Longrightarrow>
   mem_write m i xs = Some (take (nat i) m @ xs @ drop (nat i + length xs) m)"
  by (simp add: mem_write_def)

lemma mem_read_in [mem_simps]:
  "0 \<le> i \<Longrightarrow> i + int n \<le> int (length m) \<Longrightarrow> mem_read m i n = Some (take n (drop (nat i) m))"
  by (simp add: mem_read_def)

lemma mem_read_length: "mem_read m i n = Some xs \<Longrightarrow> length xs = n"
  by (auto simp: mem_read_def split: if_splits)

lemma mem_write_read:
  assumes "mem_write m i xs = Some m'"
  shows "mem_read m' i (length xs) = Some xs"
  using assms by (auto simp: mem_write_Some_iff mem_read_def)

lemma mem_write_read_other:
  assumes "mem_write m i xs = Some m'"
    and "j + int n \<le> i \<or> i + int (length xs) \<le> j"
  shows "mem_read m' j n = mem_read m j n"
proof -
  from assms(1) have m': "m' = take (nat i) m @ xs @ drop (nat i + length xs) m"
    and i: "0 \<le> i" "i + int (length xs) \<le> int (length m)"
    by (auto simp: mem_write_Some_iff)
  from assms(1) have len: "length m' = length m" by (rule mem_write_length)
  show ?thesis
  proof (cases "0 \<le> j \<and> j + int n \<le> int (length m)")
    case True
    have "take n (drop (nat j) m') = take n (drop (nat j) m)"
    proof (rule nth_equalityI)
      show "length (take n (drop (nat j) m')) = length (take n (drop (nat j) m))"
        by (simp add: len)
    next
      fix k assume "k < length (take n (drop (nat j) m'))"
      then have k: "k < n" "nat j + k < length m"
        using len by auto
      have "m' ! (nat j + k) = m ! (nat j + k)"
        using assms(2) k True i by (auto simp: m' nth_append)
      with k len show "take n (drop (nat j) m') ! k = take n (drop (nat j) m) ! k"
        by simp
    qed
    with len show ?thesis by (simp add: mem_read_def)
  next
    case False
    with len show ?thesis by (auto simp: mem_read_def)
  qed
qed

lemma take_mem_write:
  "mem_write m i xs = Some m' \<Longrightarrow> take (nat i + length xs) m' = take (nat i) m @ xs"
  by (auto simp: mem_write_Some_iff)

lemma drop_take_split:
  "i \<le> j \<Longrightarrow> j \<le> k \<Longrightarrow> take (k - i) (drop i m) = take (j - i) (drop i m) @ take (k - j) (drop j m)"
proof -
  assume ij: "i \<le> j" and jk: "j \<le> k"
  then have "take (k - i) (drop i m) = take ((j - i) + (k - j)) (drop i m)" by simp
  also have "\<dots> = take (j - i) (drop i m) @ take (k - j) (drop (j - i) (drop i m))"
    by (rule take_add)
  also have "drop (j - i) (drop i m) = drop j m" using ij by simp
  finally show ?thesis .
qed

subsection \<open>Lemmas on byte order\<close>

lemma length_be32 [simp]: "length (be32 w) = 4"
  by (simp add: be32_def)

lemma be32_not_Nil [simp]: "be32 w \<noteq> []"
  by (simp add: be32_def)

lemma of_be32_be32 [simp]: "of_be32 (be32 w) = w"
proof (rule bit_word_eqI)
  fix n assume n: "n < LENGTH(32)"
  consider "n < 8" | "8 \<le> n" "n < 16" | "16 \<le> n" "n < 24" | "24 \<le> n" by linarith
  then show "bit (of_be32 (be32 w)) n = bit w n"
    using n by cases (auto simp: be32_def bit_simps)
qed

lemma be32_of_be32: "length bs = 4 \<Longrightarrow> be32 (of_be32 bs) = bs"
proof -
  assume "length bs = 4"
  then obtain a b c d where bs: "bs = [a, b, c, d]"
    by (auto simp: numeral_eq_Suc length_Suc_conv)
  have "ucast (drop_bit 24 (of_be32 bs)) = a"
    by (rule bit_word_eqI) (auto simp: bs bit_simps dest: bit_imp_le_length)
  moreover have "ucast (drop_bit 16 (of_be32 bs)) = b"
    by (rule bit_word_eqI) (auto simp: bs bit_simps dest: bit_imp_le_length)
  moreover have "ucast (drop_bit 8 (of_be32 bs)) = c"
    by (rule bit_word_eqI) (auto simp: bs bit_simps dest: bit_imp_le_length)
  moreover have "ucast (of_be32 bs) = d"
    by (rule bit_word_eqI) (auto simp: bs bit_simps dest: bit_imp_le_length)
  ultimately show ?thesis by (simp add: bs be32_def)
qed

lemma be32_inject [simp]: "be32 v = be32 w \<longleftrightarrow> v = w"
  by (metis of_be32_be32)

lemma store32_length [mem_simps]: "store32 m i v = Some m' \<Longrightarrow> length m' = length m"
  by (auto simp: store32_def mem_simps)

lemma load32_store32: "store32 m i v = Some m' \<Longrightarrow> load32 m' i = Some v"
  unfolding store32_def load32_def
  by (drule mem_write_read) simp

lemma load32_store32_other:
  "store32 m i v = Some m' \<Longrightarrow> i \<noteq> j \<Longrightarrow> load32 m' j = load32 m j"
  unfolding store32_def load32_def
  by (drule mem_write_read_other [where j = "4 * int j" and n = 4]) auto

lemma load32_append:
  "length pre = 4 * i \<Longrightarrow> load32 (pre @ be32 v @ suf) i = Some v"
  by (simp add: load32_def mem_read_def)

subsection \<open>Lemmas on words\<close>

lemma unat_u32_less: "unat (w :: u32) < 4294967296"
  using unsigned_less [of w] by simp

lemma sint_u32_small: "unat (w :: u32) < 2147483648 \<Longrightarrow> sint w = int (unat w)"
proof -
  assume "unat w < 2147483648"
  then have "int (unat w) < 2147483648" by linarith
  then have "uint w < 2147483648" by simp
  moreover have "- 2147483648 \<le> uint w" using uint_ge_0 [of w] by linarith
  ultimately show ?thesis by (simp add: sint_uint signed_take_bit_int_eq_self_iff)
qed

lemma sint_u32_big: "2147483648 \<le> unat (w :: u32) \<Longrightarrow> sint w = int (unat w) - 4294967296"
proof -
  assume "2147483648 \<le> unat w"
  then have "2147483648 \<le> int (unat w)" by linarith
  moreover have "int (unat w) < 4294967296" using unat_u32_less [of w] by linarith
  ultimately have "2147483648 \<le> uint w" "uint w < 4294967296" by simp_all
  then have "(uint w + 2147483648) mod 4294967296 = uint w - 2147483648"
    by (simp add: mod_pos_geq)
  then show ?thesis
    by (simp add: sint_uint signed_take_bit_eq_take_bit_shift take_bit_eq_mod)
qed

lemma word_and_not_3: "unat (w AND - 4 :: u32) = unat w div 4 * 4"
proof -
  have "(- 4 :: u32) = NOT (mask 2)" by (simp add: mask_eq_exp_minus_1)
  then have "w AND - 4 = w AND NOT (mask 2)" by (rule arg_cong)
  also have "\<dots> = push_bit 2 (drop_bit 2 w)"
  proof (rule bit_word_eqI)
    fix n assume "n < LENGTH(32)"
    moreover have "2 \<le> n \<Longrightarrow> Suc (Suc (n - 2)) = n" by linarith
    ultimately show "bit (w AND NOT (mask 2)) n = bit (push_bit 2 (drop_bit 2 w)) n"
      by (auto simp: bit_push_bit_iff bit_drop_bit_eq bit_and_iff bit_not_iff bit_mask_iff)
  qed
  also have "\<dots> = w div 4 * 4" by (simp add: push_bit_eq_mult drop_bit_eq_div)
  finally have "unat (w AND - 4) = unat (w div 4 * 4)" by (rule arg_cong)
  moreover have "unat w div 4 * 4 < 2 ^ 32" using unat_u32_less [of w] by simp
  ultimately show ?thesis
    by (simp add: unat_word_ariths unat_div_distrib)
qed

subsection \<open>Step systems\<close>

text \<open>
  The state machines of the development: an initial state and a step relation. An invariant that
  holds initially and is kept by every step holds in every reachable state.
\<close>

inductive steps :: "('s \<Rightarrow> 's \<Rightarrow> bool) \<Rightarrow> 's \<Rightarrow> 's \<Rightarrow> bool" for R where
  steps_refl: "steps R s s"
| steps_step: "steps R s t \<Longrightarrow> R t u \<Longrightarrow> steps R s u"

lemma steps_one: "R s t \<Longrightarrow> steps R s t"
  by (rule steps_step [OF steps_refl])

lemma steps_trans: "steps R s t \<Longrightarrow> steps R t u \<Longrightarrow> steps R s u"
  by (rotate_tac 1, induction rule: steps.induct) (auto intro: steps.intros)

locale invariant_system =
  fixes start :: "'s \<Rightarrow> bool" and step :: "'s \<Rightarrow> 's \<Rightarrow> bool" and inv :: "'s \<Rightarrow> bool"
  assumes inv_start: "start s \<Longrightarrow> inv s"
    and inv_step: "inv s \<Longrightarrow> step s t \<Longrightarrow> inv t"
begin

lemma inv_steps: "inv s \<Longrightarrow> steps step s t \<Longrightarrow> inv t"
  by (rotate_tac 1, induction rule: steps.induct) (auto intro: inv_step)

lemma reachable_inv: "start s \<Longrightarrow> steps step s t \<Longrightarrow> inv t"
  by (rule inv_steps [OF inv_start])

end

end
