(* ===== verification/Xdr_Std.thy ===== *)
theory Xdr_Std
  imports Prelude
begin

text \<open>
  The transport handle and its operations: \<open>struct xdr_struct\<close> of
  \<open>librpc/rpc/types.h\<close>, the router calls of \<open>librpc/ops.c\<close> and the operation
  vector \<open>xdr_std_xops\<close> of \<open>librpc/svc_clnt_common.c\<close>. The vector has one
  implementation, so the \<open>XDR_SEND_*\<close> and \<open>XDR_RECV_*\<close> macros of
  \<open>rpc/xdr.h\<close> are the functions below.

  The lemmas describe a well-formed handle as two byte streams: \<open>out_bytes\<close>, the message
  written so far, and \<open>in_rest\<close>, what is left of the message read. Every operation is total
  on well-formed handles, keeps them well-formed, and acts on the streams as its specification says.
  The build sets \<open>RPC_OFFSET\<close> to 0 (\<open>librpc/Android.mk\<close>).
\<close>

subsection \<open>Data\<close>

abbreviation RPCROUTER_MSGSIZE_MAX :: int where "RPCROUTER_MSGSIZE_MAX \<equiv> 2048"

datatype xdr_op = XDR_ENCODE | XDR_DECODE | XDR_FREE

definition RPC_MSG_CALL :: u32 where "RPC_MSG_CALL = 0"
definition RPC_MSG_REPLY :: u32 where "RPC_MSG_REPLY = 1"

record opaque_auth =
  oa_flavor :: u32
  oa_base :: "u8 list option"
  oa_length :: u32

record xdr_s_type =
  x_op :: xdr_op
  x_prog :: u32
  x_vers :: u32
  x_proc :: u32
  x_verf :: opaque_auth
  x_xid :: u32
  x_fd :: int
  x_is_client :: bool
  out_msg :: "u8 list"
  out_next :: int
  in_msg :: "u8 list"
  in_next :: int
  in_len :: int

text \<open>
  The kernel's side of the RPC router device, a parameter of the model: each call reads and
  changes a world of type \<open>'w\<close>. \<open>k_read\<close> is \<open>None\<close> for an error and otherwise the
  bytes delivered; \<open>k_calloc\<close> tells whether the next allocation succeeds.
\<close>

record 'w kernel =
  k_open :: "string \<Rightarrow> 'w \<Rightarrow> int \<times> 'w"
  k_close :: "int \<Rightarrow> 'w \<Rightarrow> int \<times> 'w"
  k_dup :: "int \<Rightarrow> 'w \<Rightarrow> int \<times> 'w"
  k_read :: "int \<Rightarrow> int \<Rightarrow> 'w \<Rightarrow> u8 list option \<times> 'w"
  k_write :: "int \<Rightarrow> u8 list \<Rightarrow> 'w \<Rightarrow> int \<times> 'w"
  k_ioctl :: "int \<Rightarrow> u32 \<Rightarrow> u32 \<times> u32 \<Rightarrow> 'w \<Rightarrow> int \<times> 'w"
  k_calloc :: "'w \<Rightarrow> bool"

text \<open>\<open>read(2)\<close> delivers at most the number of bytes asked for.\<close>

definition kernel_ok :: "'w kernel \<Rightarrow> bool" where
  "kernel_ok K \<longleftrightarrow>
     (\<forall>f n w bs w'. 0 \<le> n \<longrightarrow> k_read K f n w = (Some bs, w') \<longrightarrow> int (length bs) \<le> n)"

subsection \<open>Router calls (ops.c)\<close>

definition r_open :: "'w kernel \<Rightarrow> string \<Rightarrow> 'w \<Rightarrow> int \<times> 'w" where
  "r_open K router w = k_open K router w"

definition r_close :: "'w kernel \<Rightarrow> int \<Rightarrow> 'w \<Rightarrow> 'w" where
  "r_close K handle w = snd (k_close K handle w)"

definition r_read :: "'w kernel \<Rightarrow> int \<Rightarrow> u8 list \<Rightarrow> int \<Rightarrow> 'w \<Rightarrow> (int \<times> u8 list \<times> 'w) option" where
  "r_read K handle buf sz w =
     (case k_read K handle sz w of
        (None, w') \<Rightarrow> Some (-1, buf, w')
      | (Some bs, w') \<Rightarrow> do { buf' \<leftarrow> mem_write buf 0 bs; Some (int (length bs), buf', w') })"

definition r_write :: "'w kernel \<Rightarrow> int \<Rightarrow> u8 list \<Rightarrow> int \<Rightarrow> 'w \<Rightarrow> (int \<times> 'w) option" where
  "r_write K handle buf sz w =
     do { bs \<leftarrow> mem_read buf 0 (nat sz); Some (k_write K handle bs w) }"

definition r_control :: "'w kernel \<Rightarrow> int \<Rightarrow> u32 \<Rightarrow> u32 \<times> u32 \<Rightarrow> 'w \<Rightarrow> int \<times> 'w" where
  "r_control K handle cmd arg w = k_ioctl K handle cmd arg w"

subsection \<open>Message control\<close>

definition xdr_std_control ::
  "'w kernel \<Rightarrow> xdr_s_type \<Rightarrow> u32 \<Rightarrow> u32 \<times> u32 \<Rightarrow> 'w \<Rightarrow> int \<times> 'w" where
  "xdr_std_control K x request info w = r_control K (x_fd x) request info w"

definition xdr_std_msg_done :: "xdr_s_type \<Rightarrow> bool" where
  "xdr_std_msg_done x = True"

definition xdr_std_msg_start :: "xdr_s_type \<Rightarrow> u32 \<Rightarrow> (bool \<times> xdr_s_type) option" where
  "xdr_std_msg_start x rpc_msg_type =
     do { let x1 = (if rpc_msg_type = RPC_MSG_CALL then x\<lparr>x_xid := x_xid x + 1\<rparr> else x);
          m1 \<leftarrow> store32 (out_msg x1) 0 (x_xid x1);
          m2 \<leftarrow> store32 m1 1 rpc_msg_type;
          Some (True, x1\<lparr>out_next := 8, out_msg := m2\<rparr>) }"

definition xdr_std_msg_abort :: "xdr_s_type \<Rightarrow> bool" where
  "xdr_std_msg_abort x = True"

definition xdr_std_msg_send :: "'w kernel \<Rightarrow> xdr_s_type \<Rightarrow> 'w \<Rightarrow> (bool \<times> 'w) option" where
  "xdr_std_msg_send K x w =
     do { (rc, w') \<leftarrow> r_write K (x_fd x) (out_msg x) (out_next x) w;
          Some (rc = out_next x, w') }"

definition xdr_std_read ::
  "'w kernel \<Rightarrow> xdr_s_type \<Rightarrow> 'w \<Rightarrow> (bool \<times> xdr_s_type \<times> 'w) option" where
  "xdr_std_read K x w =
     do { (rc, m, w') \<leftarrow> r_read K (x_fd x) (in_msg x) RPCROUTER_MSGSIZE_MAX w;
          let x1 = x\<lparr>in_msg := m, in_len := rc\<rparr>;
          if in_len x1 < 0 then Some (False, x1, w')
          else if in_len x1 < 8 then Some (False, x1\<lparr>in_len := -1\<rparr>, w')
          else Some (True, x1\<lparr>in_next := 8\<rparr>, w') }"

subsection \<open>Message data: sending\<close>

definition xdr_std_send_uint32 :: "xdr_s_type \<Rightarrow> u32 \<Rightarrow> (bool \<times> xdr_s_type) option" where
  "xdr_std_send_uint32 x v =
     (if out_next x \<ge> RPCROUTER_MSGSIZE_MAX - 3 then Some (False, x)
      else do { m \<leftarrow> mem_write (out_msg x) (out_next x) (be32 v);
                Some (True, x\<lparr>out_msg := m, out_next := out_next x + 4\<rparr>) })"

definition xdr_std_send_int8 :: "xdr_s_type \<Rightarrow> i8 \<Rightarrow> (bool \<times> xdr_s_type) option" where
  "xdr_std_send_int8 x v = xdr_std_send_uint32 x (scast v)"

definition xdr_std_send_uint8 :: "xdr_s_type \<Rightarrow> u8 \<Rightarrow> (bool \<times> xdr_s_type) option" where
  "xdr_std_send_uint8 x v = xdr_std_send_uint32 x (ucast v)"

definition xdr_std_send_int16 :: "xdr_s_type \<Rightarrow> i16 \<Rightarrow> (bool \<times> xdr_s_type) option" where
  "xdr_std_send_int16 x v = xdr_std_send_uint32 x (scast v)"

definition xdr_std_send_uint16 :: "xdr_s_type \<Rightarrow> u16 \<Rightarrow> (bool \<times> xdr_s_type) option" where
  "xdr_std_send_uint16 x v = xdr_std_send_uint32 x (ucast v)"

definition xdr_std_send_int32 :: "xdr_s_type \<Rightarrow> i32 \<Rightarrow> (bool \<times> xdr_s_type) option" where
  "xdr_std_send_int32 x v = xdr_std_send_uint32 x v"

text \<open>The two loops of \<open>xdr_std_send_bytes\<close>: copy \<open>len\<close> bytes, then zeros up to a word boundary.\<close>

fun copy_out :: "u8 list \<Rightarrow> int \<Rightarrow> u8 list \<Rightarrow> nat \<Rightarrow> (u8 list \<times> int) option" where
  "copy_out m n buf 0 = Some (m, n)"
| "copy_out m n [] (Suc len) = None"
| "copy_out m n (b # buf) (Suc len) =
     do { m' \<leftarrow> mem_set m n b; copy_out m' (n + 1) buf len }"

function pad_out :: "u8 list \<Rightarrow> int \<Rightarrow> (u8 list \<times> int) option" where
  "pad_out m n =
     (if n mod 4 = 0 then Some (m, n)
      else do { m' \<leftarrow> mem_set m n 0; pad_out m' (n + 1) })"
  by pat_completeness auto
termination
proof (relation "measure (\<lambda>(m, n). nat ((- n) mod 4))", goal_cases)
  case 1
  show ?case by simp
next
  case (2 m n)
  then have "(- (n + 1)) mod 4 < (- n) mod 4" by presburger
  then show ?case by simp
qed

declare pad_out.simps [simp del]

definition xdr_std_send_bytes ::
  "xdr_s_type \<Rightarrow> u8 list \<Rightarrow> u32 \<Rightarrow> (bool \<times> xdr_s_type) option" where
  "xdr_std_send_bytes x buf len =
     (if word_of_int (out_next x) + len > (2048 :: u32) then Some (False, x)
      else do { (m1, n1) \<leftarrow> copy_out (out_msg x) (out_next x) buf (unat len);
                (m2, n2) \<leftarrow> pad_out m1 n1;
                Some (True, x\<lparr>out_msg := m2, out_next := n2\<rparr>) })"

subsection \<open>Message data: receiving\<close>

text \<open>
  A receive operation returns the value stored through its pointer argument, or \<open>None\<close> inside
  \<open>Some\<close> when it returns \<open>FALSE\<close> and stores nothing.
\<close>

definition xdr_std_recv_uint32 :: "xdr_s_type \<Rightarrow> (u32 option \<times> xdr_s_type) option" where
  "xdr_std_recv_uint32 x =
     (if in_next x + 4 > in_len x then Some (None, x)
      else do { bs \<leftarrow> mem_read (in_msg x) (in_next x) 4;
                Some (Some (of_be32 bs), x\<lparr>in_next := in_next x + 4\<rparr>) })"

definition recv_narrow ::
  "xdr_s_type \<Rightarrow> ('a::len word option \<times> xdr_s_type) option" where
  "recv_narrow x =
     do { (r, x') \<leftarrow> xdr_std_recv_uint32 x;
          Some (map_option (\<lambda>v. ucast v) r, x') }"

definition xdr_std_recv_int8 :: "xdr_s_type \<Rightarrow> (i8 option \<times> xdr_s_type) option" where
  "xdr_std_recv_int8 x = recv_narrow x"

definition xdr_std_recv_uint8 :: "xdr_s_type \<Rightarrow> (u8 option \<times> xdr_s_type) option" where
  "xdr_std_recv_uint8 x = recv_narrow x"

definition xdr_std_recv_int16 :: "xdr_s_type \<Rightarrow> (i16 option \<times> xdr_s_type) option" where
  "xdr_std_recv_int16 x = recv_narrow x"

definition xdr_std_recv_uint16 :: "xdr_s_type \<Rightarrow> (u16 option \<times> xdr_s_type) option" where
  "xdr_std_recv_uint16 x = recv_narrow x"

definition xdr_std_recv_int32 :: "xdr_s_type \<Rightarrow> (i32 option \<times> xdr_s_type) option" where
  "xdr_std_recv_int32 x = xdr_std_recv_uint32 x"

text \<open>
  \<open>has_buf\<close> tells whether the destination pointer is non-null; the bytes copied are the result.
  The length check adds in \<open>int\<close>; the cursor is advanced by an unsigned addition.
\<close>

definition xdr_std_recv_bytes ::
  "xdr_s_type \<Rightarrow> bool \<Rightarrow> u32 \<Rightarrow> (u8 list option \<times> xdr_s_type) option" where
  "xdr_std_recv_bytes x has_buf len =
     do { s \<leftarrow> sadd (in_next x) (sint len);
          if s > in_len x then Some (None, x)
          else do { bs \<leftarrow> (if has_buf then mem_read (in_msg x) (in_next x) (unat len) else Some []);
                    let n1 = (word_of_int (in_next x) + len :: u32);
                    Some (Some bs, x\<lparr>in_next := sint ((n1 + 3) AND NOT 3)\<rparr>) } }"

subsection \<open>Creation and destruction\<close>

definition xdr_zero :: xdr_s_type where
  "xdr_zero = \<lparr>x_op = XDR_ENCODE, x_prog = 0, x_vers = 0, x_proc = 0,
     x_verf = \<lparr>oa_flavor = 0, oa_base = None, oa_length = 0\<rparr>, x_xid = 0, x_fd = 0,
     x_is_client = False, out_msg = replicate 2048 0, out_next = 0,
     in_msg = replicate 2048 0, in_next = 0, in_len = 0\<rparr>"

definition xdr_init_common ::
  "'w kernel \<Rightarrow> string \<Rightarrow> bool \<Rightarrow> 'w \<Rightarrow> (xdr_s_type option \<times> 'w) option" where
  "xdr_init_common K router is_client w =
     (if \<not> k_calloc K w then None
      else let (f, w') = r_open K router w in
        if f < 0 then Some (None, w')
        else Some (Some (xdr_zero\<lparr>x_fd := f, x_is_client := is_client\<rparr>), w'))"

text \<open>\<open>xdr_clone\<close> assigns \<open>xdr->xid = xdr->xid\<close>: the copy keeps the zeroed \<open>xid\<close>.\<close>

definition xdr_clone ::
  "'w kernel \<Rightarrow> xdr_s_type \<Rightarrow> 'w \<Rightarrow> (xdr_s_type option \<times> 'w) option" where
  "xdr_clone K other w =
     (if \<not> k_calloc K w then None
      else let (f, w') = k_dup K (x_fd other) w; x = xdr_zero\<lparr>x_fd := f\<rparr> in
        if f < 0 then Some (None, w')
        else Some (Some (x\<lparr>x_xid := x_xid x, x_prog := x_prog other, x_vers := x_vers other,
                           x_is_client := x_is_client other\<rparr>), w'))"

definition xdr_destroy_common :: "'w kernel \<Rightarrow> xdr_s_type \<Rightarrow> 'w \<Rightarrow> 'w" where
  "xdr_destroy_common K x w = r_close K (x_fd x) w"

subsection \<open>Well-formed handles and their streams\<close>

definition xdr_ok :: "xdr_s_type \<Rightarrow> bool" where
  "xdr_ok x \<longleftrightarrow> length (out_msg x) = 2048 \<and> length (in_msg x) = 2048 \<and>
     0 \<le> out_next x \<and> out_next x \<le> 2048 \<and> out_next x mod 4 = 0 \<and>
     0 \<le> in_next x \<and> in_next x \<le> 2048 \<and> in_next x mod 4 = 0 \<and> in_len x \<le> 2048"

definition out_bytes :: "xdr_s_type \<Rightarrow> u8 list" where
  "out_bytes x = take (nat (out_next x)) (out_msg x)"

definition in_rest :: "xdr_s_type \<Rightarrow> u8 list" where
  "in_rest x = drop (nat (in_next x)) (take (nat (in_len x)) (in_msg x))"

definition pad4 :: "nat \<Rightarrow> u8 list" where
  "pad4 n = replicate (nat ((- int n) mod 4)) 0"

definition room :: "xdr_s_type \<Rightarrow> nat" where
  "room x = 2048 - nat (out_next x)"

text \<open>The handle after \<open>bs\<close> has been appended to the message, and after \<open>n\<close> bytes have been consumed.\<close>

definition put :: "xdr_s_type \<Rightarrow> u8 list \<Rightarrow> xdr_s_type" where
  "put x bs = x\<lparr>out_msg := take (nat (out_next x)) (out_msg x) @ bs @
                             drop (nat (out_next x) + length bs) (out_msg x),
               out_next := out_next x + int (length bs)\<rparr>"

definition adv :: "xdr_s_type \<Rightarrow> nat \<Rightarrow> xdr_s_type" where
  "adv x n = x\<lparr>in_next := in_next x + int n\<rparr>"

subsection \<open>Lemmas: the streams\<close>

lemma put_select [simp]:
  "x_op (put x bs) = x_op x" "x_prog (put x bs) = x_prog x" "x_vers (put x bs) = x_vers x"
  "x_proc (put x bs) = x_proc x" "x_verf (put x bs) = x_verf x" "x_xid (put x bs) = x_xid x"
  "x_fd (put x bs) = x_fd x" "x_is_client (put x bs) = x_is_client x"
  "in_msg (put x bs) = in_msg x" "in_next (put x bs) = in_next x" "in_len (put x bs) = in_len x"
  "out_next (put x bs) = out_next x + int (length bs)"
  "in_rest (put x bs) = in_rest x"
  by (simp_all add: put_def in_rest_def)

lemma adv_select [simp]:
  "x_op (adv x n) = x_op x" "x_prog (adv x n) = x_prog x" "x_vers (adv x n) = x_vers x"
  "x_proc (adv x n) = x_proc x" "x_verf (adv x n) = x_verf x" "x_xid (adv x n) = x_xid x"
  "x_fd (adv x n) = x_fd x" "x_is_client (adv x n) = x_is_client x"
  "out_msg (adv x n) = out_msg x" "out_next (adv x n) = out_next x"
  "in_msg (adv x n) = in_msg x" "in_len (adv x n) = in_len x"
  "in_next (adv x n) = in_next x + int n"
  "out_bytes (adv x n) = out_bytes x" "room (adv x n) = room x"
  by (simp_all add: adv_def out_bytes_def room_def)

lemma put_Nil [simp]: "put x [] = x"
  by (simp add: put_def)

lemma adv_0 [simp]: "adv x 0 = x"
  by (simp add: adv_def)

lemma adv_adv [simp]: "adv (adv x m) n = adv x (m + n)"
  by (simp add: adv_def)

lemma xdr_ok_nat:
  assumes "xdr_ok x"
  shows "length (out_msg x) = 2048" "length (in_msg x) = 2048" "nat (out_next x) + room x = 2048"
    "out_next x = int (nat (out_next x))" "in_next x = int (nat (in_next x))"
  using assms by (auto simp: xdr_ok_def room_def)

lemma put_put:
  assumes "xdr_ok x" "length as + length bs \<le> room x"
  shows "put (put x as) bs = put x (as @ bs)"
proof -
  obtain n where n: "out_next x = int n" "n \<le> 2048"
    using assms(1) by (metis nat_0_le nat_le_iff of_nat_numeral xdr_ok_def)
  with assms show ?thesis
    by (simp add: put_def xdr_ok_def room_def nat_int_add take_append drop_append min_def ac_simps)
qed

lemma out_bytes_put [stream_simps]:
  "xdr_ok x \<Longrightarrow> length bs \<le> room x \<Longrightarrow> out_bytes (put x bs) = out_bytes x @ bs"
  by (auto simp: out_bytes_def put_def xdr_ok_def room_def nat_add_distrib)

lemma length_out_bytes: "xdr_ok x \<Longrightarrow> length (out_bytes x) = nat (out_next x)"
  by (auto simp: out_bytes_def xdr_ok_def)

lemma room_put [simp]: "xdr_ok x \<Longrightarrow> room (put x bs) = room x - length bs"
  by (auto simp: room_def xdr_ok_def nat_add_distrib)

lemma xdr_ok_put [ok_intros]:
  "xdr_ok x \<Longrightarrow> length bs \<le> room x \<Longrightarrow> length bs mod 4 = 0 \<Longrightarrow> xdr_ok (put x bs)"
  by (auto simp: xdr_ok_def room_def put_def)

lemma length_in_rest: "xdr_ok x \<Longrightarrow> length (in_rest x) = nat (in_len x - in_next x)"
  by (auto simp: in_rest_def xdr_ok_def)

lemma in_rest_adv [stream_simps]: "xdr_ok x \<Longrightarrow> in_rest (adv x n) = drop n (in_rest x)"
  by (auto simp: in_rest_def xdr_ok_def nat_add_distrib add.commute)

lemma mod4_add_nat: "(i :: int) mod 4 = 0 \<Longrightarrow> n mod 4 = 0 \<Longrightarrow> (i + int n) mod 4 = 0"
  by presburger

lemma mod4_bound: "(i :: int) mod 4 = 0 \<Longrightarrow> i \<le> 2051 \<Longrightarrow> i \<le> 2048"
  by presburger

lemma xdr_ok_adv [ok_intros]:
  assumes "xdr_ok x" "n \<le> length (in_rest x) + 3" "n mod 4 = 0"
  shows "xdr_ok (adv x n)"
proof -
  have m: "(in_next x + int n) mod 4 = 0"
    using assms by (intro mod4_add_nat) (auto simp: xdr_ok_def)
  have "in_next x + int n \<le> 2051"
    using assms by (auto simp: xdr_ok_def length_in_rest)
  with m have "in_next x + int n \<le> 2048" by (rule mod4_bound)
  with assms m show ?thesis by (simp add: xdr_ok_def)
qed

subsection \<open>Lemmas: sending\<close>

lemma send_uint32_put [stream_simps]:
  assumes "xdr_ok x"
  shows "xdr_std_send_uint32 x v =
     (if 4 \<le> room x then Some (True, put x (be32 v)) else Some (False, x))"
proof -
  have "out_next x \<ge> 2045 \<longleftrightarrow> \<not> 4 \<le> room x"
    using assms by (auto simp: xdr_ok_def room_def)
  with assms show ?thesis
    by (auto simp: xdr_std_send_uint32_def put_def mem_write_def xdr_ok_def)
qed

lemma mem_set_write: "mem_set m i v = mem_write m i [v]"
  by (auto simp: mem_set_def mem_write_def upd_conv_take_nth_drop)

lemma copy_out_write:
  "len \<le> length buf \<Longrightarrow> 0 \<le> n \<Longrightarrow> n + int len \<le> int (length m) \<Longrightarrow>
   copy_out m n buf len =
     Some (take (nat n) m @ take len buf @ drop (nat n + len) m, n + int len)"
proof (induction m n buf len rule: copy_out.induct)
  case (3 m n b buf len)
  define m' where "m' = take (nat n) m @ [b] @ drop (Suc (nat n)) m"
  have set: "mem_set m n b = Some m'"
    using "3.prems" by (simp add: mem_set_write mem_write_def m'_def)
  have "copy_out m' (n + 1) buf len =
      Some (take (nat (n + 1)) m' @ take len buf @ drop (nat (n + 1) + len) m', n + 1 + int len)"
    using "3.prems" by (intro "3.IH" [OF set]) (auto simp: m'_def)
  then show ?case
    using "3.prems" set by (simp add: m'_def nat_add_distrib add.commute)
qed simp_all

lemma copy_out_overrun:
  "0 \<le> n \<Longrightarrow> n \<le> int (length m) \<Longrightarrow> int (length m) < n + int len \<Longrightarrow>
   copy_out m n buf len = None"
proof (induction m n buf len rule: copy_out.induct)
  case (3 m n b buf len)
  then show ?case
    by (auto simp: mem_set_def bind_eq_None_conv)
qed simp_all

lemma pad_out_write:
  "0 \<le> n \<Longrightarrow> length m mod 4 = 0 \<Longrightarrow> n \<le> int (length m) \<Longrightarrow>
   pad_out m n = Some (take (nat n) m @ pad4 (nat n) @ drop (nat n + length (pad4 (nat n))) m,
                       n + int (length (pad4 (nat n))))"
proof (induction m n rule: pad_out.induct)
  case (1 m n)
  show ?case
  proof (cases "n mod 4 = 0")
    case True
    then have "pad4 (nat n) = []"
      using "1.prems" by (auto simp: pad4_def mod_0_imp_dvd)
    with True "1.prems" show ?thesis by (simp add: pad_out.simps)
  next
    case False
    define m' where "m' = take (nat n) m @ [0] @ drop (Suc (nat n)) m"
    have lt: "n < int (length m)"
      using False "1.prems" by presburger
    have set: "mem_set m n 0 = Some m'"
      using "1.prems" lt by (simp add: mem_set_write mem_write_def m'_def)
    have pad: "pad4 (nat n) = 0 # pad4 (nat (n + 1))"
    proof -
      have "(- n) mod 4 = (- (n + 1)) mod 4 + 1" "0 \<le> (- (n + 1)) mod 4"
        using False by presburger+
      then have "nat ((- n) mod 4) = Suc (nat ((- (n + 1)) mod 4))" by linarith
      then show ?thesis
        using "1.prems" by (simp add: pad4_def)
    qed
    have "pad_out m' (n + 1) =
        Some (take (nat (n + 1)) m' @ pad4 (nat (n + 1)) @
                drop (nat (n + 1) + length (pad4 (nat (n + 1)))) m',
              n + 1 + int (length (pad4 (nat (n + 1)))))"
      using "1.prems" lt by (intro "1.IH" [OF False set]) (auto simp: m'_def)
    with False set "1.prems" lt pad show ?thesis
      by (simp add: pad_out.simps [of m n] m'_def nat_add_distrib add.commute)
  qed
qed

lemma length_pad4: "length (pad4 n) \<le> 3"
proof -
  have "(- int n) mod 4 \<le> 3" by presburger
  then show ?thesis by (simp add: pad4_def)
qed

lemma length_pad4_mod: "(n + length (pad4 n)) mod 4 = 0"
proof -
  have "(int n + (- int n) mod 4) mod 4 = 0" "0 \<le> (- int n) mod 4" by presburger+
  then have "(int n + int (nat ((- int n) mod 4))) mod 4 = 0" by simp
  then show ?thesis unfolding pad4_def length_replicate by presburger
qed

lemma pad4_shift: "m mod 4 = 0 \<Longrightarrow> pad4 (m + n) = pad4 n"
proof -
  assume "m mod 4 = 0"
  then have "(- int (m + n)) mod 4 = (- int n) mod 4" by presburger
  then show ?thesis by (simp add: pad4_def)
qed

lemma padded_room:
  assumes "xdr_ok x" "n \<le> room x"
  shows "n + length (pad4 n) \<le> room x"
proof -
  obtain k where k: "out_next x = 4 * int k"
    using assms(1) by (metis dvdE mod_0_imp_dvd xdr_ok_def zero_le_imp_eq_int mult_nonneg_nonneg
        zero_le_mult_iff zero_less_numeral not_less)
  then have "room x = 4 * (512 - k)" by (simp add: room_def nat_mult_distrib)
  then have "room x mod 4 = 0" by simp
  moreover have "(n + length (pad4 n)) mod 4 = 0" by (rule length_pad4_mod)
  moreover have "n + length (pad4 n) \<le> room x + 3" using assms(2) length_pad4 [of n] by simp
  ultimately show ?thesis by presburger
qed

lemma send_bytes_put [stream_simps]:
  assumes ok: "xdr_ok x" and len: "unat len \<le> length buf" and fits: "unat len \<le> room x"
  shows "xdr_std_send_bytes x buf len = Some (True, put x (take (unat len) buf @ pad4 (unat len)))"
proof -
  obtain n where n: "out_next x = int n" "n \<le> 2048" "n mod 4 = 0"
    using ok by (metis nat_0_le nat_le_iff of_nat_numeral xdr_ok_def zmod_int of_nat_eq_0_iff)
  define l where "l = unat len"
  let ?p = "length (pad4 l)"
  have fits': "n + l + ?p \<le> 2048"
    using padded_room [OF ok fits] n by (simp add: room_def l_def)
  have "unat (word_of_int (int n) + len :: u32) = n + l"
    using fits' n by (simp add: unat_word_ariths unat_of_nat l_def)
  then have guard: "\<not> word_of_int (out_next x) + len > (2048 :: u32)"
    using fits' n by (simp add: word_less_nat_alt)
  define m1 where "m1 = take n (out_msg x) @ take l buf @ drop (n + l) (out_msg x)"
  have m1: "length m1 = 2048"
    using fits' len ok by (simp add: m1_def xdr_ok_def l_def)
  have "copy_out (out_msg x) (out_next x) buf l = Some (m1, int (n + l))"
    using fits' len ok n by (subst copy_out_write) (auto simp: xdr_ok_def m1_def l_def [symmetric])
  moreover have "pad_out m1 (int (n + l)) =
      Some (take (n + l) m1 @ pad4 l @ drop (n + l + ?p) m1, int (n + l + ?p))"
    using fits' m1 n by (subst pad_out_write) (auto simp: pad4_shift nat_int_add)
  ultimately show ?thesis
    using guard n len ok fits'
    by (simp add: xdr_std_send_bytes_def put_def m1_def xdr_ok_def ac_simps l_def [symmetric])
qed

lemma send_bytes_full [stream_simps]:
  assumes ok: "xdr_ok x" and full: "room x < unat len" and small: "unat len \<le> 2 ^ 32 - 2049"
  shows "xdr_std_send_bytes x buf len = Some (False, x)"
proof -
  obtain n where n: "out_next x = int n" "n \<le> 2048"
    using ok by (metis nat_0_le nat_le_iff of_nat_numeral xdr_ok_def)
  have "unat (word_of_int (int n) + len :: u32) = n + unat len"
    using small n by (simp add: unat_word_ariths unat_of_nat)
  then have "word_of_int (out_next x) + len > (2048 :: u32)"
    using full n by (simp add: word_less_nat_alt room_def)
  then show ?thesis by (simp add: xdr_std_send_bytes_def)
qed

text \<open>
  The bound is checked on the wrapped sum: a length close to \<open>2 ^ 32\<close> passes it, and the copy
  loop then runs past the end of \<open>out_msg\<close>.
\<close>

lemma send_bytes_wrap:
  assumes ok: "xdr_ok x" and pos: "0 < out_next x" and big: "2 ^ 32 - out_next x \<le> uint len"
  shows "xdr_std_send_bytes x buf len = None"
proof -
  obtain n where n: "out_next x = int n" "n \<le> 2048"
    using ok by (metis nat_0_le nat_le_iff of_nat_numeral xdr_ok_def)
  have lt: "unat len < 2 ^ 32" using unat_u32_less [of len] by simp
  have big': "4294967296 \<le> n + unat len"
  proof -
    have "4294967296 - int n \<le> int (unat len)" using big n by simp
    then show ?thesis by linarith
  qed
  then have "unat (word_of_int (int n) + len :: u32) = n + unat len - 2 ^ 32"
    using n lt by (simp add: unat_word_ariths unat_of_nat mod_if)
  then have "\<not> word_of_int (out_next x) + len > (2048 :: u32)"
    using n lt by (simp add: word_less_nat_alt)
  moreover have "copy_out (out_msg x) (out_next x) buf (unat len) = None"
  proof (rule copy_out_overrun)
    have "2048 < int (n + unat len)" using big' by linarith
    then show "int (length (out_msg x)) < out_next x + int (unat len)"
      using n ok by (simp add: xdr_ok_def)
  qed (use n ok in \<open>auto simp: xdr_ok_def\<close>)
  ultimately show ?thesis by (simp add: xdr_std_send_bytes_def)
qed

subsection \<open>Lemmas: receiving\<close>

lemma recv_uint32_adv [stream_simps]:
  assumes "xdr_ok x"
  shows "xdr_std_recv_uint32 x =
     (if 4 \<le> length (in_rest x) then Some (Some (of_be32 (take 4 (in_rest x))), adv x 4)
      else Some (None, x))"
proof -
  have guard: "in_next x + 4 > in_len x \<longleftrightarrow> \<not> 4 \<le> length (in_rest x)"
    using assms by (auto simp: length_in_rest xdr_ok_def)
  show ?thesis
  proof (cases "4 \<le> length (in_rest x)")
    case True
    then have "in_next x + 4 \<le> in_len x" using guard by linarith
    then have "mem_read (in_msg x) (in_next x) 4 = Some (take 4 (in_rest x))"
      using assms by (auto simp: mem_read_def in_rest_def xdr_ok_def take_drop min_def)
    with True guard show ?thesis by (simp add: xdr_std_recv_uint32_def adv_def)
  next
    case False
    with guard show ?thesis by (simp add: xdr_std_recv_uint32_def)
  qed
qed

lemma round_up_word:
  fixes m :: u32
  assumes "unat m \<le> 2048"
  shows "unat ((m + 3) AND NOT 3) = unat m + length (pad4 (unat m))"
proof -
  have "unat ((m + 3) AND NOT 3) = (unat m + 3) div 4 * 4"
    using assms by (simp add: word_and_not_3 unat_word_ariths)
  also have "\<dots> = unat m + length (pad4 (unat m))"
    using length_pad4 [of "unat m"] length_pad4_mod [of "unat m"] by presburger
  finally show ?thesis .
qed

lemma recv_bytes_adv [stream_simps]:
  assumes ok: "xdr_ok x" and small: "unat len < 2 ^ 31 - 2048"
  shows "xdr_std_recv_bytes x has_buf len =
     (if in_next x + int (unat len) \<le> in_len x
      then Some (Some (if has_buf then take (unat len) (in_rest x) else []),
                 adv x (unat len + length (pad4 (unat len))))
      else Some (None, x))"
proof -
  obtain n where n: "in_next x = int n" "n \<le> 2048" "n mod 4 = 0"
    using ok by (metis nat_0_le nat_le_iff of_nat_numeral xdr_ok_def zmod_int of_nat_eq_0_iff)
  define l where "l = unat len"
  have "sint len = int l"
    using small sint_u32_small [of len] by (simp add: l_def)
  then have add: "sadd (in_next x) (sint len) = Some (int (n + l))"
    using small n by (simp add: sadd_def int32_ok_def l_def [symmetric])
  show ?thesis
  proof (cases "int (n + l) \<le> in_len x")
    case True
    have nl: "n + l \<le> 2048" using True ok by (simp add: xdr_ok_def)
    have m: "unat (word_of_int (int n) + len :: u32) = n + l"
      using nl by (simp add: unat_word_ariths unat_of_nat l_def)
    have "unat ((word_of_int (int n) + len + 3 :: u32) AND NOT 3) = n + l + length (pad4 l)"
      using round_up_word [of "word_of_int (int n) + len"] m nl n by (simp add: pad4_shift)
    then have "sint ((word_of_int (int n) + len + 3 :: u32) AND NOT 3) = int (n + l + length (pad4 l))"
      using nl length_pad4 [of l] by (subst sint_u32_small) simp_all
    moreover have "mem_read (in_msg x) (int n) l = Some (take l (in_rest x))"
      using ok True nl n by (auto simp: mem_read_def in_rest_def xdr_ok_def take_drop min_def)
    ultimately show ?thesis
      using add True n
      by (simp add: xdr_std_recv_bytes_def adv_def l_def [symmetric] Let_def)
  next
    case False
    with add n show ?thesis by (simp add: xdr_std_recv_bytes_def l_def)
  qed
qed

text \<open>
  A length with the top bit set is negative after the cast to \<open>int\<close> and passes the check; the
  \<open>memcpy\<close> of at least \<open>2 ^ 31\<close> bytes then leaves \<open>in_msg\<close>.
\<close>

lemma recv_bytes_negative:
  assumes ok: "xdr_ok x" and neg: "2147483648 \<le> unat len" "unat len \<le> 4294965248"
    and len: "0 \<le> in_len x"
  shows "xdr_std_recv_bytes x True len = None"
proof -
  have s: "sint len = int (unat len) - 4294967296"
    using neg by (intro sint_u32_big) simp
  have bounds: "int (unat len) \<le> 4294965248" "2147483648 \<le> int (unat len)"
    using neg by linarith+
  then have "sadd (in_next x) (sint len) = Some (in_next x + sint len)"
    using ok unfolding s sadd_def int32_ok_def by (simp add: xdr_ok_def)
  moreover have "\<not> in_next x + sint len > in_len x"
    using ok bounds len unfolding s xdr_ok_def by linarith
  moreover have "mem_read (in_msg x) (in_next x) (unat len) = None"
    using ok bounds by (auto simp: mem_read_def xdr_ok_def)
  ultimately show ?thesis by (simp add: xdr_std_recv_bytes_def)
qed

lemma recv_narrow_adv [stream_simps]:
  assumes "xdr_ok x"
  shows "recv_narrow x =
     (if 4 \<le> length (in_rest x)
      then Some (Some (ucast (of_be32 (take 4 (in_rest x))) :: 'a::len word), adv x 4)
      else Some (None, x))"
  using assms by (simp add: recv_narrow_def stream_simps)

subsection \<open>Lemmas: messages\<close>

definition rewind :: "xdr_s_type \<Rightarrow> xdr_s_type" where
  "rewind x = x\<lparr>out_next := 0\<rparr>"

lemma rewind_select [simp]:
  "x_op (rewind x) = x_op x" "x_prog (rewind x) = x_prog x" "x_vers (rewind x) = x_vers x"
  "x_proc (rewind x) = x_proc x" "x_verf (rewind x) = x_verf x" "x_xid (rewind x) = x_xid x"
  "x_fd (rewind x) = x_fd x" "x_is_client (rewind x) = x_is_client x"
  "in_msg (rewind x) = in_msg x" "in_next (rewind x) = in_next x" "in_len (rewind x) = in_len x"
  "out_next (rewind x) = 0" "out_msg (rewind x) = out_msg x"
  "in_rest (rewind x) = in_rest x" "out_bytes (rewind x) = []" "room (rewind x) = 2048"
  by (simp_all add: rewind_def in_rest_def out_bytes_def room_def)

lemma xdr_ok_rewind [ok_intros]: "xdr_ok x \<Longrightarrow> xdr_ok (rewind x)"
  by (simp add: xdr_ok_def)

lemma xdr_ok_update [simp]:
  "xdr_ok (x\<lparr>x_op := v1\<rparr>) = xdr_ok x" "xdr_ok (x\<lparr>x_prog := v2\<rparr>) = xdr_ok x"
  "xdr_ok (x\<lparr>x_vers := v2\<rparr>) = xdr_ok x" "xdr_ok (x\<lparr>x_proc := v2\<rparr>) = xdr_ok x"
  "xdr_ok (x\<lparr>x_xid := v2\<rparr>) = xdr_ok x" "xdr_ok (x\<lparr>x_fd := v3\<rparr>) = xdr_ok x"
  "xdr_ok (x\<lparr>x_is_client := v4\<rparr>) = xdr_ok x" "xdr_ok (x\<lparr>x_verf := v5\<rparr>) = xdr_ok x"
  by (simp_all add: xdr_ok_def)

lemma stream_update [simp]:
  "out_bytes (x\<lparr>x_op := v1\<rparr>) = out_bytes x" "in_rest (x\<lparr>x_op := v1\<rparr>) = in_rest x"
  "room (x\<lparr>x_op := v1\<rparr>) = room x"
  "out_bytes (x\<lparr>x_prog := v2\<rparr>) = out_bytes x" "in_rest (x\<lparr>x_prog := v2\<rparr>) = in_rest x"
  "out_bytes (x\<lparr>x_vers := v2\<rparr>) = out_bytes x" "in_rest (x\<lparr>x_vers := v2\<rparr>) = in_rest x"
  "out_bytes (x\<lparr>x_proc := v2\<rparr>) = out_bytes x" "in_rest (x\<lparr>x_proc := v2\<rparr>) = in_rest x"
  "out_bytes (x\<lparr>x_xid := v2\<rparr>) = out_bytes x" "in_rest (x\<lparr>x_xid := v2\<rparr>) = in_rest x"
  by (simp_all add: out_bytes_def in_rest_def room_def)

lemma msg_start_put [stream_simps]:
  assumes "xdr_ok x"
  shows "xdr_std_msg_start x t =
     (let x1 = (if t = RPC_MSG_CALL then x\<lparr>x_xid := x_xid x + 1\<rparr> else x)
      in Some (True, put (rewind x1) (be32 (x_xid x1) @ be32 t)))"
  using assms
  by (auto simp: xdr_std_msg_start_def put_def rewind_def store32_def mem_write_def xdr_ok_def
      Let_def)

lemma msg_send_writes:
  assumes "xdr_ok x"
  shows "xdr_std_msg_send K x w =
     (case k_write K (x_fd x) (out_bytes x) w of (rc, w') \<Rightarrow> Some (rc = out_next x, w'))"
  using assms
  by (simp add: xdr_std_msg_send_def r_write_def mem_read_def xdr_ok_def out_bytes_def
      split: prod.split)

text \<open>The handle after a packet \<open>bs\<close> has been read into it.\<close>

definition arrive :: "xdr_s_type \<Rightarrow> u8 list \<Rightarrow> xdr_s_type" where
  "arrive x bs = x\<lparr>in_msg := bs @ drop (length bs) (in_msg x), in_len := int (length bs),
                  in_next := 8\<rparr>"

lemma read_arrive:
  assumes "xdr_ok x" "k_read K (x_fd x) 2048 w = (Some bs, w')" "8 \<le> length bs" "length bs \<le> 2048"
  shows "xdr_std_read K x w = Some (True, arrive x bs, w')"
  using assms by (simp add: xdr_std_read_def r_read_def mem_write_def xdr_ok_def arrive_def)

lemma read_total:
  assumes "xdr_ok x" "kernel_ok K"
  obtains ok x' w' where "xdr_std_read K x w = Some (ok, x', w')" "xdr_ok x'"
proof (cases "k_read K (x_fd x) 2048 w")
  case (Pair r w')
  show thesis
  proof (cases r)
    case None
    with Pair have "xdr_std_read K x w = Some (False, x\<lparr>in_msg := in_msg x, in_len := -1\<rparr>, w')"
      by (simp add: xdr_std_read_def r_read_def)
    then show thesis using assms by (auto intro!: that simp: xdr_ok_def)
  next
    case (Some bs)
    with Pair have "k_read K (x_fd x) 2048 w = (Some bs, w')" by simp
    then have "int (length bs) \<le> 2048" using assms(2) unfolding kernel_ok_def by (metis zero_le_numeral)
    then have "length bs \<le> 2048" by simp
    then show thesis using assms Pair Some
      by (cases "length bs < 8")
        (auto intro!: that simp: xdr_std_read_def r_read_def mem_write_def xdr_ok_def)
  qed
qed

lemma arrive_select [simp]:
  "x_op (arrive x bs) = x_op x" "x_prog (arrive x bs) = x_prog x" "x_vers (arrive x bs) = x_vers x"
  "x_proc (arrive x bs) = x_proc x" "x_verf (arrive x bs) = x_verf x"
  "x_xid (arrive x bs) = x_xid x" "x_fd (arrive x bs) = x_fd x"
  "x_is_client (arrive x bs) = x_is_client x"
  "out_msg (arrive x bs) = out_msg x" "out_next (arrive x bs) = out_next x"
  "in_len (arrive x bs) = int (length bs)" "in_next (arrive x bs) = 8"
  "out_bytes (arrive x bs) = out_bytes x" "room (arrive x bs) = room x"
  "in_rest (arrive x bs) = drop 8 bs"
  by (simp_all add: arrive_def out_bytes_def in_rest_def room_def)

lemma xdr_ok_arrive [ok_intros]:
  "xdr_ok x \<Longrightarrow> 8 \<le> length bs \<Longrightarrow> length bs \<le> 2048 \<Longrightarrow> xdr_ok (arrive x bs)"
  by (auto simp: xdr_ok_def arrive_def)

lemma load32_arrive:
  "xdr_ok x \<Longrightarrow> 4 * i + 4 \<le> length bs \<Longrightarrow> length bs \<le> 2048 \<Longrightarrow>
   load32 (in_msg (arrive x bs)) i = Some (of_be32 (take 4 (drop (4 * i) bs)))"
  by (auto simp: load32_def mem_read_def xdr_ok_def arrive_def nat_mult_distrib)

lemma xdr_ok_zero: "xdr_ok xdr_zero"
  by (simp add: xdr_ok_def xdr_zero_def)

lemma load32_zero: "load32 (out_msg xdr_zero) 0 = Some 0"
proof -
  have "replicate 4 (0 :: u8) = [0, 0, 0, 0]" by (simp add: numeral_eq_Suc)
  then show ?thesis by (simp add: load32_def mem_read_def xdr_zero_def)
qed

lemma init_common_ok:
  "xdr_init_common K router c w = Some (Some x, w') \<Longrightarrow> xdr_ok x \<and> x_xid x = 0 \<and> 0 \<le> x_fd x"
  by (auto simp: xdr_init_common_def Let_def xdr_zero_def xdr_ok_def split: if_splits prod.splits)

lemma clone_ok:
  "xdr_clone K y w = Some (Some x, w') \<Longrightarrow>
   xdr_ok x \<and> x_xid x = 0 \<and> x_prog x = x_prog y \<and> x_vers x = x_vers y"
  by (auto simp: xdr_clone_def Let_def xdr_zero_def xdr_ok_def split: if_splits prod.splits)

subsection \<open>A concrete router\<close>

text \<open>
  An instance of the kernel parameter, for evaluating the model on concrete inputs: descriptors are
  handed out in order, packets written are recorded, and each read takes the first packet queued for
  its descriptor.
\<close>

record router_world =
  next_fd :: int
  sent :: "(int \<times> u8 list) list"
  inbox :: "(int \<times> u8 list) list"

definition demo_kernel :: "router_world kernel" where
  "demo_kernel = \<lparr>
     k_open = (\<lambda>name w. (next_fd w, w\<lparr>next_fd := next_fd w + 1\<rparr>)),
     k_close = (\<lambda>f w. (0, w)),
     k_dup = (\<lambda>f w. (next_fd w, w\<lparr>next_fd := next_fd w + 1\<rparr>)),
     k_read = (\<lambda>f n w. case filter (\<lambda>p. fst p = f) (inbox w) of
        [] \<Rightarrow> (None, w)
      | p # _ \<Rightarrow> (Some (take (nat n) (snd p)), w\<lparr>inbox := remove1 p (inbox w)\<rparr>)),
     k_write = (\<lambda>f bs w. (int (length bs), w\<lparr>sent := sent w @ [(f, bs)]\<rparr>)),
     k_ioctl = (\<lambda>f cmd arg w. (0, w)),
     k_calloc = (\<lambda>w. True)\<rparr>"

definition demo_world :: router_world where
  "demo_world = \<lparr>next_fd = 3, sent = [], inbox = []\<rparr>"

lemma demo_kernel_ok: "kernel_ok demo_kernel"
  by (auto simp: kernel_ok_def demo_kernel_def split: list.splits)

subsection \<open>Properties\<close>

text \<open>
  C10: sending bytes never leaves the message buffer when the length is below \<open>2 ^ 32 - 2048\<close>: they
  are appended with zeros up to a word boundary if the message has room for them, and otherwise the
  operation reports failure and changes nothing; the handle stays well-formed.
\<close>

theorem xdr_send_bytes_safe:
  assumes "xdr_ok x" "unat len \<le> length buf" "unat len < 2 ^ 32 - 2048"
  shows "\<exists>x'. xdr_std_send_bytes x buf len = Some (unat len \<le> room x, x') \<and> xdr_ok x' \<and>
     out_bytes x' = out_bytes x @
       (if unat len \<le> room x then take (unat len) buf @ pad4 (unat len) else [])"
proof (cases "unat len \<le> room x")
  case True
  have "length (take (unat len) buf @ pad4 (unat len)) \<le> room x"
    using padded_room [OF assms(1) True] assms(2) by simp
  moreover have "length (take (unat len) buf @ pad4 (unat len)) mod 4 = 0"
    using length_pad4_mod [of "unat len"] assms(2) by simp
  ultimately show ?thesis
    using True assms by (simp add: send_bytes_put out_bytes_put xdr_ok_put del: length_append)
next
  case False
  with assms show ?thesis by (simp add: send_bytes_full)
qed

theorem xdr_send_bytes_safe_witness:
  "\<exists>x'. xdr_std_send_bytes xdr_zero [1, 2, 3] 3 = Some (unat (3 :: u32) \<le> room xdr_zero, x') \<and> xdr_ok x' \<and>
     out_bytes x' = out_bytes xdr_zero @
       (if unat (3 :: u32) \<le> room xdr_zero then take (unat (3 :: u32)) [1, 2, 3] @ pad4 (unat (3 :: u32))
        else [])"
  by (rule xdr_send_bytes_safe) (simp_all add: xdr_ok_zero)

text \<open>
  C11: receiving bytes never leaves the message buffer when the length is below \<open>2 ^ 31 - 2048\<close>: a
  length the rest of the message covers yields that many bytes and moves the cursor to the next word
  boundary, and a longer one is refused without moving it.
\<close>

theorem xdr_recv_bytes_safe:
  assumes "xdr_ok x" "unat len < 2 ^ 31 - 2048" "0 < unat len"
  shows "\<exists>x'. xdr_std_recv_bytes x True len =
       Some (if unat len \<le> length (in_rest x) then Some (take (unat len) (in_rest x)) else None, x') \<and>
     xdr_ok x' \<and>
     in_rest x' = (if unat len \<le> length (in_rest x) then drop (unat len + length (pad4 (unat len))) (in_rest x)
                  else in_rest x)"
proof -
  have "in_next x + int (unat len) \<le> in_len x \<longleftrightarrow> unat len \<le> length (in_rest x)"
    unfolding length_in_rest [OF assms(1)] using assms(3) by linarith
  moreover have "unat len \<le> length (in_rest x) \<Longrightarrow> xdr_ok (adv x (unat len + length (pad4 (unat len))))"
    using assms(1) length_pad4 [of "unat len"] length_pad4_mod [of "unat len"] by (intro xdr_ok_adv) auto
  ultimately show ?thesis
    using assms by (simp add: recv_bytes_adv in_rest_adv)
qed

theorem xdr_recv_bytes_safe_witness:
  "\<exists>x'. xdr_std_recv_bytes xdr_zero True 3 =
       Some (if unat (3 :: u32) \<le> length (in_rest xdr_zero) then Some (take (unat (3 :: u32)) (in_rest xdr_zero))
             else None, x') \<and> xdr_ok x' \<and>
     in_rest x' = (if unat (3 :: u32) \<le> length (in_rest xdr_zero)
       then drop (unat (3 :: u32) + length (pad4 (unat (3 :: u32)))) (in_rest xdr_zero)
       else in_rest xdr_zero)"
  by (rule xdr_recv_bytes_safe) (simp_all add: xdr_ok_zero)

text \<open>
  Outside those bounds the checks fail open. A length with the top bit set passes the check of
  \<open>xdr_std_recv_bytes\<close> as a negative number and the copy leaves the message buffer.
\<close>

theorem xdr_recv_bytes_negative_overrun:
  assumes "xdr_ok x" "2147483648 \<le> unat len" "unat len \<le> 4294965248" "0 \<le> in_len x"
  shows "xdr_std_recv_bytes x True len = None"
  using assms by (rule recv_bytes_negative)

theorem xdr_recv_bytes_negative_overrun_witness:
  "xdr_std_recv_bytes xdr_zero True 0x80000000 = None"
proof (rule xdr_recv_bytes_negative_overrun)
  show "0 \<le> in_len xdr_zero" by (simp add: xdr_zero_def)
qed (simp_all add: xdr_ok_zero)

text \<open>
  C12: a packet read into a handle is exactly what the receive operations then see after the
  identifier and the type: whatever the router delivers, reading is free of undefined behaviour,
  keeps the handle well-formed, and fails precisely on an error and on packets below eight bytes.
\<close>

theorem xdr_read_total:
  assumes "xdr_ok x" "kernel_ok K"
  shows "\<exists>x' w'. (case k_read K (x_fd x) 2048 w of
       (Some bs, w1) \<Rightarrow> xdr_std_read K x w = Some (8 \<le> length bs, x', w') \<and> w' = w1 \<and>
          (8 \<le> length bs \<longrightarrow> in_rest x' = drop 8 bs)
     | (None, w1) \<Rightarrow> xdr_std_read K x w = Some (False, x', w') \<and> w' = w1) \<and> xdr_ok x'"
proof (cases "k_read K (x_fd x) 2048 w")
  case (Pair r w1)
  show ?thesis
  proof (cases r)
    case None
    with Pair assms(1) show ?thesis
      by (auto simp: xdr_std_read_def r_read_def xdr_ok_def)
  next
    case (Some bs)
    with Pair have k: "k_read K (x_fd x) 2048 w = (Some bs, w1)" by simp
    then have "int (length bs) \<le> 2048" using assms(2) unfolding kernel_ok_def by (metis zero_le_numeral)
    then have len: "length bs \<le> 2048" by simp
    show ?thesis
    proof (cases "8 \<le> length bs")
      case True
      with k len assms(1) show ?thesis by (simp add: read_arrive xdr_ok_arrive)
    next
      case False
      with k len assms(1) show ?thesis
        by (auto simp: xdr_std_read_def r_read_def mem_write_def xdr_ok_def)
    qed
  qed
qed

theorem xdr_read_total_witness:
  "\<exists>x' w'. (case k_read demo_kernel (x_fd xdr_zero) 2048 (demo_world\<lparr>inbox := [(0, replicate 12 9)]\<rparr>) of
       (Some bs, w1) \<Rightarrow>
          xdr_std_read demo_kernel xdr_zero (demo_world\<lparr>inbox := [(0, replicate 12 9)]\<rparr>)
            = Some (8 \<le> length bs, x', w') \<and> w' = w1 \<and> (8 \<le> length bs \<longrightarrow> in_rest x' = drop 8 bs)
     | (None, w1) \<Rightarrow>
          xdr_std_read demo_kernel xdr_zero (demo_world\<lparr>inbox := [(0, replicate 12 9)]\<rparr>)
            = Some (False, x', w') \<and> w' = w1) \<and> xdr_ok x'"
  by (rule xdr_read_total [OF xdr_ok_zero demo_kernel_ok])

end
