(* ===== verification/Xdr.thy ===== *)
theory Xdr
  imports Xdr_Std
begin

text \<open>
  The XDR filters of \<open>librpc/xdr.c\<close>. A filter takes a handle and an object; the handle's
  \<open>x_op\<close> selects whether the object is encoded, decoded or freed. In the model it returns the C
  result, the new handle and the new object. A pointer to a buffer is \<open>None\<close> when null and
  otherwise the contents of the buffer it points to; \<open>malloc\<close> is a parameter that may fail and
  whose blocks have arbitrary contents.

  The locale \<open>xdr_codec\<close> is the contract between a filter and its users: what the encoder
  appends is what the decoder reads back. It is interpreted on every scalar filter; the laws of
  \<open>xdr_vector\<close> and \<open>xdr_array\<close> are proved once inside it, for any element filter.
\<close>

type_synonym 'a xdrproc = "xdr_s_type \<Rightarrow> 'a \<Rightarrow> (bool \<times> xdr_s_type \<times> 'a) option"
type_synonym allocator = "nat \<Rightarrow> u8 list option"

definition malloc_ok :: "allocator \<Rightarrow> bool" where
  "malloc_ok malloc \<longleftrightarrow> (\<forall>n b. malloc n = Some b \<longrightarrow> length b = n)"

text \<open>A call of a send operation leaves the object alone; a receive operation replaces it on success.\<close>

definition sending :: "(bool \<times> xdr_s_type) option \<Rightarrow> 'a \<Rightarrow> (bool \<times> xdr_s_type \<times> 'a) option" where
  "sending m v = map_option (\<lambda>(b, x). (b, x, v)) m"

definition receiving ::
  "('b option \<times> xdr_s_type) option \<Rightarrow> ('b \<Rightarrow> 'a) \<Rightarrow> 'a \<Rightarrow> (bool \<times> xdr_s_type \<times> 'a) option" where
  "receiving m f v =
     map_option (\<lambda>(r, x). case r of None \<Rightarrow> (False, x, v) | Some u \<Rightarrow> (True, x, f u)) m"

subsection \<open>Scalar filters\<close>

definition xdr_send_enum :: "xdr_s_type \<Rightarrow> u32 \<Rightarrow> nat \<Rightarrow> (bool \<times> xdr_s_type) option" where
  "xdr_send_enum x value sz =
     (if sz = 4 then xdr_std_send_int32 x value
      else if sz = 2 then xdr_std_send_int16 x (ucast value)
      else if sz = 1 then xdr_std_send_int8 x (ucast value)
      else Some (False, x))"

definition xdr_recv_enum :: "xdr_s_type \<Rightarrow> u32 \<Rightarrow> nat \<Rightarrow> (bool \<times> xdr_s_type \<times> u32) option" where
  "xdr_recv_enum x value sz =
     (if sz = 4 then receiving (xdr_std_recv_int32 x) (\<lambda>u. u) value
      else if sz = 2 then
        receiving (xdr_std_recv_int16 x) (\<lambda>u. (value AND NOT (mask 16)) OR ucast u) value
      else if sz = 1 then
        receiving (xdr_std_recv_int8 x) (\<lambda>u. (value AND NOT (mask 8)) OR ucast u) value
      else Some (False, x, value))"

definition xdr_enum :: "i32 xdrproc" where
  "xdr_enum x e =
     (case x_op x of
        XDR_ENCODE \<Rightarrow> sending (xdr_std_send_int32 x e) e
      | XDR_DECODE \<Rightarrow> receiving (xdr_std_recv_int32 x) (\<lambda>u. u) e
      | XDR_FREE \<Rightarrow> Some (True, x, e))"

definition xdr_u_int :: "u32 xdrproc" where
  "xdr_u_int x ui =
     (case x_op x of
        XDR_ENCODE \<Rightarrow> sending (xdr_std_send_uint32 x ui) ui
      | XDR_DECODE \<Rightarrow> receiving (xdr_std_recv_uint32 x) (\<lambda>u. u) ui
      | XDR_FREE \<Rightarrow> Some (True, x, ui))"

definition xdr_u_char :: "u8 xdrproc" where
  "xdr_u_char x c =
     do { (b, x', u) \<leftarrow> xdr_u_int x (ucast c);
          Some (b, x', if b then ucast u else c) }"

definition xdr_long :: "i32 xdrproc" where
  "xdr_long x l =
     (case x_op x of
        XDR_ENCODE \<Rightarrow> sending (xdr_std_send_int32 x l) l
      | XDR_DECODE \<Rightarrow> receiving (xdr_std_recv_int32 x) (\<lambda>u. u) l
      | XDR_FREE \<Rightarrow> Some (True, x, l))"

definition xdr_u_long :: "u32 xdrproc" where
  "xdr_u_long x ul =
     (case x_op x of
        XDR_ENCODE \<Rightarrow> sending (xdr_std_send_uint32 x ul) ul
      | XDR_DECODE \<Rightarrow> receiving (xdr_std_recv_uint32 x) (\<lambda>u. u) ul
      | XDR_FREE \<Rightarrow> Some (True, x, ul))"

definition xdr_u_hyper :: "u64 xdrproc" where
  "xdr_u_hyper x ull =
     (case x_op x of
        XDR_ENCODE \<Rightarrow>
          do { let t1 = (ucast (drop_bit 32 ull) :: u32);
               let t2 = (ucast ull :: u32);
               (b1, x1) \<leftarrow> xdr_std_send_int32 x t1;
               if b1 then sending (xdr_std_send_int32 x1 t2) ull else Some (False, x1, ull) }
      | XDR_DECODE \<Rightarrow>
          do { (r1, x1) \<leftarrow> xdr_std_recv_int32 x;
               case r1 of None \<Rightarrow> Some (False, x1, ull)
               | Some t1 \<Rightarrow>
                   receiving (xdr_std_recv_int32 x1)
                     (\<lambda>t2. push_bit 32 (ucast t1) OR ucast t2) ull }
      | XDR_FREE \<Rightarrow> Some (True, x, ull))"

definition xdr_u_quad_t :: "u64 xdrproc" where
  "xdr_u_quad_t x ull = xdr_u_hyper x ull"

definition xdr_u_short :: "u16 xdrproc" where
  "xdr_u_short x us =
     (case x_op x of
        XDR_ENCODE \<Rightarrow> sending (xdr_std_send_uint32 x (ucast us)) us
      | XDR_DECODE \<Rightarrow> receiving (xdr_std_recv_uint32 x) (\<lambda>l. ucast l) us
      | XDR_FREE \<Rightarrow> Some (True, x, us))"

definition xdr_bool :: "i32 xdrproc" where
  "xdr_bool x bp =
     (case x_op x of
        XDR_ENCODE \<Rightarrow> sending (xdr_std_send_uint32 x (if bp \<noteq> 0 then 1 else 0)) bp
      | XDR_DECODE \<Rightarrow> receiving (xdr_std_recv_uint32 x) (\<lambda>lb. if lb = 0 then 0 else 1) bp
      | XDR_FREE \<Rightarrow> Some (True, x, bp))"

definition xdr_void :: "'a xdrproc" where
  "xdr_void x v = Some (True, x, v)"

definition xdr_int :: "i32 xdrproc" where
  "xdr_int x i =
     (case x_op x of
        XDR_ENCODE \<Rightarrow> sending (xdr_std_send_int32 x i) i
      | XDR_DECODE \<Rightarrow> receiving (xdr_std_recv_int32 x) (\<lambda>u. u) i
      | XDR_FREE \<Rightarrow> Some (True, x, i))"

text \<open>Plain \<open>char\<close> is unsigned on ARM.\<close>

definition xdr_char :: "u8 xdrproc" where
  "xdr_char x c =
     do { (b, x', i) \<leftarrow> xdr_int x (ucast c);
          Some (b, x', if b then ucast i else c) }"

definition xdr_quad_t :: "u64 xdrproc" where
  "xdr_quad_t x ll = xdr_u_quad_t x ll"

definition xdr_short :: "i16 xdrproc" where
  "xdr_short x s =
     (case x_op x of
        XDR_ENCODE \<Rightarrow> sending (xdr_std_send_int32 x (scast s)) s
      | XDR_DECODE \<Rightarrow> receiving (xdr_std_recv_int32 x) (\<lambda>l. ucast l) s
      | XDR_FREE \<Rightarrow> Some (True, x, s))"

subsection \<open>Byte strings\<close>

text \<open>The object of \<open>xdr_bytes\<close> is the pair of \<open>*cpp\<close> and \<open>*sizep\<close>.\<close>

definition xdr_bytes :: "allocator \<Rightarrow> u32 \<Rightarrow> (u8 list option \<times> u32) xdrproc" where
  "xdr_bytes malloc maxsize x obj =
     (case obj of (cp, sz) \<Rightarrow>
      (case x_op x of
         XDR_DECODE \<Rightarrow>
           do { (r, x1) \<leftarrow> xdr_std_recv_uint32 x;
                case r of None \<Rightarrow> Some (False, x1, cp, sz)
                | Some sz1 \<Rightarrow>
                    if sz1 > maxsize then Some (False, x1, cp, sz1)
                    else if sz1 = 0 then Some (True, x1, cp, sz1)
                    else (case (if cp = None then malloc (unat sz1) else cp) of
                            None \<Rightarrow> Some (False, x1, None, sz1)
                          | Some buf \<Rightarrow>
                              do { (rb, x2) \<leftarrow> xdr_std_recv_bytes x1 True sz1;
                                   case rb of None \<Rightarrow> Some (False, x2, Some buf, sz1)
                                   | Some bs \<Rightarrow>
                                       do { buf' \<leftarrow> mem_write buf 0 bs;
                                            Some (True, x2, Some buf', sz1) } }) }
       | XDR_ENCODE \<Rightarrow>
           do { (b1, x1) \<leftarrow> xdr_std_send_uint32 x sz;
                if b1 \<and> sz \<le> maxsize
                then sending (xdr_std_send_bytes x1 (case cp of None \<Rightarrow> [] | Some b \<Rightarrow> b) sz) (cp, sz)
                else Some (False, x1, cp, sz) }
       | XDR_FREE \<Rightarrow> Some (True, x, None, sz)))"

definition xdr_opaque :: "u32 \<Rightarrow> u8 list xdrproc" where
  "xdr_opaque cnt x cp =
     (if cnt = 0 then Some (True, x, cp)
      else case x_op x of
        XDR_ENCODE \<Rightarrow> sending (xdr_std_send_bytes x cp cnt) cp
      | XDR_DECODE \<Rightarrow>
          do { (rb, x1) \<leftarrow> xdr_std_recv_bytes x True cnt;
               case rb of None \<Rightarrow> Some (False, x1, cp)
               | Some bs \<Rightarrow> do { cp' \<leftarrow> mem_write cp 0 bs; Some (True, x1, cp') } }
      | XDR_FREE \<Rightarrow> Some (True, x, cp))"

fun strlen :: "u8 list \<Rightarrow> nat option" where
  "strlen [] = None"
| "strlen (c # cs) = (if c = 0 then Some 0 else map_option Suc (strlen cs))"

definition xdr_string :: "allocator \<Rightarrow> u32 \<Rightarrow> (u8 list option) xdrproc" where
  "xdr_string malloc maxsize x cp =
     (case x_op x of
        XDR_FREE \<Rightarrow>
          (case cp of None \<Rightarrow> Some (True, x, None)
           | Some s \<Rightarrow>
               do { n \<leftarrow> strlen s;
                    (b, x1, sz) \<leftarrow> xdr_u_int x (of_nat n);
                    if \<not> b then Some (False, x1, cp)
                    else if sz > maxsize then Some (False, x1, cp)
                    else Some (True, x1, None) })
      | XDR_ENCODE \<Rightarrow>
          (case cp of None \<Rightarrow> Some (False, x, None)
           | Some s \<Rightarrow>
               do { n \<leftarrow> strlen s;
                    (b, x1, sz) \<leftarrow> xdr_u_int x (of_nat n);
                    if \<not> b then Some (False, x1, cp)
                    else if sz > maxsize then Some (False, x1, cp)
                    else do { (b2, x2, s') \<leftarrow> xdr_opaque sz x1 s; Some (b2, x2, Some s') } })
      | XDR_DECODE \<Rightarrow>
          do { (b, x1, sz) \<leftarrow> xdr_u_int x 0;
               if \<not> b then Some (False, x1, cp)
               else if sz > maxsize then Some (False, x1, cp)
               else if sz + 1 = 0 then Some (True, x1, cp)
               else (case (if cp = None then malloc (unat (sz + 1)) else cp) of
                       None \<Rightarrow> Some (False, x1, None)
                     | Some buf \<Rightarrow>
                         do { buf1 \<leftarrow> mem_set buf (int (unat sz)) 0;
                              (b2, x2, buf2) \<leftarrow> xdr_opaque sz x1 buf1;
                              Some (b2, x2, Some buf2) }) })"

subsection \<open>Composite filters\<close>

text \<open>
  Arrays are lists of elements: the byte stride \<open>elemsize\<close> only says how many whole elements a
  block holds. An element index outside the list is outside the object.
\<close>

fun xdr_elems :: "'a xdrproc \<Rightarrow> xdr_s_type \<Rightarrow> 'a list \<Rightarrow> nat \<Rightarrow> (bool \<times> xdr_s_type \<times> 'a list) option" where
  "xdr_elems elproc x es 0 = Some (True, x, es)"
| "xdr_elems elproc x [] (Suc n) = None"
| "xdr_elems elproc x (e # es) (Suc n) =
     do { (b, x1, e1) \<leftarrow> elproc x e;
          if \<not> b then Some (False, x1, e1 # es)
          else do { (b2, x2, es2) \<leftarrow> xdr_elems elproc x1 es n; Some (b2, x2, e1 # es2) } }"

definition xdr_vector :: "u32 \<Rightarrow> 'a xdrproc \<Rightarrow> 'a list xdrproc" where
  "xdr_vector nelem xdr_elem x base = xdr_elems xdr_elem x base (unat nelem)"

text \<open>\<open>zero\<close> is the object whose bytes are all zero. Encoding a null pointer hands null to \<open>proc\<close>.\<close>

definition xdr_reference :: "allocator \<Rightarrow> u32 \<Rightarrow> 'a \<Rightarrow> 'a xdrproc \<Rightarrow> ('a option) xdrproc" where
  "xdr_reference malloc sz zero proc x pp =
     (if pp = None \<and> x_op x = XDR_FREE then Some (True, x, None)
      else if pp = None \<and> x_op x = XDR_DECODE \<and> malloc (unat sz) = None then Some (False, x, None)
      else (case (if pp = None \<and> x_op x = XDR_DECODE then Some zero else pp) of
              None \<Rightarrow> None
            | Some obj \<Rightarrow>
                do { (stat, x1, obj1) \<leftarrow> proc x obj;
                     Some (stat, x1, if x_op x1 = XDR_FREE then None else Some obj1) }))"

definition xdr_pointer :: "allocator \<Rightarrow> u32 \<Rightarrow> 'a \<Rightarrow> 'a xdrproc \<Rightarrow> ('a option) xdrproc" where
  "xdr_pointer malloc obj_size zero xdr_obj x objp =
     do { (b, x1, more_data) \<leftarrow> xdr_bool x (if objp \<noteq> None then 1 else 0);
          if \<not> b then Some (False, x1, objp)
          else if more_data = 0 then Some (True, x1, None)
          else xdr_reference malloc obj_size zero xdr_obj x1 objp }"

definition xdr_array ::
  "allocator \<Rightarrow> u32 \<Rightarrow> u32 \<Rightarrow> 'a \<Rightarrow> 'a xdrproc \<Rightarrow> ('a list option \<times> u32) xdrproc" where
  "xdr_array malloc maxsize elsize zero elproc x obj =
     (case obj of (addr, sz) \<Rightarrow>
        do { (b, x1, c) \<leftarrow> xdr_u_int x sz;
             if \<not> b then Some (False, x1, addr, c)
             else if c > maxsize \<and> x_op x1 \<noteq> XDR_FREE then Some (False, x1, addr, c)
             else let nodesize = c * elsize in
               if addr = None \<and> x_op x1 = XDR_DECODE \<and> c = 0 then Some (True, x1, None, c)
               else if addr = None \<and> x_op x1 = XDR_DECODE \<and> malloc (unat nodesize) = None
                 then Some (False, x1, None, c)
               else if addr = None \<and> x_op x1 = XDR_FREE then Some (True, x1, None, c)
               else let target = (if addr = None \<and> x_op x1 = XDR_DECODE
                                  then Some (replicate (unat nodesize div unat elsize) zero) else addr)
                 in do { (stat, x2, es) \<leftarrow>
                           xdr_elems elproc x1 (case target of None \<Rightarrow> [] | Some es \<Rightarrow> es) (unat c);
                         Some (stat, x2,
                               (if x_op x2 = XDR_FREE then None
                                else if target = None then None else Some es), c) } })"

definition xdr_free :: "'a xdrproc \<Rightarrow> xdr_s_type \<Rightarrow> 'a \<Rightarrow> (bool \<times> xdr_s_type \<times> 'a) option" where
  "xdr_free proc x0 obj = proc (x0\<lparr>x_op := XDR_FREE\<rparr>) obj"

subsection \<open>The contract of a filter\<close>

lemma sending_Some [simp]: "sending (Some (b, x)) v = Some (b, x, v)"
  by (simp add: sending_def)

lemma receiving_Some [simp]:
  "receiving (Some (None, x)) f v = Some (False, x, v)"
  "receiving (Some (Some u, x)) f v = Some (True, x, f u)"
  by (simp_all add: receiving_def)

text \<open>
  \<open>enc v\<close> are the bytes of \<open>v\<close> on the wire, \<open>wf\<close> the objects the filter can represent
  and \<open>dst\<close> the objects it can decode into. A decoder reads back what an encoder appended and
  consumes exactly that; an encoder that runs out of room reports it and keeps the handle
  well-formed.
\<close>

locale xdr_codec =
  fixes proc :: "'a xdrproc" and enc :: "'a \<Rightarrow> u8 list"
    and wf :: "'a \<Rightarrow> bool" and dst :: "'a \<Rightarrow> bool"
  assumes enc_aligned: "wf v \<Longrightarrow> length (enc v) mod 4 = 0"
    and encode: "xdr_ok x \<Longrightarrow> x_op x = XDR_ENCODE \<Longrightarrow> wf v \<Longrightarrow> length (enc v) \<le> room x \<Longrightarrow>
      proc x v = Some (True, put x (enc v), v)"
    and encode_full: "xdr_ok x \<Longrightarrow> x_op x = XDR_ENCODE \<Longrightarrow> wf v \<Longrightarrow> room x < length (enc v) \<Longrightarrow>
      \<exists>x'. proc x v = Some (False, x', v) \<and> xdr_ok x'"
    and decode: "xdr_ok x \<Longrightarrow> x_op x = XDR_DECODE \<Longrightarrow> wf v \<Longrightarrow> dst u \<Longrightarrow>
      in_rest x = enc v @ rest \<Longrightarrow> proc x u = Some (True, adv x (length (enc v)), v)"
begin

lemma decode_ok:
  assumes "xdr_ok x" "wf v" "in_rest x = enc v @ rest"
  shows "xdr_ok (adv x (length (enc v)))" "in_rest (adv x (length (enc v))) = rest"
  using assms enc_aligned by (auto intro!: xdr_ok_adv simp: in_rest_adv)

lemma encode_ok:
  assumes "xdr_ok x" "wf v" "length (enc v) \<le> room x"
  shows "xdr_ok (put x (enc v))"
  using assms enc_aligned by (auto intro!: xdr_ok_put)

text \<open>Round trip through the wire: the bytes an encoder appends decode to the value encoded.\<close>

lemma through_wire:
  assumes "xdr_ok x" "x_op x = XDR_ENCODE" "wf v" "length (enc v) \<le> room x"
  shows "\<exists>x'. proc x v = Some (True, x', v) \<and> xdr_ok x' \<and>
    (\<forall>y u rest. xdr_ok y \<longrightarrow> x_op y = XDR_DECODE \<longrightarrow> dst u \<longrightarrow>
       out_bytes x @ in_rest y = out_bytes x' @ rest \<longrightarrow>
       (\<exists>y'. proc y u = Some (True, y', v) \<and> xdr_ok y' \<and> in_rest y' = rest))"
proof (rule exI [of _ "put x (enc v)"], intro conjI allI impI)
  fix y u rest
  assume y: "xdr_ok y" "x_op y = XDR_DECODE" "dst u"
    and "out_bytes x @ in_rest y = out_bytes (put x (enc v)) @ rest"
  then have "in_rest y = enc v @ rest" using assms by (simp add: out_bytes_put)
  with y assms show "\<exists>y'. proc y u = Some (True, y', v) \<and> xdr_ok y' \<and> in_rest y' = rest"
    using decode [of y v u rest] decode_ok [of y v rest] by blast
qed (use assms encode encode_ok in auto)

text \<open>A list of elements is the concatenation of its elements.\<close>

lemma elems_aligned:
  "list_all wf es \<Longrightarrow> length (concat (map enc es)) mod 4 = 0"
  by (induction es) (auto simp: mod_add_eq dest: enc_aligned mod_0_imp_dvd)

lemma elems_encode:
  assumes "xdr_ok x" "x_op x = XDR_ENCODE" "list_all wf es" "length (concat (map enc es)) \<le> room x"
  shows "xdr_elems proc x es (length es) = Some (True, put x (concat (map enc es)), es)"
  using assms
proof (induction es arbitrary: x)
  case Nil
  then show ?case by simp
next
  case (Cons e es)
  have fits: "length (enc e) \<le> room x" "wf e" using Cons.prems by auto
  have ok: "xdr_ok (put x (enc e))"
    using Cons.prems fits by (intro encode_ok) auto
  have "xdr_elems proc (put x (enc e)) es (length es)
      = Some (True, put (put x (enc e)) (concat (map enc es)), es)"
    using Cons.prems ok by (intro Cons.IH) auto
  moreover have "put (put x (enc e)) (concat (map enc es)) = put x (concat (map enc (e # es)))"
    using Cons.prems by (subst put_put) auto
  ultimately show ?case
    using Cons.prems fits by (simp add: encode)
qed

lemma elems_decode:
  assumes "xdr_ok x" "x_op x = XDR_DECODE" "list_all wf es" "list_all dst us"
    and "length us = length es" "in_rest x = concat (map enc es) @ rest"
  shows "xdr_elems proc x us (length es) = Some (True, adv x (length (concat (map enc es))), es)"
  using assms
proof (induction es arbitrary: x us)
  case Nil
  then show ?case by simp
next
  case (Cons e es)
  then obtain u us' where us: "us = u # us'" by (cases us) auto
  have rest: "in_rest x = enc e @ (concat (map enc es) @ rest)" using Cons.prems by simp
  have first: "proc x u = Some (True, adv x (length (enc e)), e)"
    using Cons.prems us rest by (intro decode) auto
  have "xdr_elems proc (adv x (length (enc e))) us' (length es)
      = Some (True, adv (adv x (length (enc e))) (length (concat (map enc es))), es)"
    using Cons.prems us decode_ok [OF _ _ rest] by (intro Cons.IH) auto
  with first us show ?case by simp
qed

end

text \<open>
  What a caller needs of the filter of one particular value: encoding appends \<open>e\<close>, and decoding
  \<open>e\<close> into \<open>u\<close> yields \<open>v\<close>. A filter that only sends or only receives has one of the two.
\<close>

definition encodes :: "'a xdrproc \<Rightarrow> 'a \<Rightarrow> u8 list \<Rightarrow> bool" where
  "encodes proc v e \<longleftrightarrow> length e mod 4 = 0 \<and>
     (\<forall>x. xdr_ok x \<longrightarrow> x_op x = XDR_ENCODE \<longrightarrow> length e \<le> room x \<longrightarrow> proc x v = Some (True, put x e, v))"

definition decodes :: "'a xdrproc \<Rightarrow> 'a \<Rightarrow> u8 list \<Rightarrow> 'a \<Rightarrow> bool" where
  "decodes proc u e v \<longleftrightarrow>
     (\<forall>x rest. xdr_ok x \<longrightarrow> x_op x = XDR_DECODE \<longrightarrow> in_rest x = e @ rest \<longrightarrow>
        proc x u = Some (True, adv x (length e), v))"

context xdr_codec
begin

lemma codec_encodes: "wf v \<Longrightarrow> encodes proc v (enc v)"
  by (simp add: encodes_def enc_aligned encode)

lemma codec_decodes: "wf v \<Longrightarrow> dst u \<Longrightarrow> decodes proc u (enc v) v"
  by (simp add: decodes_def decode)

end

text \<open>A filter for a value that travels as one 32-bit word.\<close>

locale xdr_word =
  fixes proc :: "'a xdrproc" and to_word :: "'a \<Rightarrow> u32" and of_word :: "u32 \<Rightarrow> 'a"
    and wf :: "'a \<Rightarrow> bool"
  assumes spec: "xdr_ok x \<Longrightarrow> proc x v =
      (case x_op x of
         XDR_ENCODE \<Rightarrow> (if 4 \<le> room x then Some (True, put x (be32 (to_word v)), v)
                       else Some (False, x, v))
       | XDR_DECODE \<Rightarrow> (if 4 \<le> length (in_rest x)
                       then Some (True, adv x 4, of_word (of_be32 (take 4 (in_rest x))))
                       else Some (False, x, v))
       | XDR_FREE \<Rightarrow> Some (True, x, v))"
    and inverse: "wf v \<Longrightarrow> of_word (to_word v) = v"
begin

lemma total: "xdr_ok x \<Longrightarrow> \<exists>b x' v'. proc x v = Some (b, x', v') \<and> xdr_ok x' \<and> x_op x' = x_op x"
  by (cases "x_op x") (auto simp: spec intro!: xdr_ok_put xdr_ok_adv)

end

sublocale xdr_word \<subseteq> xdr_codec proc "\<lambda>v. be32 (to_word v)" wf "\<lambda>_. True"
  by unfold_locales (auto simp: spec inverse)

lemmas word_filter_defs =
  xdr_enum_def xdr_u_int_def xdr_long_def xdr_u_long_def xdr_u_short_def xdr_bool_def xdr_int_def
  xdr_short_def xdr_u_char_def xdr_char_def
  xdr_std_send_int32_def xdr_std_recv_int32_def

lemma narrow_widen [simp]:
  "ucast (scast (v :: 16 word) :: 32 word) = v"
  "ucast (ucast v :: 32 word) = v"
  "ucast (ucast (u :: 8 word) :: 32 word) = u"
  by (rule bit_word_eqI; auto simp: bit_simps)+

interpretation wd_u_int: xdr_word xdr_u_int "\<lambda>v. v" "\<lambda>v. v" "\<lambda>_. True"
  by unfold_locales (auto simp: word_filter_defs stream_simps split: xdr_op.splits)

interpretation wd_enum: xdr_word xdr_enum "\<lambda>v. v" "\<lambda>v. v" "\<lambda>_. True"
  by unfold_locales (auto simp: word_filter_defs stream_simps split: xdr_op.splits)

interpretation wd_long: xdr_word xdr_long "\<lambda>v. v" "\<lambda>v. v" "\<lambda>_. True"
  by unfold_locales (auto simp: word_filter_defs stream_simps split: xdr_op.splits)

interpretation wd_u_long: xdr_word xdr_u_long "\<lambda>v. v" "\<lambda>v. v" "\<lambda>_. True"
  by unfold_locales (auto simp: word_filter_defs stream_simps split: xdr_op.splits)

interpretation wd_int: xdr_word xdr_int "\<lambda>v. v" "\<lambda>v. v" "\<lambda>_. True"
  by unfold_locales (auto simp: word_filter_defs stream_simps split: xdr_op.splits)

interpretation wd_u_short: xdr_word xdr_u_short ucast ucast "\<lambda>_. True"
  by unfold_locales (auto simp: word_filter_defs stream_simps split: xdr_op.splits)

interpretation wd_short: xdr_word xdr_short scast ucast "\<lambda>_. True"
  by unfold_locales
    (auto simp: word_filter_defs stream_simps split: xdr_op.splits)

interpretation wd_u_char: xdr_word xdr_u_char ucast ucast "\<lambda>_. True"
  by unfold_locales (auto simp: word_filter_defs stream_simps split: xdr_op.splits)

interpretation wd_char: xdr_word xdr_char ucast ucast "\<lambda>_. True"
  by unfold_locales (auto simp: word_filter_defs stream_simps split: xdr_op.splits)

interpretation wd_bool: xdr_word xdr_bool "\<lambda>v. if v \<noteq> 0 then 1 else 0" "\<lambda>v. if v = 0 then 0 else 1"
  "\<lambda>v. v = 0 \<or> v = 1"
  by unfold_locales (auto simp: word_filter_defs stream_simps split: xdr_op.splits)

subsection \<open>Longer filters\<close>

lemma hyper_join:
  fixes v :: u64
  shows "push_bit 32 (ucast (ucast (drop_bit 32 v) :: u32)) OR ucast (ucast v :: u32) = v"
proof (rule bit_word_eqI)
  fix n assume "n < LENGTH(64)"
  then show "bit (push_bit 32 (ucast (ucast (drop_bit 32 v) :: u32)) OR
      ucast (ucast v :: u32) :: u64) n = bit v n"
    by (cases "n < 32") (auto simp: bit_simps)
qed

definition enc_hyper :: "u64 \<Rightarrow> u8 list" where
  "enc_hyper v = be32 (ucast (drop_bit 32 v)) @ be32 (ucast v)"

lemma length_enc_hyper [simp]: "length (enc_hyper v) = 8"
  by (simp add: enc_hyper_def)

interpretation cd_u_hyper: xdr_codec xdr_u_hyper enc_hyper "\<lambda>_. True" "\<lambda>_. True"
proof (unfold_locales, goal_cases)
  case (2 x v)
  then show ?case
    by (simp add: xdr_u_hyper_def xdr_std_send_int32_def send_uint32_put xdr_ok_put put_put
        enc_hyper_def Let_def)
next
  case (3 x v)
  then show ?case
    by (auto simp: xdr_u_hyper_def xdr_std_send_int32_def send_uint32_put xdr_ok_put enc_hyper_def
        Let_def)
next
  case (4 x v u rest)
  then have "in_rest (adv x 4) = be32 (ucast v) @ rest"
    by (simp add: in_rest_adv enc_hyper_def)
  with 4 show ?case
    by (simp add: xdr_u_hyper_def xdr_std_recv_int32_def recv_uint32_adv xdr_ok_adv enc_hyper_def
        hyper_join)
qed simp_all

text \<open>
  Counted bytes: the length word, the bytes, zeros to a word boundary. A wire message holds 2048
  bytes, so longer strings never fit; \<open>malloc\<close> is assumed to succeed in the decoder.
\<close>

definition malloc_total :: "allocator \<Rightarrow> bool" where
  "malloc_total malloc \<longleftrightarrow> (\<forall>n. \<exists>b. malloc n = Some b \<and> length b = n)"

definition enc_bytes :: "u8 list option \<times> u32 \<Rightarrow> u8 list" where
  "enc_bytes obj =
     be32 (snd obj) @ (case fst obj of None \<Rightarrow> [] | Some b \<Rightarrow> b @ pad4 (length b))"

definition wf_bytes :: "u32 \<Rightarrow> u8 list option \<times> u32 \<Rightarrow> bool" where
  "wf_bytes maxsize obj \<longleftrightarrow> snd obj \<le> maxsize \<and> unat (snd obj) \<le> 2048 \<and>
     (case fst obj of None \<Rightarrow> snd obj = 0 | Some b \<Rightarrow> snd obj \<noteq> 0 \<and> length b = unat (snd obj))"

lemma pad4_0 [simp]: "pad4 0 = []"
  by (simp add: pad4_def)

lemma padded_mod: "(length b + length (pad4 (length b))) mod 4 = 0"
  by (rule length_pad4_mod)

lemma mem_write_all: "length b = length m \<Longrightarrow> mem_write m 0 b = Some b"
  by (simp add: mem_write_def)

lemma recv_bytes_prefix:
  assumes "xdr_ok x" "in_rest x = b @ pad4 (length b) @ rest" "length b = unat len" "unat len \<le> 2048"
    and "b \<noteq> []"
  shows "xdr_std_recv_bytes x True len = Some (Some b, adv x (length b + length (pad4 (length b))))"
proof -
  have "length (in_rest x) \<ge> length b" using assms(2) by simp
  moreover have "0 < length b" using assms(5) by simp
  ultimately have "in_next x + int (length b) \<le> in_len x"
    using length_in_rest [OF assms(1)] by linarith
  then show ?thesis
    using assms by (simp add: recv_bytes_adv)
qed

text \<open>A counted block that does not fit after its count: already the bytes without their padding do not.\<close>

lemma counted_block_full:
  assumes "xdr_ok x" "4 \<le> room x" "room x < 4 + (n + length (pad4 n))"
  shows "room (put x (be32 w)) < n"
proof (rule ccontr)
  assume "\<not> room (put x (be32 w)) < n"
  then have "n + length (pad4 n) \<le> room (put x (be32 w))"
    using padded_room [of "put x (be32 w)" n] assms by (simp add: xdr_ok_put)
  with assms show False by simp
qed

lemma xdr_bytes_codec:
  assumes "malloc_total malloc"
  shows "xdr_codec (xdr_bytes malloc maxsize) enc_bytes (wf_bytes maxsize) (\<lambda>u. fst u = None)"
proof (unfold_locales, goal_cases)
  case (1 v)
  have "(4 + n) mod 4 = (0 :: nat) \<longleftrightarrow> n mod 4 = 0" for n by presburger
  with 1 show ?case
    by (auto simp: enc_bytes_def wf_bytes_def length_pad4_mod split: option.splits)
next
  case (2 x v)
  then show ?case
    by (cases v)
      (auto simp: xdr_bytes_def enc_bytes_def wf_bytes_def send_uint32_put send_bytes_put xdr_ok_put
        put_put split: option.splits)
next
  case (3 x v)
  obtain cp sz where v: "v = (cp, sz)" by (cases v)
  show ?case
  proof (cases "4 \<le> room x")
    case False
    with 3 v show ?thesis
      by (auto simp: xdr_bytes_def send_uint32_put)
  next
    case True
    with 3 v obtain b where b: "cp = Some b" "length b = unat sz" "unat sz \<le> 2048"
      by (auto simp: enc_bytes_def wf_bytes_def split: option.splits)
    have ok: "xdr_ok (put x (be32 sz))" using 3 True by (simp add: xdr_ok_put)
    have "room (put x (be32 sz)) < unat sz"
      using 3 v b True by (intro counted_block_full) (simp_all add: enc_bytes_def)
    with 3 v b True ok show ?thesis
      by (auto simp: xdr_bytes_def send_uint32_put send_bytes_full wf_bytes_def)
  qed
next
  case (4 x v u rest)
  obtain cp sz where v: "v = (cp, sz)" by (cases v)
  obtain sz0 where u: "u = (None, sz0)" using 4 by (cases u) auto
  show ?case
  proof (cases cp)
    case None
    with 4 v u show ?thesis
      by (simp add: xdr_bytes_def enc_bytes_def wf_bytes_def recv_uint32_adv)
  next
    case (Some b)
    obtain blk where blk: "malloc (unat sz) = Some blk" "length blk = unat sz"
      using assms by (auto simp: malloc_total_def)
    have ok: "xdr_ok (adv x 4)"
      using 4 v by (simp add: xdr_ok_adv enc_bytes_def)
    have rest: "in_rest (adv x 4) = b @ pad4 (length b) @ rest"
      using 4 v Some by (simp add: in_rest_adv enc_bytes_def)
    have b: "length b = unat sz" "unat sz \<le> 2048" "sz \<noteq> 0" "sz \<le> maxsize"
      using 4 v Some by (auto simp: wf_bytes_def)
    then have "b \<noteq> []" by (auto simp: unat_eq_zero)
    with ok rest b have "xdr_std_recv_bytes (adv x 4) True sz
        = Some (Some b, adv x (4 + (length b + length (pad4 (length b)))))"
      by (subst recv_bytes_prefix) auto
    with 4 v u Some b blk show ?thesis
      by (simp add: xdr_bytes_def enc_bytes_def recv_uint32_adv mem_write_all not_less)
  qed
qed

text \<open>Decoding through a null pointer: an optional object is a flag word and the object.\<close>

definition enc_pointer :: "('a \<Rightarrow> u8 list) \<Rightarrow> 'a option \<Rightarrow> u8 list" where
  "enc_pointer enc objp = (case objp of None \<Rightarrow> be32 0 | Some obj \<Rightarrow> be32 1 @ enc obj)"

lemma xdr_pointer_codec:
  assumes "malloc_total malloc" and "xdr_codec proc enc good dst" and "dst zero"
    and op: "\<And>x v b x' v'. proc x v = Some (b, x', v') \<Longrightarrow> x_op x' = x_op x"
  shows "xdr_codec (xdr_pointer malloc sz zero proc) (enc_pointer enc) (pred_option good)
    (\<lambda>u. u = None)"
proof (unfold_locales, goal_cases)
  case (1 v)
  then show ?case
    using xdr_codec.enc_aligned [OF assms(2)]
    by (cases v) (auto simp: enc_pointer_def mod_add_eq dest: mod_0_imp_dvd)
next
  case (2 x v)
  show ?case
  proof (cases v)
    case None
    with 2 show ?thesis by (simp add: xdr_pointer_def enc_pointer_def wd_bool.spec)
  next
    case (Some obj)
    with 2 have "proc (put x (be32 1)) obj = Some (True, put (put x (be32 1)) (enc obj), obj)"
      by (intro xdr_codec.encode [OF assms(2)]) (auto simp: enc_pointer_def intro!: xdr_ok_put)
    with 2 Some show ?thesis
      by (simp add: xdr_pointer_def enc_pointer_def wd_bool.spec xdr_reference_def put_put)
  qed
next
  case (3 x v)
  show ?case
  proof (cases "4 \<le> room x")
    case False
    with 3 show ?thesis by (auto simp: xdr_pointer_def wd_bool.spec)
  next
    case True
    with 3 obtain obj where obj: "v = Some obj" "good obj"
      by (cases v) (auto simp: enc_pointer_def)
    have "room (put x (be32 1)) < length (enc obj)"
      using 3 True obj by (auto simp: enc_pointer_def)
    with 3 True obj obtain x' where "proc (put x (be32 1)) obj = Some (False, x', obj)" "xdr_ok x'"
      using xdr_codec.encode_full [OF assms(2), of "put x (be32 1)" obj]
      by (auto simp: xdr_ok_put)
    with 3 True obj show ?thesis
      using op by (fastforce simp: xdr_pointer_def wd_bool.spec xdr_reference_def)
  qed
next
  case (4 x v u rest)
  obtain blk where blk: "malloc (unat sz) = Some blk"
    using assms(1) by (auto simp: malloc_total_def)
  show ?case
  proof (cases v)
    case None
    with 4 show ?thesis by (simp add: xdr_pointer_def enc_pointer_def wd_bool.spec)
  next
    case (Some obj)
    have "proc (adv x 4) zero = Some (True, adv (adv x 4) (length (enc obj)), obj)"
      using 4 Some assms(3)
      by (intro xdr_codec.decode [OF assms(2), where rest = rest])
        (auto simp: enc_pointer_def in_rest_adv intro!: xdr_ok_adv)
    with 4 Some blk show ?thesis
      by (simp add: xdr_pointer_def enc_pointer_def wd_bool.spec xdr_reference_def)
  qed
qed

text \<open>Counted arrays of word-sized elements.\<close>

context xdr_codec
begin

lemma elems_encode_full:
  assumes "xdr_ok x" "x_op x = XDR_ENCODE" "list_all wf es" "room x < length (concat (map enc es))"
    and op: "\<And>x v b x' v'. proc x v = Some (b, x', v') \<Longrightarrow> x_op x' = x_op x"
  shows "\<exists>x'. xdr_elems proc x es (length es) = Some (False, x', es) \<and> xdr_ok x' \<and> x_op x' = XDR_ENCODE"
  using assms(1-4)
proof (induction es arbitrary: x)
  case (Cons e es)
  show ?case
  proof (cases "length (enc e) \<le> room x")
    case True
    have ok: "xdr_ok (put x (enc e))" using Cons.prems True by (intro encode_ok) auto
    moreover have "room (put x (enc e)) < length (concat (map enc es))"
      using Cons.prems True by (simp add: less_diff_conv2 add.commute)
    ultimately obtain x' where "xdr_elems proc (put x (enc e)) es (length es) = Some (False, x', es)"
      "xdr_ok x'" "x_op x' = XDR_ENCODE"
      using Cons.IH [of "put x (enc e)"] Cons.prems by auto
    with Cons.prems True show ?thesis by (simp add: encode)
  next
    case False
    with Cons.prems obtain x' where x': "proc x e = Some (False, x', e)" "xdr_ok x'"
      using encode_full [of x e] by auto
    with op [OF x'(1)] Cons.prems show ?thesis by simp
  qed
qed simp

lemma array_encode:
  assumes "xdr_ok x" "x_op x = XDR_ENCODE" "list_all wf es" "unat sz = length es" "sz \<le> maxsize"
    and "4 + length (concat (map enc es)) \<le> room x"
    and op: "\<And>x v b x' v'. proc x v = Some (b, x', v') \<Longrightarrow> x_op x' = x_op x"
  shows "xdr_array malloc maxsize elsize zero proc x (Some es, sz)
    = Some (True, put x (be32 sz @ concat (map enc es)), Some es, sz)"
proof -
  have ok: "xdr_ok (put x (be32 sz))" using assms by (intro xdr_ok_put) auto
  have "xdr_elems proc (put x (be32 sz)) es (unat sz)
      = Some (True, put (put x (be32 sz)) (concat (map enc es)), es)"
    using elems_encode [of "put x (be32 sz)" es] ok assms by simp
  with assms ok show ?thesis
    by (simp add: xdr_array_def wd_u_int.spec put_put Let_def not_less)
qed

lemma array_decode:
  assumes "xdr_ok x" "x_op x = XDR_DECODE" "list_all wf es" "dst zero"
    and "unat sz = length es" "sz \<le> maxsize" "es \<noteq> []"
    and nowrap: "0 < unat elsize" "unat sz * unat elsize < 4294967296"
    and "malloc_total malloc" "in_rest x = be32 sz @ concat (map enc es) @ rest"
  shows "xdr_array malloc maxsize elsize zero proc x (None, sz0)
    = Some (True, adv x (4 + length (concat (map enc es))), Some es, sz)"
proof -
  have ok: "xdr_ok (adv x 4)" and rest: "in_rest (adv x 4) = concat (map enc es) @ rest"
    using assms by (auto intro!: xdr_ok_adv simp: in_rest_adv)
  have node: "unat (sz * elsize) div unat elsize = length es"
    using nowrap assms(5) by (simp add: unat_word_ariths)
  obtain blk where blk: "malloc (unat (sz * elsize)) = Some blk"
    using assms(10) by (auto simp: malloc_total_def)
  have "xdr_elems proc (adv x 4) (replicate (length es) zero) (length es)
      = Some (True, adv (adv x 4) (length (concat (map enc es))), es)"
    using ok rest assms by (intro elems_decode) (auto simp: list_all_iff)
  moreover have "sz \<noteq> 0" using assms(5,7) by auto
  ultimately show ?thesis
    using assms(1,2,5,6,11) node blk
    by (simp add: xdr_array_def wd_u_int.spec Let_def not_less)
qed

end

text \<open>The filter of an array is a filter again, so arrays nest.\<close>

definition enc_array :: "('a \<Rightarrow> u8 list) \<Rightarrow> 'a list option \<times> u32 \<Rightarrow> u8 list" where
  "enc_array enc obj =
     be32 (snd obj) @ (case fst obj of None \<Rightarrow> [] | Some es \<Rightarrow> concat (map enc es))"

definition wf_array :: "u32 \<Rightarrow> u32 \<Rightarrow> ('a \<Rightarrow> bool) \<Rightarrow> 'a list option \<times> u32 \<Rightarrow> bool" where
  "wf_array maxsize elsize good obj \<longleftrightarrow>
     (case fst obj of None \<Rightarrow> snd obj = 0
      | Some es \<Rightarrow> es \<noteq> [] \<and> list_all good es \<and> unat (snd obj) = length es \<and> snd obj \<le> maxsize \<and>
          unat (snd obj) * unat elsize < 4294967296)"

lemma xdr_array_codec:
  assumes codec: "xdr_codec proc enc good dst" and "malloc_total malloc" "dst zero" "0 < unat elsize"
    and op: "\<And>x v b x' v'. proc x v = Some (b, x', v') \<Longrightarrow> x_op x' = x_op x"
  shows "xdr_codec (xdr_array malloc maxsize elsize zero proc) (enc_array enc)
    (wf_array maxsize elsize good) (\<lambda>u. fst u = None)"
proof (unfold_locales, goal_cases)
  case (1 v)
  have "(4 + n) mod 4 = (0 :: nat) \<longleftrightarrow> n mod 4 = 0" for n by presburger
  with 1 xdr_codec.elems_aligned [OF codec] show ?case
    by (auto simp: enc_array_def wf_array_def split: option.splits)
next
  case (2 x v)
  obtain addr sz where v: "v = (addr, sz)" by fastforce
  show ?case
  proof (cases addr)
    case None
    with 2 v show ?thesis
      by (simp add: xdr_array_def enc_array_def wf_array_def wd_u_int.spec Let_def)
  next
    case (Some es)
    with 2 v op show ?thesis
      using xdr_codec.array_encode [OF codec, of x es sz maxsize malloc elsize zero]
      by (simp add: enc_array_def wf_array_def)
  qed
next
  case (3 x v)
  obtain addr sz where v: "v = (addr, sz)" by fastforce
  show ?case
  proof (cases "4 \<le> room x")
    case False
    with 3 v show ?thesis by (simp add: xdr_array_def wd_u_int.spec)
  next
    case True
    with 3 v obtain es where es: "addr = Some es" "list_all good es" "unat sz = length es" "sz \<le> maxsize"
      "room (put x (be32 sz)) < length (concat (map enc es))"
      by (auto simp: enc_array_def wf_array_def split: option.splits)
    have ok: "xdr_ok (put x (be32 sz))" using 3 True by (simp add: xdr_ok_put)
    have "\<exists>x'. xdr_elems proc (put x (be32 sz)) es (length es) = Some (False, x', es) \<and>
        xdr_ok x' \<and> x_op x' = XDR_ENCODE"
      by (rule xdr_codec.elems_encode_full [OF codec ok _ es(2,5)]) (use 3 in simp, erule op)
    then obtain x' where "xdr_elems proc (put x (be32 sz)) es (length es) = Some (False, x', es)"
      "xdr_ok x'" "x_op x' = XDR_ENCODE" by blast
    with 3 v True es ok show ?thesis
      by (auto simp: xdr_array_def wd_u_int.spec Let_def not_less)
  qed
next
  case (4 x v u rest)
  obtain addr sz where v: "v = (addr, sz)" by fastforce
  obtain sz0 where u: "u = (None, sz0)" using 4 by (cases u) auto
  show ?case
  proof (cases addr)
    case None
    with 4 v u show ?thesis
      by (simp add: xdr_array_def enc_array_def wf_array_def wd_u_int.spec Let_def)
  next
    case (Some es)
    with 4 v have es: "es \<noteq> []" "list_all good es" "unat sz = length es" "sz \<le> maxsize"
      "unat sz * unat elsize < 4294967296" "in_rest x = be32 sz @ concat (map enc es) @ rest"
      by (auto simp: wf_array_def enc_array_def)
    have "xdr_array malloc maxsize elsize zero proc x (None, sz0)
        = Some (True, adv x (4 + length (concat (map enc es))), Some es, sz)"
      by (rule xdr_codec.array_decode [OF codec 4(1,2) es(2) assms(3) es(3,4,1) assms(4) es(5)
            assms(2) es(6)])
    with v u Some show ?thesis by (simp add: enc_array_def)
  qed
qed

text \<open>
  \<open>nodesize = c * elsize\<close> wraps around: a count whose product with the element size passes
  \<open>2 ^ 32\<close> allocates a block smaller than the elements the loop then decodes into it.
\<close>

context xdr_word
begin

lemma elems_overrun:
  assumes "length us < n" "xdr_ok x" "x_op x = XDR_DECODE" "4 * length us \<le> length (in_rest x)"
  shows "xdr_elems proc x us n = None"
  using assms
proof (induction us arbitrary: x n)
  case Nil
  then show ?case by (cases n) auto
next
  case (Cons u us)
  then obtain m where n: "n = Suc m" by (cases n) auto
  have "xdr_elems proc (adv x 4) us m = None"
    using Cons.prems n by (intro Cons.IH) (auto simp: in_rest_adv intro!: xdr_ok_adv)
  with Cons.prems show ?case by (simp add: n spec)
qed

lemma array_overrun:
  assumes "xdr_ok x" "x_op x = XDR_DECODE" "in_rest x = be32 c @ rest" "c \<le> maxsize"
    and small: "unat (c * elsize) div unat elsize < unat c"
    and "4 * (unat (c * elsize) div unat elsize) \<le> length rest" "malloc_total malloc"
  shows "xdr_array malloc maxsize elsize zero proc x (None, sz0) = None"
proof -
  have ok: "xdr_ok (adv x 4)" and rest: "in_rest (adv x 4) = rest"
    using assms by (auto intro!: xdr_ok_adv simp: in_rest_adv)
  obtain blk where blk: "malloc (unat (c * elsize)) = Some blk"
    using assms(7) by (auto simp: malloc_total_def)
  have "xdr_elems proc (adv x 4) (replicate (unat (c * elsize) div unat elsize) zero) (unat c) = None"
    using ok rest assms by (intro elems_overrun) auto
  moreover have "c \<noteq> 0" using small by auto
  ultimately show ?thesis
    using assms blk by (simp add: xdr_array_def wd_u_int.spec Let_def not_less)
qed

end

text \<open>Zero-terminated strings travel without their terminator.\<close>

definition enc_string :: "u8 list option \<Rightarrow> u8 list" where
  "enc_string cp = (case cp of None \<Rightarrow> []
     | Some s \<Rightarrow> be32 (of_nat (length s - 1)) @ butlast s @ pad4 (length s - 1))"

definition wf_string :: "u32 \<Rightarrow> u8 list option \<Rightarrow> bool" where
  "wf_string maxsize cp \<longleftrightarrow> (case cp of None \<Rightarrow> False
     | Some s \<Rightarrow> s \<noteq> [] \<and> last s = 0 \<and> 0 \<notin> set (butlast s) \<and> length s - 1 \<le> 2048 \<and>
         of_nat (length s - 1) \<le> maxsize)"

lemma strlen_append: "0 \<notin> set str \<Longrightarrow> strlen (str @ 0 # rest) = Some (length str)"
  by (induction str) auto

lemma wf_stringE:
  assumes "wf_string maxsize cp"
  obtains str where "cp = Some (str @ [0])" "0 \<notin> set str" "length str \<le> 2048"
    "(of_nat (length str) :: u32) \<le> maxsize"
proof (cases cp)
  case None
  with assms show thesis by (simp add: wf_string_def)
next
  case (Some s)
  with assms have "s \<noteq> []" "s = butlast s @ [0]"
    by (auto simp: wf_string_def) (metis append_butlast_last_id)
  with assms Some show thesis
    by (intro that [of "butlast s"]) (auto simp: wf_string_def)
qed

lemma unat_of_nat_2048: "n \<le> 2048 \<Longrightarrow> unat (of_nat n :: u32) = n"
  by (simp add: unat_of_nat)

lemma of_nat_2048_eq_0: "n \<le> 2048 \<Longrightarrow> (of_nat n :: u32) = 0 \<longleftrightarrow> n = 0"
  by (simp add: unat_eq_zero [symmetric] unat_of_nat_2048)

lemma opaque_decode:
  assumes ok: "xdr_ok x" "x_op x = XDR_DECODE" and rest: "in_rest x = str @ pad4 (length str) @ rest" and n: "length str \<le> 2048"
    and buf: "length buf = length str"
  shows "xdr_opaque (of_nat (length str)) x (buf @ tail) = Some (True, adv x (length str + length (pad4 (length str))), str @ tail)"
proof (cases "str = []")
  case True
  then show ?thesis using buf by (simp add: xdr_opaque_def)
next
  case False
  then have "xdr_std_recv_bytes x True (of_nat (length str)) = Some (Some str, adv x (length str + length (pad4 (length str))))"
    using ok rest n by (subst recv_bytes_prefix) (auto simp: unat_of_nat_2048)
  then show ?thesis using False ok n buf by (simp add: xdr_opaque_def of_nat_2048_eq_0 mem_write_def)
qed

lemma xdr_string_codec:
  assumes "malloc_total malloc"
  shows "xdr_codec (xdr_string malloc maxsize) enc_string (wf_string maxsize) (\<lambda>u. u = None)"
proof (unfold_locales, goal_cases)
  case (1 v)
  then obtain str where "v = Some (str @ [0])" by (elim wf_stringE)
  moreover have "(4 + (length str + length (pad4 (length str)))) mod 4 = 0"
    using length_pad4_mod [of "length str"] by presburger
  ultimately show ?case by (simp add: enc_string_def)
next
  case (2 x v)
  then obtain str where "v = Some (str @ [0])" "0 \<notin> set str" "length str \<le> 2048"
      "(of_nat (length str) :: u32) \<le> maxsize" by (elim wf_stringE)
  with 2 show ?case
    by (simp add: xdr_string_def enc_string_def wd_u_int.spec strlen_append xdr_opaque_def xdr_ok_put
        unat_of_nat_2048 of_nat_2048_eq_0 send_bytes_put put_put not_less)
next
  case (3 x v)
  then obtain str where str: "v = Some (str @ [0])" "0 \<notin> set str" "length str \<le> 2048"
      "(of_nat (length str) :: u32) \<le> maxsize" by (elim wf_stringE)
  let ?sz = "of_nat (length str) :: u32"
  show ?case
  proof (cases "4 \<le> room x")
    case False
    with 3 str show ?thesis by (auto simp: xdr_string_def wd_u_int.spec strlen_append)
  next
    case True
    have ok: "xdr_ok (put x (be32 ?sz))" using 3 True by (simp add: xdr_ok_put)
    have full: "room (put x (be32 ?sz)) < length str"
      using 3 str True by (intro counted_block_full) (simp_all add: enc_string_def)
    then have "xdr_std_send_bytes (put x (be32 ?sz)) (str @ [0]) ?sz = Some (False, put x (be32 ?sz))"
      using ok str by (intro send_bytes_full) (auto simp: unat_of_nat_2048)
    with 3 str True ok full show ?thesis
      by (auto simp: xdr_string_def wd_u_int.spec strlen_append xdr_opaque_def of_nat_2048_eq_0)
  qed
next
  case (4 x v u rest)
  then obtain str where str: "v = Some (str @ [0])" "0 \<notin> set str" "length str \<le> 2048"
      "(of_nat (length str) :: u32) \<le> maxsize" by (elim wf_stringE)
  let ?sz = "of_nat (length str) :: u32"
  have sz1: "unat (?sz + 1) = Suc (length str)"
    using str(3) by (simp add: unat_word_ariths unat_of_nat_2048)
  then have nz: "?sz + 1 \<noteq> 0" by auto
  obtain blk where blk: "malloc (Suc (length str)) = Some blk" "length blk = Suc (length str)"
    using assms by (auto simp: malloc_total_def)
  have set: "mem_set blk (int (length str)) 0 = Some (take (length str) blk @ [0])"
    using blk(2) by (simp add: mem_set_def upd_conv_take_nth_drop)
  have ok: "xdr_ok (adv x 4)" and rest: "in_rest (adv x 4) = str @ pad4 (length str) @ rest"
    using 4 str by (auto intro!: xdr_ok_adv simp: in_rest_adv enc_string_def)
  have "xdr_opaque ?sz (adv x 4) (take (length str) blk @ [0])
      = Some (True, adv x (4 + (length str + length (pad4 (length str)))), str @ [0])"
    using opaque_decode [OF ok _ rest str(3), of "take (length str) blk" "[0]"] 4 blk(2) by simp
  with 4 str sz1 nz blk set show ?case
    by (simp add: xdr_string_def wd_u_int.spec enc_string_def unat_of_nat_2048 not_less)
qed

subsection \<open>Properties\<close>

definition demo_malloc :: allocator where
  "demo_malloc n = Some (replicate n 0xA5)"

definition enc_handle :: xdr_s_type where
  "enc_handle = xdr_zero"

lemma demo_handles: "xdr_ok enc_handle" "x_op enc_handle = XDR_ENCODE" "room enc_handle = 2048"
  "malloc_total demo_malloc"
  by (simp_all add: enc_handle_def xdr_ok_zero room_def malloc_total_def demo_malloc_def)
    (simp_all add: xdr_zero_def)

lemma word_filter_op: "xdr_u_int x v = Some (b, x', v') \<Longrightarrow> x_op x' = x_op x"
  by (auto simp: xdr_u_int_def sending_def receiving_def xdr_std_send_uint32_def
      xdr_std_recv_uint32_def bind_eq_Some_conv split: xdr_op.splits if_splits)

text \<open>
  A 64-bit quantity survives the wire: what \<open>xdr_u_hyper\<close> appends when it encodes is decoded to
  the same value, and exactly those bytes are consumed.
\<close>

theorem xdr_u_hyper_roundtrip:
  assumes "xdr_ok x" "x_op x = XDR_ENCODE" "8 \<le> room x"
  shows "\<exists>x'. xdr_u_hyper x v = Some (True, x', v) \<and> xdr_ok x' \<and>
    (\<forall>y u rest. xdr_ok y \<longrightarrow> x_op y = XDR_DECODE \<longrightarrow> out_bytes x @ in_rest y = out_bytes x' @ rest \<longrightarrow>
       (\<exists>y'. xdr_u_hyper y u = Some (True, y', v) \<and> xdr_ok y' \<and> in_rest y' = rest))"
  using cd_u_hyper.through_wire [of x v] assms by simp

theorem xdr_u_hyper_roundtrip_witness:
  "\<exists>x'. xdr_u_hyper enc_handle 0x123456789ABCDEF0 = Some (True, x', 0x123456789ABCDEF0) \<and> xdr_ok x' \<and>
    (\<forall>y u rest. xdr_ok y \<longrightarrow> x_op y = XDR_DECODE \<longrightarrow>
       out_bytes enc_handle @ in_rest y = out_bytes x' @ rest \<longrightarrow>
       (\<exists>y'. xdr_u_hyper y u = Some (True, y', 0x123456789ABCDEF0) \<and> xdr_ok y' \<and> in_rest y' = rest))"
  by (rule xdr_u_hyper_roundtrip) (simp_all add: demo_handles)

text \<open>
  C13: a zero-terminated string of at most \<open>maxsize\<close> characters survives the wire: encoding it and
  decoding into a null pointer yields a fresh copy with its terminator, whatever the allocator's
  blocks contained.
\<close>

theorem xdr_string_roundtrip:
  assumes "malloc_total malloc" "wf_string maxsize s"
    and "xdr_ok x" "x_op x = XDR_ENCODE" "length (enc_string s) \<le> room x"
  shows "\<exists>x'. xdr_string malloc maxsize x s = Some (True, x', s) \<and> xdr_ok x' \<and>
    (\<forall>y rest. xdr_ok y \<longrightarrow> x_op y = XDR_DECODE \<longrightarrow> out_bytes x @ in_rest y = out_bytes x' @ rest \<longrightarrow>
       (\<exists>y'. xdr_string malloc maxsize y None = Some (True, y', s) \<and> xdr_ok y' \<and> in_rest y' = rest))"
  using xdr_codec.through_wire [OF xdr_string_codec [OF assms(1), of maxsize], of x s] assms by simp

definition demo_string :: "u8 list option" where
  "demo_string = Some [67, 69, 76, 76, 0]"

theorem xdr_string_roundtrip_witness:
  "\<exists>x'. xdr_string demo_malloc 100 enc_handle demo_string = Some (True, x', demo_string) \<and> xdr_ok x' \<and>
    (\<forall>y rest. xdr_ok y \<longrightarrow> x_op y = XDR_DECODE \<longrightarrow>
       out_bytes enc_handle @ in_rest y = out_bytes x' @ rest \<longrightarrow>
       (\<exists>y'. xdr_string demo_malloc 100 y None = Some (True, y', demo_string) \<and> xdr_ok y' \<and>
          in_rest y' = rest))"
  by (rule xdr_string_roundtrip)
    (simp_all add: demo_handles demo_string_def wf_string_def enc_string_def pad4_def)

text \<open>
  Counted bytes survive the wire in the same way, the length word and the padding included.
\<close>

theorem xdr_bytes_roundtrip:
  assumes "malloc_total malloc" "wf_bytes maxsize b"
    and "xdr_ok x" "x_op x = XDR_ENCODE" "length (enc_bytes b) \<le> room x"
  shows "\<exists>x'. xdr_bytes malloc maxsize x b = Some (True, x', b) \<and> xdr_ok x' \<and>
    (\<forall>y u rest. xdr_ok y \<longrightarrow> x_op y = XDR_DECODE \<longrightarrow> fst u = None \<longrightarrow>
       out_bytes x @ in_rest y = out_bytes x' @ rest \<longrightarrow>
       (\<exists>y'. xdr_bytes malloc maxsize y u = Some (True, y', b) \<and> xdr_ok y' \<and> in_rest y' = rest))"
  using xdr_codec.through_wire [OF xdr_bytes_codec [OF assms(1), of maxsize], of x b] assms by simp

definition demo_bytes :: "u8 list option \<times> u32" where
  "demo_bytes = (Some [1, 2, 3, 4, 5], 5)"

theorem xdr_bytes_roundtrip_witness:
  "\<exists>x'. xdr_bytes demo_malloc 400 enc_handle demo_bytes = Some (True, x', demo_bytes) \<and> xdr_ok x' \<and>
    (\<forall>y u rest. xdr_ok y \<longrightarrow> x_op y = XDR_DECODE \<longrightarrow> fst u = None \<longrightarrow>
       out_bytes enc_handle @ in_rest y = out_bytes x' @ rest \<longrightarrow>
       (\<exists>y'. xdr_bytes demo_malloc 400 y u = Some (True, y', demo_bytes) \<and> xdr_ok y' \<and> in_rest y' = rest))"
  by (rule xdr_bytes_roundtrip)
    (simp_all add: demo_handles demo_bytes_def wf_bytes_def enc_bytes_def pad4_def)

text \<open>
  C14: a counted array of words survives the wire whenever its count is within \<open>maxsize\<close> and its
  size in memory does not wrap around.
\<close>

theorem xdr_array_roundtrip:
  assumes "malloc_total malloc" "0 < unat elsize" "wf_array maxsize elsize (\<lambda>_. True) b"
    and "xdr_ok x" "x_op x = XDR_ENCODE" "length (enc_array be32 b) \<le> room x"
  shows "\<exists>x'. xdr_array malloc maxsize elsize 0 xdr_u_int x b = Some (True, x', b) \<and> xdr_ok x' \<and>
    (\<forall>y u rest. xdr_ok y \<longrightarrow> x_op y = XDR_DECODE \<longrightarrow> fst u = None \<longrightarrow>
       out_bytes x @ in_rest y = out_bytes x' @ rest \<longrightarrow>
       (\<exists>y'. xdr_array malloc maxsize elsize 0 xdr_u_int y u = Some (True, y', b) \<and> xdr_ok y' \<and>
          in_rest y' = rest))"
proof -
  have "xdr_codec (xdr_array malloc maxsize elsize 0 xdr_u_int) (enc_array be32)
      (wf_array maxsize elsize (\<lambda>_. True)) (\<lambda>u. fst u = None)"
    using xdr_array_codec [OF wd_u_int.xdr_codec_axioms assms(1) TrueI assms(2)] word_filter_op
    by blast
  from xdr_codec.through_wire [OF this assms(4,5,3,6)] show ?thesis .
qed

definition demo_array :: "u32 list option \<times> u32" where
  "demo_array = (Some [10, 20, 30], 3)"

theorem xdr_array_roundtrip_witness:
  "\<exists>x'. xdr_array demo_malloc 16 4 0 xdr_u_int enc_handle demo_array = Some (True, x', demo_array) \<and>
    xdr_ok x' \<and>
    (\<forall>y u rest. xdr_ok y \<longrightarrow> x_op y = XDR_DECODE \<longrightarrow> fst u = None \<longrightarrow>
       out_bytes enc_handle @ in_rest y = out_bytes x' @ rest \<longrightarrow>
       (\<exists>y'. xdr_array demo_malloc 16 4 0 xdr_u_int y u = Some (True, y', demo_array) \<and> xdr_ok y' \<and>
          in_rest y' = rest))"
  by (rule xdr_array_roundtrip)
    (simp_all add: demo_handles demo_array_def wf_array_def enc_array_def)

text \<open>
  The size of the block \<open>xdr_array\<close> allocates wraps around at \<open>2 ^ 32\<close>: a count that the
  bound admits but whose product with the element size wraps makes the decoder write past the block.
\<close>

theorem xdr_array_wrap_overruns:
  assumes "xdr_ok x" "x_op x = XDR_DECODE" "in_rest x = be32 c @ rest" "c \<le> maxsize"
    and "unat (c * elsize) div unat elsize < unat c"
    and "4 * (unat (c * elsize) div unat elsize) \<le> length rest" "malloc_total malloc"
  shows "xdr_array malloc maxsize elsize zero xdr_u_int x (None, sz0) = None"
  using assms by (rule wd_u_int.array_overrun)

definition wrap_handle :: xdr_s_type where
  "wrap_handle = (arrive xdr_zero (be32 0 @ be32 0 @ be32 0x40000001 @ be32 7))\<lparr>x_op := XDR_DECODE\<rparr>"

theorem xdr_array_wrap_overruns_witness:
  "xdr_array demo_malloc 0xFFFFFFFF 4 0 xdr_u_int wrap_handle (None, 0) = None"
proof (rule xdr_array_wrap_overruns [where c = "0x40000001" and rest = "be32 7"])
  show "xdr_ok wrap_handle" using xdr_ok_zero by (simp add: wrap_handle_def xdr_ok_arrive)
  show "in_rest wrap_handle = be32 0x40000001 @ be32 7" by (simp add: wrap_handle_def)
qed (simp_all add: wrap_handle_def demo_handles)

end
