(* ===== verification/Rpc_Msg.thy ===== *)
theory Rpc_Msg
  imports Xdr
begin

text \<open>
  RPC message headers: the senders of \<open>librpc/rpc.c\<close> and the reply-header receivers of
  \<open>librpc/clnt.c\<close>. The enumerations of \<open>rpc/types.h\<close> that travel on the wire are words,
  because a receiver switches on whatever word arrived. A C union is modelled by the fields of its
  members; \<open>dr_low\<close> is the storage shared by \<open>u.versions.low\<close> and \<open>u.why\<close>. The build
  uses \<open>-fno-short-enums\<close>, so every enumeration is four bytes wide.
\<close>

subsection \<open>Data\<close>

definition RPC_MSG_VERSION :: u32 where "RPC_MSG_VERSION = 2"
definition RPC_MSG_ACCEPTED :: u32 where "RPC_MSG_ACCEPTED = 0"
definition RPC_MSG_DENIED :: u32 where "RPC_MSG_DENIED = 1"
definition RPC_ACCEPT_SUCCESS :: u32 where "RPC_ACCEPT_SUCCESS = 0"
definition RPC_PROG_UNAVAIL :: u32 where "RPC_PROG_UNAVAIL = 1"
definition RPC_PROG_MISMATCH :: u32 where "RPC_PROG_MISMATCH = 2"
definition RPC_PROC_UNAVAIL :: u32 where "RPC_PROC_UNAVAIL = 3"
definition RPC_GARBAGE_ARGS :: u32 where "RPC_GARBAGE_ARGS = 4"
definition RPC_SYSTEM_ERR :: u32 where "RPC_SYSTEM_ERR = 5"
definition RPC_PROG_LOCKED :: u32 where "RPC_PROG_LOCKED = 6"
definition RPC_MISMATCH :: u32 where "RPC_MISMATCH = 0"
definition RPC_AUTH_ERROR :: u32 where "RPC_AUTH_ERROR = 1"
definition AUTH_NONE :: u32 where "AUTH_NONE = 0"

lemmas rpc_enum_defs =
  RPC_MSG_CALL_def RPC_MSG_REPLY_def RPC_MSG_VERSION_def RPC_MSG_ACCEPTED_def RPC_MSG_DENIED_def
  RPC_ACCEPT_SUCCESS_def RPC_PROG_UNAVAIL_def RPC_PROG_MISMATCH_def RPC_PROC_UNAVAIL_def
  RPC_GARBAGE_ARGS_def RPC_SYSTEM_ERR_def RPC_PROG_LOCKED_def RPC_MISMATCH_def RPC_AUTH_ERROR_def
  AUTH_NONE_def

record rpc_accepted_reply_header =
  ar_verf :: opaque_auth
  ar_stat :: u32
  ar_low :: u32
  ar_high :: u32

record rpc_denied_reply =
  dr_stat :: u32
  dr_low :: u32
  dr_high :: u32

record rpc_reply_header =
  rh_stat :: u32
  rh_ar :: rpc_accepted_reply_header
  rh_dr :: rpc_denied_reply

text \<open>C's \<open>&&\<close> on operations, and \<open>if (!A) return FALSE\<close> followed by the rest.\<close>

definition and_then ::
  "(bool \<times> xdr_s_type) option \<Rightarrow> (xdr_s_type \<Rightarrow> (bool \<times> xdr_s_type) option)
   \<Rightarrow> (bool \<times> xdr_s_type) option" where
  "and_then m f = do { (b, x) \<leftarrow> m; if b then f x else Some (False, x) }"

subsection \<open>Senders (rpc.c)\<close>

definition xdr_send_auth :: "xdr_s_type \<Rightarrow> opaque_auth \<Rightarrow> (bool \<times> xdr_s_type) option" where
  "xdr_send_auth x auth =
     and_then (xdr_std_send_int32 x (oa_flavor auth)) (\<lambda>x1.
     and_then (xdr_std_send_uint32 x1 (oa_length auth)) (\<lambda>x2.
       if oa_length auth = 0 then Some (True, x2)
       else xdr_std_send_bytes x2 (case oa_base auth of None \<Rightarrow> [] | Some b \<Rightarrow> b) (oa_length auth)))"

definition xdr_call_msg_start ::
  "xdr_s_type \<Rightarrow> u32 \<Rightarrow> u32 \<Rightarrow> u32 \<Rightarrow> opaque_auth \<Rightarrow> opaque_auth \<Rightarrow> (bool \<times> xdr_s_type) option" where
  "xdr_call_msg_start x prog ver proc cred verf =
     and_then (xdr_std_msg_start (x\<lparr>x_prog := prog, x_proc := proc\<rparr>) RPC_MSG_CALL) (\<lambda>x.
     and_then (xdr_std_send_uint32 x RPC_MSG_VERSION) (\<lambda>x.
     and_then (xdr_std_send_uint32 x prog) (\<lambda>x.
     and_then (xdr_std_send_uint32 x ver) (\<lambda>x.
     and_then (xdr_std_send_uint32 x proc) (\<lambda>x.
     and_then (xdr_send_auth x cred) (\<lambda>x.
       xdr_send_auth x verf))))))"

definition xdr_reply_msg_start :: "xdr_s_type \<Rightarrow> opaque_auth \<Rightarrow> (bool \<times> xdr_s_type) option" where
  "xdr_reply_msg_start x verf =
     and_then (xdr_std_msg_start x RPC_MSG_REPLY) (\<lambda>x.
     and_then (xdr_std_send_int32 x RPC_MSG_ACCEPTED) (\<lambda>x.
     and_then (xdr_send_auth x verf) (\<lambda>x.
       xdr_std_send_int32 x RPC_ACCEPT_SUCCESS)))"

definition xdr_send_accepted_reply_header ::
  "xdr_s_type \<Rightarrow> rpc_accepted_reply_header \<Rightarrow> (bool \<times> xdr_s_type) option" where
  "xdr_send_accepted_reply_header x accreply =
     and_then (xdr_send_auth x (ar_verf accreply)) (\<lambda>x.
     and_then (xdr_send_enum x (ar_stat accreply) 4) (\<lambda>x.
       if ar_stat accreply = RPC_PROG_MISMATCH then
         and_then (xdr_std_send_uint32 x (ar_low accreply)) (\<lambda>x.
           xdr_std_send_uint32 x (ar_high accreply))
       else if ar_stat accreply \<in> {RPC_ACCEPT_SUCCESS, RPC_PROG_UNAVAIL, RPC_PROC_UNAVAIL,
                 RPC_GARBAGE_ARGS, RPC_SYSTEM_ERR, RPC_PROG_LOCKED} then Some (True, x)
       else Some (False, x)))"

definition xdr_send_denied_reply ::
  "xdr_s_type \<Rightarrow> rpc_denied_reply \<Rightarrow> (bool \<times> xdr_s_type) option" where
  "xdr_send_denied_reply x rejreply =
     and_then (xdr_send_enum x (dr_stat rejreply) 4) (\<lambda>x.
       if dr_stat rejreply = RPC_MISMATCH then
         and_then (xdr_std_send_uint32 x (dr_low rejreply)) (\<lambda>x.
           xdr_std_send_uint32 x (dr_high rejreply))
       else if dr_stat rejreply = RPC_AUTH_ERROR then xdr_send_enum x (dr_low rejreply) 4
       else Some (False, x))"

definition xdr_send_reply_header ::
  "xdr_s_type \<Rightarrow> rpc_reply_header \<Rightarrow> (bool \<times> xdr_s_type) option" where
  "xdr_send_reply_header x reply =
     and_then (xdr_send_enum x (rh_stat reply) 4) (\<lambda>x.
       if rh_stat reply = RPC_MSG_ACCEPTED then xdr_send_accepted_reply_header x (rh_ar reply)
       else if rh_stat reply = RPC_MSG_DENIED then xdr_send_denied_reply x (rh_dr reply)
       else Some (False, x))"

subsection \<open>Receivers (clnt.c)\<close>

text \<open>A non-empty verifier is skipped and then rejected: both branches return \<open>FALSE\<close>.\<close>

definition xdr_recv_auth :: "opaque_auth xdrproc" where
  "xdr_recv_auth x auth =
     do { (b1, x1, fl) \<leftarrow> receiving (xdr_std_recv_int32 x) (\<lambda>u. u) (oa_flavor auth);
          let auth1 = auth\<lparr>oa_flavor := fl\<rparr>;
          if \<not> b1 then Some (False, x1, auth1)
          else do { (b2, x2, len) \<leftarrow> receiving (xdr_std_recv_uint32 x1) (\<lambda>u. u) (oa_length auth1);
                    let auth2 = auth1\<lparr>oa_length := len\<rparr>;
                    if \<not> b2 then Some (False, x2, auth2)
                    else if oa_length auth2 \<noteq> 0 then
                      do { (r, x3) \<leftarrow> xdr_std_recv_bytes x2 False (oa_length auth2);
                           Some (False, x3, auth2\<lparr>oa_base := None\<rparr>) }
                    else Some (True, x2, auth2) } }"

definition recv_versions ::
  "xdr_s_type \<Rightarrow> u32 \<Rightarrow> u32 \<Rightarrow> (bool \<times> xdr_s_type \<times> u32 \<times> u32) option" where
  "recv_versions x low high =
     do { (b1, x1, low1) \<leftarrow> receiving (xdr_std_recv_uint32 x) (\<lambda>u. u) low;
          if \<not> b1 then Some (False, x1, low1, high)
          else do { (b2, x2, high1) \<leftarrow> receiving (xdr_std_recv_uint32 x1) (\<lambda>u. u) high;
                    Some (b2, x2, low1, high1) } }"

definition xdr_recv_accepted_reply_header :: "rpc_accepted_reply_header xdrproc" where
  "xdr_recv_accepted_reply_header x accreply =
     do { (b1, x1, v) \<leftarrow> xdr_recv_auth x (ar_verf accreply);
          let a1 = accreply\<lparr>ar_verf := v\<rparr>;
          if \<not> b1 then Some (False, x1, a1)
          else do { (b2, x2, st) \<leftarrow> xdr_recv_enum x1 (ar_stat a1) 4;
                    let a2 = a1\<lparr>ar_stat := st\<rparr>;
                    if \<not> b2 then Some (False, x2, a2)
                    else if ar_stat a2 = RPC_PROG_MISMATCH then
                      do { (b3, x3, low, high) \<leftarrow> recv_versions x2 (ar_low a2) (ar_high a2);
                           Some (b3, x3, a2\<lparr>ar_low := low, ar_high := high\<rparr>) }
                    else if ar_stat a2 \<in> {RPC_ACCEPT_SUCCESS, RPC_PROG_UNAVAIL, RPC_PROC_UNAVAIL,
                              RPC_GARBAGE_ARGS, RPC_SYSTEM_ERR, RPC_PROG_LOCKED}
                      then Some (True, x2, a2)
                    else Some (False, x2, a2) } }"

definition xdr_recv_denied_reply :: "rpc_denied_reply xdrproc" where
  "xdr_recv_denied_reply x rejreply =
     do { (b1, x1, st) \<leftarrow> xdr_recv_enum x (dr_stat rejreply) 4;
          let d1 = rejreply\<lparr>dr_stat := st\<rparr>;
          if \<not> b1 then Some (False, x1, d1)
          else if dr_stat d1 = RPC_MISMATCH then
            do { (b2, x2, low, high) \<leftarrow> recv_versions x1 (dr_low d1) (dr_high d1);
                 Some (b2, x2, d1\<lparr>dr_low := low, dr_high := high\<rparr>) }
          else if dr_stat d1 = RPC_AUTH_ERROR then
            do { (b2, x2, why) \<leftarrow> xdr_recv_enum x1 (dr_low d1) 4;
                 Some (b2, x2, d1\<lparr>dr_low := why\<rparr>) }
          else Some (False, x1, d1) }"

definition xdr_recv_reply_header :: "rpc_reply_header xdrproc" where
  "xdr_recv_reply_header x reply =
     do { (b1, x1, st) \<leftarrow> xdr_recv_enum x (rh_stat reply) 4;
          let r1 = reply\<lparr>rh_stat := st\<rparr>;
          if \<not> b1 then Some (False, x1, r1)
          else if rh_stat r1 = RPC_MSG_ACCEPTED then
            do { (b2, x2, a) \<leftarrow> xdr_recv_accepted_reply_header x1 (rh_ar r1);
                 Some (b2, x2, r1\<lparr>rh_ar := a\<rparr>) }
          else if rh_stat r1 = RPC_MSG_DENIED then
            do { (b2, x2, d) \<leftarrow> xdr_recv_denied_reply x1 (rh_dr r1);
                 Some (b2, x2, r1\<lparr>rh_dr := d\<rparr>) }
          else Some (False, x1, r1) }"

subsection \<open>Lemmas: headers as lists of words\<close>

definition be32s :: "u32 list \<Rightarrow> u8 list" where
  "be32s ws = concat (map be32 ws)"

lemma be32s_simps [simp]:
  "be32s [] = []" "be32s (w # ws) = be32 w @ be32s ws" "be32s (vs @ ws) = be32s vs @ be32s ws"
  by (simp_all add: be32s_def)

lemma length_be32s [simp]: "length (be32s ws) = 4 * length ws"
  by (induction ws) simp_all

lemma and_then_Some [simp]:
  "and_then (Some (True, x)) f = f x" "and_then (Some (False, x)) f = Some (False, x)"
  by (simp_all add: and_then_def)

text \<open>Sending a word after some words of a message, and reading one back.\<close>

lemma send_word:
  assumes "xdr_ok x" "4 * Suc (length ws) \<le> room x"
  shows "xdr_std_send_uint32 (put x (be32s ws)) w = Some (True, put x (be32s (ws @ [w])))"
  using assms by (simp add: send_uint32_put xdr_ok_put put_put)

lemma recv_word:
  assumes "xdr_ok x" "in_rest x = be32 w @ rest"
  shows "xdr_std_recv_uint32 x = Some (Some w, adv x 4)"
    and "xdr_ok (adv x 4)" and "in_rest (adv x 4) = rest"
  using assms by (auto simp: recv_uint32_adv in_rest_adv intro!: xdr_ok_adv)

lemma be32_split:
  assumes "4 \<le> length bs"
  obtains w rest where "bs = be32 w @ rest"
  using assms be32_of_be32 [of "take 4 bs"] by (metis append_take_drop_id length_take min.absorb2)

definition auth_words :: "opaque_auth \<Rightarrow> u32 list" where
  "auth_words a = [oa_flavor a, 0]"

text \<open>The header of a call with empty credentials, and the words of a reply header.\<close>

definition call_words :: "u32 \<Rightarrow> u32 \<Rightarrow> u32 \<Rightarrow> u32 \<Rightarrow> opaque_auth \<Rightarrow> opaque_auth \<Rightarrow> u32 list" where
  "call_words xid prog vers proc cred verf =
     [xid, RPC_MSG_CALL, RPC_MSG_VERSION, prog, vers, proc] @ auth_words cred @ auth_words verf"

definition reply_words :: "rpc_reply_header \<Rightarrow> u32 list" where
  "reply_words r =
     (if rh_stat r = RPC_MSG_ACCEPTED then
        [rh_stat r] @ auth_words (ar_verf (rh_ar r)) @ [ar_stat (rh_ar r)] @
        (if ar_stat (rh_ar r) = RPC_PROG_MISMATCH then [ar_low (rh_ar r), ar_high (rh_ar r)] else [])
      else [rh_stat r, dr_stat (rh_dr r)] @
        (if dr_stat (rh_dr r) = RPC_MISMATCH then [dr_low (rh_dr r), dr_high (rh_dr r)]
         else [dr_low (rh_dr r)]))"

definition wf_reply :: "rpc_reply_header \<Rightarrow> bool" where
  "wf_reply r \<longleftrightarrow>
     (rh_stat r = RPC_MSG_ACCEPTED \<and> ar_stat (rh_ar r) \<le> RPC_PROG_LOCKED \<and>
        oa_length (ar_verf (rh_ar r)) = 0) \<or>
     (rh_stat r = RPC_MSG_DENIED \<and> dr_stat (rh_dr r) \<le> RPC_AUTH_ERROR)"

lemma reply_words_length: "length (reply_words r) \<le> 6"
  by (simp add: reply_words_def auth_words_def)

lemma word_le_6: "(w :: u32) \<le> 6 \<Longrightarrow> w = 0 \<or> w = 1 \<or> w = 2 \<or> w = 3 \<or> w = 4 \<or> w = 5 \<or> w = 6"
  unfolding word_le_nat_alt word_unat_eq_iff by simp presburger

lemma word_le_1: "(w :: u32) \<le> 1 \<Longrightarrow> w = 0 \<or> w = 1"
  unfolding word_le_nat_alt word_unat_eq_iff by simp presburger

lemma send_auth_words:
  assumes "xdr_ok x" "4 * (length ws + 2) \<le> room x" "oa_length a = 0"
  shows "xdr_send_auth (put x (be32s ws)) a = Some (True, put x (be32s (ws @ auth_words a)))"
  using assms send_word [of x ws "oa_flavor a"] send_word [of x "ws @ [oa_flavor a]" 0]
  by (simp add: xdr_send_auth_def xdr_std_send_int32_def auth_words_def)

lemma call_msg_start_put:
  assumes ok: "xdr_ok x" and "oa_length cred = 0" "oa_length verf = 0"
  shows "xdr_call_msg_start x prog ver proc cred verf =
     Some (True, put (rewind (x\<lparr>x_prog := prog, x_proc := proc, x_xid := x_xid x + 1\<rparr>))
                   (be32s (call_words (x_xid x + 1) prog ver proc cred verf)))"
proof -
  let ?x = "rewind (x\<lparr>x_prog := prog, x_proc := proc, x_xid := x_xid x + 1\<rparr>)"
  have ok': "xdr_ok ?x" using ok by (simp add: xdr_ok_rewind)
  have "xdr_std_msg_start (x\<lparr>x_prog := prog, x_proc := proc\<rparr>) RPC_MSG_CALL
      = Some (True, put ?x (be32s [x_xid x + 1, RPC_MSG_CALL]))"
    using ok by (simp add: msg_start_put Let_def)
  moreover have room: "room ?x = 2048" by simp
  ultimately show ?thesis
    using ok' assms(2,3)
    by (simp add: xdr_call_msg_start_def send_word [OF ok'] send_auth_words [OF ok'] call_words_def
        auth_words_def del: be32s_simps rewind_select)
qed

lemma reply_msg_start_put:
  assumes ok: "xdr_ok x" and "oa_length verf = 0"
  shows "xdr_reply_msg_start x verf =
     Some (True, put (rewind x) (be32s ([x_xid x, RPC_MSG_REPLY, RPC_MSG_ACCEPTED] @
       auth_words verf @ [RPC_ACCEPT_SUCCESS])))"
proof -
  have ok': "xdr_ok (rewind x)" using ok by (rule xdr_ok_rewind)
  have "xdr_std_msg_start x RPC_MSG_REPLY
      = Some (True, put (rewind x) (be32s [x_xid x, RPC_MSG_REPLY]))"
    using ok by (simp add: msg_start_put Let_def RPC_MSG_CALL_def RPC_MSG_REPLY_def)
  then show ?thesis
    using ok' assms(2)
    by (simp add: xdr_reply_msg_start_def xdr_std_send_int32_def send_word [OF ok']
        send_auth_words [OF ok'] auth_words_def del: be32s_simps)
qed

lemma send_reply_header_put:
  assumes ok: "xdr_ok x" and wf: "wf_reply r" and room: "4 * (length ws + 6) \<le> room x"
  shows "xdr_send_reply_header (put x (be32s ws)) r
    = Some (True, put x (be32s (ws @ reply_words r)))"
proof (cases "rh_stat r = RPC_MSG_ACCEPTED")
  case True
  with wf have st: "ar_stat (rh_ar r) \<le> 6" and len: "oa_length (ar_verf (rh_ar r)) = 0"
    by (auto simp: wf_reply_def rpc_enum_defs)
  have "xdr_send_accepted_reply_header (put x (be32s (ws @ [rh_stat r]))) (rh_ar r)
      = Some (True, put x (be32s (ws @ reply_words r)))"
    using word_le_6 [OF st] True len room
    by (auto simp: xdr_send_accepted_reply_header_def xdr_send_enum_def xdr_std_send_int32_def
        send_word [OF ok] send_auth_words [OF ok] auth_words_def reply_words_def rpc_enum_defs
        simp del: be32s_simps)
  with True room show ?thesis
    by (simp add: xdr_send_reply_header_def xdr_send_enum_def xdr_std_send_int32_def
        send_word [OF ok] del: be32s_simps)
next
  case False
  with wf have rh: "rh_stat r = 1" and st: "dr_stat (rh_dr r) \<le> 1"
    by (auto simp: wf_reply_def rpc_enum_defs)
  have "xdr_send_denied_reply (put x (be32s (ws @ [rh_stat r]))) (rh_dr r)
      = Some (True, put x (be32s (ws @ reply_words r)))"
    using word_le_1 [OF st] False rh room
    by (auto simp: xdr_send_denied_reply_def xdr_send_enum_def xdr_std_send_int32_def
        send_word [OF ok] reply_words_def rpc_enum_defs simp del: be32s_simps)
  with False rh room show ?thesis
    by (simp add: xdr_send_reply_header_def xdr_send_enum_def xdr_std_send_int32_def rpc_enum_defs
        send_word [OF ok] del: be32s_simps)
qed

subsection \<open>Lemmas: receiving a reply header\<close>

lemma recv_enum_word:
  assumes "xdr_ok x" "in_rest x = be32 w @ rest"
  shows "xdr_recv_enum x v 4 = Some (True, adv x 4, w)"
  using recv_word [OF assms] by (simp add: xdr_recv_enum_def xdr_std_recv_int32_def)

lemma recv_auth_words:
  assumes "xdr_ok x" "in_rest x = be32s (auth_words a) @ rest"
  shows "xdr_recv_auth x b = Some (True, adv x 8, b\<lparr>oa_flavor := oa_flavor a, oa_length := 0\<rparr>)"
proof -
  have r: "in_rest x = be32 (oa_flavor a) @ be32 0 @ rest"
    using assms(2) by (simp add: auth_words_def)
  note w1 = recv_word [OF assms(1) r]
  note w2 = recv_word [OF w1(2) w1(3)]
  from w1(1) w2(1) show ?thesis
    by (simp add: xdr_recv_auth_def xdr_std_recv_int32_def)
qed

text \<open>A verifier of non-zero length is refused, whatever follows it.\<close>

lemma recv_auth_nonempty:
  assumes "xdr_ok x" "in_rest x = be32 fl @ be32 len @ rest" "len \<noteq> 0" "unat len < 2 ^ 31 - 2048"
  shows "\<exists>x' a'. xdr_recv_auth x a = Some (False, x', a')"
proof -
  note w1 = recv_word [OF assms(1,2)]
  note w2 = recv_word [OF w1(2) w1(3)]
  from w1(1) w2(1,2) assms(3,4) show ?thesis
    by (auto simp: xdr_recv_auth_def xdr_std_recv_int32_def recv_bytes_adv)
qed

lemma recv_versions_words:
  assumes "xdr_ok x" "in_rest x = be32 low @ be32 high @ rest"
  shows "recv_versions x l h = Some (True, adv x 8, low, high)"
proof -
  note w1 = recv_word [OF assms]
  note w2 = recv_word [OF w1(2) w1(3)]
  from w1(1) w2(1) show ?thesis by (simp add: recv_versions_def)
qed

lemma recv_accepted_header_words:
  assumes ok: "xdr_ok x" and wf: "wf_reply r" and rest: "in_rest x = be32s (reply_words r) @ rest"
    and st: "rh_stat r = RPC_MSG_ACCEPTED"
  shows "\<exists>r'. xdr_recv_reply_header x r0 = Some (True, adv x (4 * length (reply_words r)), r') \<and>
    reply_words r' = reply_words r \<and> wf_reply r'"
proof -
  from st wf have le: "ar_stat (rh_ar r) \<le> 6" by (simp add: wf_reply_def rpc_enum_defs)
  let ?vs = "if ar_stat (rh_ar r) = RPC_PROG_MISMATCH then [ar_low (rh_ar r), ar_high (rh_ar r)] else []"
  have r: "in_rest x = be32 (rh_stat r) @ be32s (auth_words (ar_verf (rh_ar r))) @
      be32 (ar_stat (rh_ar r)) @ be32s ?vs @ rest"
    using rest st by (simp add: reply_words_def)
  note w1 = recv_word [OF ok r]
  note a = recv_auth_words [OF w1(2) w1(3)]
  have ok3: "xdr_ok (adv x 12)" and r3: "in_rest (adv x 12) = be32 (ar_stat (rh_ar r)) @ be32s ?vs @ rest"
    using ok r by (auto intro!: xdr_ok_adv simp: in_rest_adv auth_words_def)
  note w3 = recv_word [OF ok3 r3]
  show ?thesis
  proof (cases "ar_stat (rh_ar r) = RPC_PROG_MISMATCH")
    case m: True
    then have r4: "in_rest (adv x 16) = be32 (ar_low (rh_ar r)) @ be32 (ar_high (rh_ar r)) @ rest"
      using w3(3) by simp
    have ok4: "xdr_ok (adv x 16)" using w3(2) by simp
    show ?thesis
      using recv_enum_word [OF ok r] a recv_enum_word [OF ok3 r3] st m
        recv_versions_words [OF ok4 r4]
      by (simp add: xdr_recv_reply_header_def xdr_recv_accepted_reply_header_def reply_words_def
          auth_words_def wf_reply_def rpc_enum_defs)
  next
    case False
    then show ?thesis
      using recv_enum_word [OF ok r] a recv_enum_word [OF ok3 r3] st word_le_6 [OF le]
      by (auto simp: xdr_recv_reply_header_def xdr_recv_accepted_reply_header_def reply_words_def
          auth_words_def wf_reply_def rpc_enum_defs)
  qed
qed

lemma recv_denied_header_words:
  assumes ok: "xdr_ok x" and wf: "wf_reply r" and rest: "in_rest x = be32s (reply_words r) @ rest"
    and st: "rh_stat r \<noteq> RPC_MSG_ACCEPTED"
  shows "\<exists>r'. xdr_recv_reply_header x r0 = Some (True, adv x (4 * length (reply_words r)), r') \<and>
    reply_words r' = reply_words r \<and> wf_reply r'"
proof -
  from st wf have rh: "rh_stat r = 1" and le: "dr_stat (rh_dr r) \<le> 1"
    by (auto simp: wf_reply_def rpc_enum_defs)
  let ?vs = "if dr_stat (rh_dr r) = RPC_MISMATCH then [dr_low (rh_dr r), dr_high (rh_dr r)]
     else [dr_low (rh_dr r)]"
  have r: "in_rest x = be32 (rh_stat r) @ be32 (dr_stat (rh_dr r)) @ be32s ?vs @ rest"
    using rest st by (simp add: reply_words_def)
  note w1 = recv_word [OF ok r]
  note w2 = recv_word [OF w1(2) w1(3)]
  have ok2: "xdr_ok (adv x 8)" using w2(2) by simp
  show ?thesis
  proof (cases "dr_stat (rh_dr r) = RPC_MISMATCH")
    case m: True
    have r2: "in_rest (adv x 8) = be32 (dr_low (rh_dr r)) @ be32 (dr_high (rh_dr r)) @ rest"
      using w2(3) m by simp
    show ?thesis
      using recv_enum_word [OF ok r] recv_enum_word [OF w1(2) w1(3)] st rh m
        recv_versions_words [OF ok2 r2]
      by (simp add: xdr_recv_reply_header_def xdr_recv_denied_reply_def reply_words_def wf_reply_def
          rpc_enum_defs)
  next
    case m: False
    have r2: "in_rest (adv x 8) = be32 (dr_low (rh_dr r)) @ rest"
      using w2(3) m by simp
    show ?thesis
      using recv_enum_word [OF ok r] recv_enum_word [OF w1(2) w1(3)] st rh m
        recv_enum_word [OF ok2 r2] word_le_1 [OF le]
      by (auto simp: xdr_recv_reply_header_def xdr_recv_denied_reply_def reply_words_def
          wf_reply_def rpc_enum_defs)
  qed
qed

lemma recv_reply_header_words:
  assumes ok: "xdr_ok x" and wf: "wf_reply r" and rest: "in_rest x = be32s (reply_words r) @ rest"
  shows "\<exists>r'. xdr_recv_reply_header x r0 = Some (True, adv x (4 * length (reply_words r)), r') \<and>
    reply_words r' = reply_words r \<and> wf_reply r'"
  by (cases "rh_stat r = RPC_MSG_ACCEPTED") (rule recv_accepted_header_words [OF assms], assumption, rule recv_denied_header_words [OF assms], assumption)

subsection \<open>Properties\<close>

text \<open>
  C9: a reply header survives the wire: what \<open>xdr_send_reply_header\<close> of the server writes is read
  by \<open>xdr_recv_reply_header\<close> of the client as a header with the same words, for accepted, failed
  and denied replies alike, and exactly the header is consumed.
\<close>

theorem reply_header_roundtrip:
  assumes x: "xdr_ok x" "24 \<le> room x" and wf: "wf_reply r"
  shows "\<exists>x'. xdr_send_reply_header x r = Some (True, x') \<and> xdr_ok x' \<and>
    (\<forall>y r0 rest. xdr_ok y \<longrightarrow> out_bytes x @ in_rest y = out_bytes x' @ rest \<longrightarrow>
       (\<exists>y' r'. xdr_recv_reply_header y r0 = Some (True, y', r') \<and> reply_words r' = reply_words r \<and>
          in_rest y' = rest))"
proof -
  let ?x = "put x (be32s (reply_words r))"
  have len: "4 * length (reply_words r) \<le> room x" using x(2) reply_words_length [of r] by linarith
  have "xdr_send_reply_header x r = Some (True, ?x)"
    using send_reply_header_put [OF x(1) wf, of "[]"] x(2) by simp
  moreover have "xdr_ok ?x" using x(1) len by (intro xdr_ok_put) auto
  moreover have "\<exists>y' r'. xdr_recv_reply_header y r0 = Some (True, y', r') \<and>
      reply_words r' = reply_words r \<and> in_rest y' = rest"
    if y: "xdr_ok y" "out_bytes x @ in_rest y = out_bytes ?x @ rest" for y r0 rest
  proof -
    have rest: "in_rest y = be32s (reply_words r) @ rest" using y x len by (simp add: out_bytes_put)
    then have "in_rest (adv y (4 * length (reply_words r))) = rest" using y by (simp add: in_rest_adv)
    with recv_reply_header_words [OF y(1) wf rest, of r0] show ?thesis by blast
  qed
  ultimately show ?thesis by blast
qed

definition demo_reply :: rpc_reply_header where
  "demo_reply = \<lparr>rh_stat = 1,
     rh_ar = \<lparr>ar_verf = \<lparr>oa_flavor = 0, oa_base = None, oa_length = 0\<rparr>, ar_stat = 0, ar_low = 0, ar_high = 0\<rparr>,
     rh_dr = \<lparr>dr_stat = 0, dr_low = 2, dr_high = 3\<rparr>\<rparr>"

theorem reply_header_roundtrip_witness:
  "\<exists>x'. xdr_send_reply_header enc_handle demo_reply = Some (True, x') \<and> xdr_ok x' \<and>
    (\<forall>y r0 rest. xdr_ok y \<longrightarrow> out_bytes enc_handle @ in_rest y = out_bytes x' @ rest \<longrightarrow>
       (\<exists>y' r'. xdr_recv_reply_header y r0 = Some (True, y', r') \<and>
          reply_words r' = reply_words demo_reply \<and> in_rest y' = rest))"
  by (rule reply_header_roundtrip) (simp_all add: demo_handles wf_reply_def demo_reply_def rpc_enum_defs)

text \<open>
  A reply whose verifier is not empty is refused by \<open>xdr_recv_auth\<close> although its bytes are in
  the message: both branches of the code that is to throw them away return failure.
\<close>

theorem recv_auth_refuses_verifier:
  assumes "xdr_ok x" "in_rest x = be32 fl @ be32 len @ rest" "len \<noteq> 0" "unat len < 2 ^ 31 - 2048"
  shows "\<exists>x' a'. xdr_recv_auth x a = Some (False, x', a')"
  using assms by (rule recv_auth_nonempty)

definition auth_handle :: xdr_s_type where
  "auth_handle = arrive xdr_zero (be32 0 @ be32 1 @ be32 1 @ be32 4 @ be32 7)"

theorem recv_auth_refuses_verifier_witness:
  "\<exists>x' a'. xdr_recv_auth auth_handle \<lparr>oa_flavor = 0, oa_base = None, oa_length = 0\<rparr> = Some (False, x', a')"
proof (rule recv_auth_refuses_verifier [where fl = 1 and len = 4 and rest = "be32 7"])
  show "xdr_ok auth_handle" using xdr_ok_zero by (simp add: auth_handle_def xdr_ok_arrive)
qed (simp_all add: auth_handle_def)

end
