(* ===== verification/Svc.thy ===== *)
theory Svc
  imports Rpc_Msg
begin

text \<open>
  The server side, \<open>librpc/svc.c\<close>: the list of registered servers of a transport, the
  dispatch of an incoming call, the replies, and the reference count of the one transport.

  A dispatch function is known by its address; \<open>call\<close>, a parameter of the dispatching
  functions, runs the function at an address on a request and the entry it is registered for.
  A program number with bit 24 set is a callback client: its entry has no handle of its own.
\<close>

subsection \<open>Data\<close>

record registered_server =
  sv_xdr :: "xdr_s_type option"
  sv_prog :: u32
  sv_vers :: u32
  sv_active :: int
  sv_dispatch :: nat

record SVCXPRT =
  fdset :: "int set"
  max_fd :: int
  servers :: "registered_server list"
  num_servers :: int
  svc_threads :: nat

record svc_req =
  rq_prog :: u32
  rq_vers :: u32
  rq_proc :: u32

definition RPC_ROUTER_IOCTL_REGISTER_SERVER :: u32 where
  "RPC_ROUTER_IOCTL_REGISTER_SERVER = 0xC004C102"

definition RPC_ROUTER_IOCTL_UNREGISTER_SERVER :: u32 where
  "RPC_ROUTER_IOCTL_UNREGISTER_SERVER = 0xC004C103"

text \<open>\<open>FD_SET\<close> outside the 1024 bits of an \<open>fd_set\<close> is undefined.\<close>

definition FD_SET :: "int \<Rightarrow> int set \<Rightarrow> int set option" where
  "FD_SET f s = (if 0 \<le> f \<and> f < 1024 then Some (insert f s) else None)"

definition FD_CLR :: "int \<Rightarrow> int set \<Rightarrow> int set option" where
  "FD_CLR f s = (if 0 \<le> f \<and> f < 1024 then Some (s - {f}) else None)"

subsection \<open>Transport\<close>

text \<open>The globals \<open>the_xprt\<close> and \<open>xprt_refcount\<close>; a transport is known by its address.\<close>

record xprt_globals =
  the_xprt :: "nat option"
  xprt_refcount :: int

definition xprt_zero :: SVCXPRT where
  "xprt_zero = \<lparr>fdset = {}, max_fd = 0, servers = [], num_servers = 0, svc_threads = 0\<rparr>"

definition svcrtr_create :: "xprt_globals \<Rightarrow> nat option \<Rightarrow> nat option" where
  "svcrtr_create g fresh = (case the_xprt g of Some p \<Rightarrow> Some p | None \<Rightarrow> fresh)"

definition xprt_register :: "nat option \<Rightarrow> xprt_globals \<Rightarrow> xprt_globals" where
  "xprt_register xprt g =
     (if the_xprt g = None \<or> (xprt \<noteq> None \<and> xprt = the_xprt g)
      then g\<lparr>xprt_refcount := xprt_refcount g + 1, the_xprt := xprt\<rparr> else g)"

text \<open>The second component tells whether the transport was freed.\<close>

definition xprt_unregister :: "nat option \<Rightarrow> xprt_globals \<Rightarrow> xprt_globals \<times> bool" where
  "xprt_unregister xprt g =
     (if xprt \<noteq> None \<and> xprt = the_xprt g then
        if xprt_refcount g = 1 then (g\<lparr>xprt_refcount := 0, the_xprt := None\<rparr>, True)
        else (g\<lparr>xprt_refcount := xprt_refcount g - 1\<rparr>, False)
      else (g, False))"

subsection \<open>Registration\<close>

text \<open>
  The search returns the list split at the entry found: the entries before it (whose last is
  \<open>*prev\<close>) and the rest, empty when there is none.
\<close>

fun svc_find_nosync ::
  "registered_server list \<Rightarrow> u32 \<Rightarrow> u32 \<Rightarrow> registered_server list \<times> registered_server list" where
  "svc_find_nosync [] prog vers = ([], [])"
| "svc_find_nosync (trav # next) prog vers =
     (if sv_prog trav = prog \<and> sv_vers trav = vers then ([], trav # next)
      else (case svc_find_nosync next prog vers of (before, rest) \<Rightarrow> (trav # before, rest)))"

definition svc_find :: "SVCXPRT \<Rightarrow> u32 \<Rightarrow> u32 \<Rightarrow> registered_server option" where
  "svc_find xprt prog vers =
     (case snd (svc_find_nosync (servers xprt) prog vers) of [] \<Rightarrow> None | svc # _ \<Rightarrow> Some svc)"

definition is_callback :: "u32 \<Rightarrow> bool" where
  "is_callback prog \<longleftrightarrow> prog AND 0x01000000 \<noteq> 0"

text \<open>\<open>junk\<close> is the indeterminate value of the field \<open>active\<close> of a fresh entry.\<close>

definition svc_link :: "SVCXPRT \<Rightarrow> registered_server \<Rightarrow> SVCXPRT" where
  "svc_link xprt svc =
     (let x1 = xprt\<lparr>servers := svc # servers xprt, num_servers := num_servers xprt + 1\<rparr>
      in if num_servers x1 = 1 then x1\<lparr>svc_threads := svc_threads x1 + 1\<rparr> else x1)"

definition svc_register ::
  "'w kernel \<Rightarrow> int \<Rightarrow> SVCXPRT \<Rightarrow> u32 \<Rightarrow> u32 \<Rightarrow> nat \<Rightarrow> 'w \<Rightarrow> (bool \<times> SVCXPRT \<times> 'w) option" where
  "svc_register K junk xprt prog vers dispatch w =
     (case svc_find xprt prog vers of
        Some svc \<Rightarrow> Some (sv_dispatch svc = dispatch, xprt, w)
      | None \<Rightarrow>
          if \<not> k_calloc K w then None
          else if is_callback prog then
            Some (True, svc_link xprt \<lparr>sv_xdr = None, sv_prog = prog, sv_vers = vers,
                                       sv_active = junk, sv_dispatch = dispatch\<rparr>, w)
          else
            do { (xo, w1) \<leftarrow> xdr_init_common K ''/dev/oncrpc/00000000:0'' False w;
                 case xo of None \<Rightarrow> Some (False, xprt, w1)
                 | Some x \<Rightarrow>
                     (case r_control K (x_fd x) RPC_ROUTER_IOCTL_REGISTER_SERVER (prog, vers) w1 of
                        (rc, w2) \<Rightarrow>
                          if rc < 0 then Some (False, xprt, xdr_destroy_common K x w2)
                          else
                            do { fs \<leftarrow> FD_SET (x_fd x) (fdset xprt);
                                 let xp1 = xprt\<lparr>fdset := fs, max_fd := max (max_fd xprt) (x_fd x)\<rparr>;
                                 Some (True,
                                   svc_link xp1
                                     \<lparr>sv_xdr = Some (x\<lparr>x_prog := prog, x_vers := vers\<rparr>),
                                      sv_prog = prog, sv_vers = vers, sv_active = junk,
                                      sv_dispatch = dispatch\<rparr>, w2) }) })"

definition svc_unregister ::
  "'w kernel \<Rightarrow> SVCXPRT \<Rightarrow> u32 \<Rightarrow> u32 \<Rightarrow> 'w \<Rightarrow> (SVCXPRT \<times> 'w) option" where
  "svc_unregister K xprt prog vers w =
     (case svc_find_nosync (servers xprt) prog vers of
        (before, []) \<Rightarrow> Some (xprt, w)
      | (before, found # after) \<Rightarrow>
          let x1 = xprt\<lparr>servers := before @ after\<rparr> in
          do { (x2, w2) \<leftarrow>
                 (case sv_xdr found of
                    None \<Rightarrow> Some (x1, w)
                  | Some x \<Rightarrow>
                      if \<not> is_callback prog then
                        do { let w1 = snd (r_control K (x_fd x) RPC_ROUTER_IOCTL_UNREGISTER_SERVER
                                             (prog, vers) w);
                             fs \<leftarrow> FD_CLR (x_fd x) (fdset x1);
                             Some (x1\<lparr>fdset := fs\<rparr>, xdr_destroy_common K x w1) }
                      else Some (x1, xdr_destroy_common K x w));
               Some (x2\<lparr>num_servers := num_servers x2 - 1\<rparr>, w2) })"

subsection \<open>Dispatch\<close>

type_synonym 'w dispatch_fn =
  "svc_req \<Rightarrow> registered_server \<Rightarrow> 'w \<Rightarrow> (registered_server \<times> 'w) option"

definition svc_dispatch ::
  "(nat \<Rightarrow> 'w dispatch_fn) \<Rightarrow> int \<Rightarrow> registered_server \<Rightarrow> 'w \<Rightarrow> (registered_server \<times> 'w) option" where
  "svc_dispatch call pid svc w =
     do { x \<leftarrow> sv_xdr svc;
          prog \<leftarrow> load32 (in_msg x) 3;
          vers \<leftarrow> load32 (in_msg x) 4;
          proc \<leftarrow> load32 (in_msg x) 5;
          ty \<leftarrow> load32 (in_msg x) 1;
          if ty \<noteq> RPC_MSG_CALL then Some (svc, w)
          else if prog \<noteq> sv_prog svc then Some (svc, w)
          else if vers \<noteq> x_vers x then Some (svc, w)
          else
            do { let svc1 = svc\<lparr>sv_xdr := Some (x\<lparr>in_next := 40, x_op := XDR_DECODE\<rparr>),
                               sv_active := pid\<rparr>;
                 (svc2, w2) \<leftarrow> call (sv_dispatch svc)
                   \<lparr>rq_prog = prog, rq_vers = vers, rq_proc = proc\<rparr> svc1 w;
                 Some (svc2\<lparr>sv_active := 0\<rparr>, w2) } }"

text \<open>
  Servicing one readable descriptor: the first entry whose handle has that descriptor reads a
  packet and dispatches it. \<open>Inl\<close> is \<open>abort()\<close>. Reading \<open>trav->xdr->fd\<close> of an entry
  without a handle dereferences null.
\<close>

fun svc_service ::
  "'w kernel \<Rightarrow> (nat \<Rightarrow> 'w dispatch_fn) \<Rightarrow> int \<Rightarrow> int \<Rightarrow> registered_server list \<Rightarrow> 'w
   \<Rightarrow> (unit + registered_server list \<times> 'w) option" where
  "svc_service K call pid n [] w = Some (Inr ([], w))"
| "svc_service K call pid n (trav # next) w =
     do { x \<leftarrow> sv_xdr trav;
          if x_fd x = n then
            do { (ok, x1, w1) \<leftarrow> xdr_std_read K x w;
                 if \<not> ok then Some (Inl ())
                 else do { (trav1, w2) \<leftarrow> svc_dispatch call pid (trav\<lparr>sv_xdr := Some x1\<rparr>) w1;
                           Some (Inr (trav1 # next, w2)) } }
          else
            do { r \<leftarrow> svc_service K call pid n next w;
                 Some (case r of Inl u \<Rightarrow> Inl u | Inr (l, w1) \<Rightarrow> Inr (trav # l, w1)) } }"

text \<open>The \<open>for\<close> loop over the descriptors \<open>0 .. max_fd\<close> that \<open>select\<close> reported.\<close>

fun svc_context_fds ::
  "'w kernel \<Rightarrow> (nat \<Rightarrow> 'w dispatch_fn) \<Rightarrow> int \<Rightarrow> int set \<Rightarrow> int list \<Rightarrow> registered_server list \<Rightarrow> 'w
   \<Rightarrow> (unit + registered_server list \<times> 'w) option" where
  "svc_context_fds K call pid rfds [] l w = Some (Inr (l, w))"
| "svc_context_fds K call pid rfds (n # ns) l w =
     (if n \<in> rfds then
        do { r \<leftarrow> svc_service K call pid n l w;
             case r of Inl u \<Rightarrow> Some (Inl u)
             | Inr (l1, w1) \<Rightarrow> svc_context_fds K call pid rfds ns l1 w1 }
      else svc_context_fds K call pid rfds ns l w)"

definition svc_context_round ::
  "'w kernel \<Rightarrow> (nat \<Rightarrow> 'w dispatch_fn) \<Rightarrow> int \<Rightarrow> int set \<Rightarrow> SVCXPRT \<Rightarrow> 'w
   \<Rightarrow> (unit + SVCXPRT \<times> 'w) option" where
  "svc_context_round K call pid rfds xprt w =
     do { r \<leftarrow> svc_context_fds K call pid rfds [0..max_fd xprt] (servers xprt) w;
          Some (case r of Inl u \<Rightarrow> Inl u | Inr (l, w1) \<Rightarrow> Inr (xprt\<lparr>servers := l\<rparr>, w1)) }"

subsection \<open>Arguments and replies\<close>

definition svc_getargs ::
  "registered_server \<Rightarrow> 'a xdrproc \<Rightarrow> 'a \<Rightarrow> (bool \<times> registered_server \<times> 'a) option" where
  "svc_getargs serv xdr_args args =
     (if sv_active serv \<noteq> 0 then
        do { x \<leftarrow> sv_xdr serv;
             (b, x1, args1) \<leftarrow> xdr_args x args;
             Some (b, serv\<lparr>sv_xdr := Some x1\<rparr>, args1) }
      else Some (False, serv, args))"

definition svc_freeargs ::
  "registered_server \<Rightarrow> 'a xdrproc \<Rightarrow> 'a \<Rightarrow> (bool \<times> registered_server \<times> 'a) option" where
  "svc_freeargs serv xdr_args args =
     (if sv_active serv \<noteq> 0 then
        do { x \<leftarrow> sv_xdr serv;
             (b, x1, args1) \<leftarrow> xdr_args (x\<lparr>x_op := XDR_FREE\<rparr>) args;
             Some (b, serv\<lparr>sv_xdr := Some x1\<rparr>, args1) }
      else Some (False, serv, args))"

definition svc_sendreply ::
  "'w kernel \<Rightarrow> registered_server \<Rightarrow> 'a xdrproc \<Rightarrow> 'a \<Rightarrow> 'w \<Rightarrow> (bool \<times> registered_server \<times> 'w) option" where
  "svc_sendreply K serv xdr_results loc w =
     (if sv_active serv \<noteq> 0 then
        do { x0 \<leftarrow> sv_xdr serv;
             let x = x0\<lparr>x_op := XDR_ENCODE\<rparr>;
             (b1, x1) \<leftarrow> xdr_reply_msg_start x \<lparr>oa_flavor = AUTH_NONE, oa_base = None, oa_length = 0\<rparr>;
             if \<not> b1 then Some (False, serv\<lparr>sv_xdr := Some x1\<rparr>, w)
             else
               do { (b2, x2, _) \<leftarrow> xdr_results x1 loc;
                    if \<not> b2 then Some (False, serv\<lparr>sv_xdr := Some x2\<rparr>, w)
                    else
                      do { xid \<leftarrow> load32 (in_msg x2) 0;
                           m \<leftarrow> store32 (out_msg x2) 0 xid;
                           let x3 = x2\<lparr>out_msg := m\<rparr>;
                           (sent, w1) \<leftarrow> xdr_std_msg_send K x3 w;
                           Some (True, serv\<lparr>sv_xdr := Some x3\<rparr>, w1) } } }
      else Some (False, serv, w))"

definition SVCERR_XDR_SEND ::
  "'w kernel \<Rightarrow> xdr_s_type \<Rightarrow> rpc_reply_header \<Rightarrow> 'w \<Rightarrow> (bool \<times> xdr_s_type \<times> 'w) option" where
  "SVCERR_XDR_SEND K x reply w =
     do { (b, x1) \<leftarrow> and_then (xdr_std_msg_start x RPC_MSG_REPLY) (\<lambda>x. xdr_send_reply_header x reply);
          if b then do { (b2, w1) \<leftarrow> xdr_std_msg_send K x1 w; Some (b2, x1, w1) }
          else Some (False, x1, w) }"

definition accepted :: "opaque_auth \<Rightarrow> u32 \<Rightarrow> rpc_reply_header" where
  "accepted verf st = \<lparr>rh_stat = RPC_MSG_ACCEPTED,
     rh_ar = \<lparr>ar_verf = verf, ar_stat = st, ar_low = 0, ar_high = 0\<rparr>,
     rh_dr = \<lparr>dr_stat = 0, dr_low = 0, dr_high = 0\<rparr>\<rparr>"

definition svcerr ::
  "'w kernel \<Rightarrow> u32 \<Rightarrow> registered_server \<Rightarrow> 'w \<Rightarrow> (registered_server \<times> 'w) option" where
  "svcerr K st serv w =
     (if sv_active serv \<noteq> 0 then
        do { x \<leftarrow> sv_xdr serv;
             (b, x1, w1) \<leftarrow> SVCERR_XDR_SEND K x (accepted (x_verf x) st) w;
             Some (serv\<lparr>sv_xdr := Some x1\<rparr>, w1) }
      else Some (serv, w))"

definition svcerr_decode ::
  "'w kernel \<Rightarrow> registered_server \<Rightarrow> 'w \<Rightarrow> (registered_server \<times> 'w) option" where
  "svcerr_decode K serv w = svcerr K RPC_GARBAGE_ARGS serv w"

definition svcerr_systemerr ::
  "'w kernel \<Rightarrow> registered_server \<Rightarrow> 'w \<Rightarrow> (registered_server \<times> 'w) option" where
  "svcerr_systemerr K serv w = svcerr K RPC_SYSTEM_ERR serv w"

definition svcerr_noproc ::
  "'w kernel \<Rightarrow> registered_server \<Rightarrow> 'w \<Rightarrow> (registered_server \<times> 'w) option" where
  "svcerr_noproc K serv w = svcerr K RPC_PROC_UNAVAIL serv w"

subsection \<open>The registry contract\<close>

text \<open>
  What the users of a registry rely on: a key that is absent can be added and is then found, a key
  that is removed is not found any more, and no other key is affected.
\<close>

locale registry =
  fixes find :: "'s \<Rightarrow> 'k \<Rightarrow> 'v option" and add :: "'k \<Rightarrow> 'v \<Rightarrow> 's \<Rightarrow> 's"
    and del :: "'k \<Rightarrow> 's \<Rightarrow> 's" and fits :: "'k \<Rightarrow> 'v \<Rightarrow> bool" and inv :: "'s \<Rightarrow> bool"
  assumes find_add: "inv s \<Longrightarrow> fits k v \<Longrightarrow> find s k = None \<Longrightarrow>
      find (add k v s) j = (if j = k then Some v else find s j)"
    and find_del: "inv s \<Longrightarrow> find (del k s) j = (if j = k then None else find s j)"
    and inv_add: "inv s \<Longrightarrow> fits k v \<Longrightarrow> find s k = None \<Longrightarrow> inv (add k v s)"
    and inv_del: "inv s \<Longrightarrow> inv (del k s)"
begin

lemma find_dels: "inv s \<Longrightarrow> find (fold del ks s) j = (if j \<in> set ks then None else find s j) \<and>
    inv (fold del ks s)"
  by (induction ks arbitrary: s) (auto simp: find_del inv_del)

lemma add_del:
  assumes "inv s" "fits k v" "find s k = None"
  shows "find (del k (add k v s)) = find s"
  using assms by (auto simp: find_add find_del inv_add)

end

definition svc_key :: "registered_server \<Rightarrow> u32 \<times> u32" where
  "svc_key s = (sv_prog s, sv_vers s)"

definition list_find :: "registered_server list \<Rightarrow> u32 \<times> u32 \<Rightarrow> registered_server option" where
  "list_find l k = (case snd (svc_find_nosync l (fst k) (snd k)) of [] \<Rightarrow> None | s # _ \<Rightarrow> Some s)"

definition list_del :: "u32 \<times> u32 \<Rightarrow> registered_server list \<Rightarrow> registered_server list" where
  "list_del k l = (case svc_find_nosync l (fst k) (snd k) of (before, rest) \<Rightarrow> before @ tl rest)"

lemma find_nosync_split:
  "svc_find_nosync l p v = (before, rest) \<Longrightarrow>
   l = before @ rest \<and> (p, v) \<notin> svc_key ` set before \<and>
   (case rest of [] \<Rightarrow> True | s # _ \<Rightarrow> svc_key s = (p, v))"
  by (induction l arbitrary: before rest)
    (auto simp: svc_key_def split: prod.splits if_splits list.splits)

lemma list_find_map_of: "list_find l k = map_of (map (\<lambda>s. (svc_key s, s)) l) k"
  by (induction l) (auto simp: list_find_def svc_key_def split: prod.splits)

lemma list_del_filter: "distinct (map svc_key l) \<Longrightarrow> list_del k l = filter (\<lambda>s. svc_key s \<noteq> k) l"
proof (induction l)
  case Nil
  then show ?case by (simp add: list_del_def)
next
  case (Cons s l)
  show ?case
  proof (cases "svc_key s = k")
    case True
    with Cons.prems have "\<forall>t \<in> set l. svc_key t \<noteq> k" by (auto simp: image_iff)
    then have "filter (\<lambda>s. svc_key s \<noteq> k) l = l" by (simp add: filter_id_conv)
    with True show ?thesis by (auto simp: list_del_def svc_key_def)
  next
    case False
    with Cons show ?thesis
      by (auto simp: list_del_def svc_key_def split: prod.splits)
  qed
qed

lemma map_of_filter_key:
  "map_of (map (\<lambda>s. (svc_key s, s)) (filter (\<lambda>s. svc_key s \<noteq> k) l)) j =
   (if j = k then None else map_of (map (\<lambda>s. (svc_key s, s)) l) j)"
  by (induction l) auto

interpretation rg: registry list_find "\<lambda>k s l. s # l" list_del "\<lambda>k s. svc_key s = k"
  "\<lambda>l. distinct (map svc_key l)"
proof (unfold_locales, goal_cases)
  case (1 l k v j)
  then show ?case by (auto simp: list_find_map_of)
next
  case (2 l k j)
  then show ?case by (simp add: list_find_map_of list_del_filter map_of_filter_key)
next
  case (3 l k v)
  then show ?case
    by (auto simp: list_find_map_of map_of_eq_None_iff image_image)
next
  case (4 l k)
  then show ?case by (simp add: list_del_filter distinct_map_filter)
qed

subsection \<open>Lemmas: the transport invariant\<close>

definition svc_fds :: "registered_server list \<Rightarrow> int list" where
  "svc_fds l = map x_fd (List.map_filter sv_xdr l)"

definition svc_inv :: "SVCXPRT \<Rightarrow> bool" where
  "svc_inv xp \<longleftrightarrow>
     distinct (map svc_key (servers xp)) \<and> num_servers xp = int (length (servers xp)) \<and>
     distinct (svc_fds (servers xp)) \<and> fdset xp = set (svc_fds (servers xp)) \<and>
     (\<forall>f \<in> fdset xp. 0 \<le> f \<and> f < 1024 \<and> f \<le> max_fd xp) \<and>
     (\<forall>s \<in> set (servers xp). sv_xdr s = None \<longleftrightarrow> is_callback (sv_prog s))"

lemma svc_fds_simps [simp]:
  "svc_fds [] = []"
  "svc_fds (s # l) = (case sv_xdr s of None \<Rightarrow> svc_fds l | Some x \<Rightarrow> x_fd x # svc_fds l)"
  "svc_fds (l @ m) = svc_fds l @ svc_fds m"
  by (auto simp: svc_fds_def map_filter_simps map_filter_def split: option.split)

lemma svc_find_list: "svc_find xp p v = list_find (servers xp) (p, v)"
  by (simp add: svc_find_def list_find_def)

lemma svc_inv_zero: "svc_inv xprt_zero"
  by (simp add: svc_inv_def xprt_zero_def)

lemma svc_link_select [simp]:
  "servers (svc_link xp s) = s # servers xp" "num_servers (svc_link xp s) = num_servers xp + 1"
  "fdset (svc_link xp s) = fdset xp" "max_fd (svc_link xp s) = max_fd xp"
  by (simp_all add: svc_link_def Let_def)

lemma list_find_None: "list_find l k = None \<longleftrightarrow> k \<notin> svc_key ` set l"
  by (auto simp: list_find_map_of map_of_eq_None_iff image_image)

text \<open>What a successful registration did, whichever branch it took.\<close>

lemma init_common_Some:
  assumes "xdr_init_common K router c w = Some (Some x, w')"
  shows "x_fd x = fst (k_open K router w)" "0 \<le> x_fd x" "w' = snd (k_open K router w)"
  using assms
  by (auto simp: xdr_init_common_def r_open_def xdr_zero_def split: if_splits prod.splits)

lemma svc_register_Some:
  assumes "svc_register K junk xp p v d w = Some (True, xp', w')" "svc_find xp p v = None"
  obtains s where "svc_key s = (p, v)" "sv_dispatch s = d" "servers xp' = s # servers xp"
    "num_servers xp' = num_servers xp + 1"
    "sv_xdr s = None \<and> is_callback p \<and> fdset xp' = fdset xp \<and> max_fd xp' = max_fd xp \<or>
     (\<exists>x. sv_xdr s = Some x \<and> \<not> is_callback p \<and> fdset xp' = insert (x_fd x) (fdset xp) \<and>
        max_fd xp' = max (max_fd xp) (x_fd x) \<and> 0 \<le> x_fd x \<and> x_fd x < 1024 \<and>
        x_fd x = fst (k_open K ''/dev/oncrpc/00000000:0'' w))"
proof (cases "is_callback p")
  case True
  with assms show thesis
    by (auto intro!: that simp: svc_register_def svc_key_def split: if_splits)
next
  case False
  with assms obtain x w1 where x: "xdr_init_common K ''/dev/oncrpc/00000000:0'' False w = Some (Some x, w1)"
    by (cases "xdr_init_common K ''/dev/oncrpc/00000000:0'' False w")
      (auto simp: svc_register_def split: if_splits option.splits)
  obtain rc w2 where rc: "r_control K (x_fd x) RPC_ROUTER_IOCTL_REGISTER_SERVER (p, v) w1 = (rc, w2)"
    by fastforce
  from assms False x rc have "0 \<le> x_fd x \<and> x_fd x < 1024"
    "xp' = svc_link (xp\<lparr>fdset := insert (x_fd x) (fdset xp), max_fd := max (max_fd xp) (x_fd x)\<rparr>)
       \<lparr>sv_xdr = Some (x\<lparr>x_prog := p, x_vers := v\<rparr>), sv_prog = p, sv_vers = v, sv_active = junk,
        sv_dispatch = d\<rparr>"
    by (auto simp: svc_register_def FD_SET_def split: if_splits)
  with False init_common_Some [OF x] show thesis
    by (intro that) (auto simp: svc_key_def)
qed

lemma svc_register_found:
  "svc_find xp p v = Some s \<Longrightarrow>
   svc_register K junk xp p v d w = Some (sv_dispatch s = d, xp, w)"
  by (simp add: svc_register_def)

lemma svc_register_False:
  "svc_register K junk xp p v d w = Some (False, xp', w') \<Longrightarrow> xp' = xp"
  by (cases "xdr_init_common K ''/dev/oncrpc/00000000:0'' False w")
    (auto simp: svc_register_def bind_eq_Some_conv Let_def split: if_splits option.splits prod.splits)

lemma svc_inv_link:
  assumes "svc_inv xp" "svc_find xp (sv_prog s) (sv_vers s) = None"
    and "servers xp' = s # servers xp" "num_servers xp' = num_servers xp + 1"
    and "sv_xdr s = None \<and> is_callback (sv_prog s) \<and> fdset xp' = fdset xp \<and> max_fd xp' = max_fd xp \<or>
     (\<exists>x. sv_xdr s = Some x \<and> \<not> is_callback (sv_prog s) \<and> fdset xp' = insert (x_fd x) (fdset xp) \<and>
        max_fd xp' = max (max_fd xp) (x_fd x) \<and> 0 \<le> x_fd x \<and> x_fd x < 1024 \<and> x_fd x \<notin> fdset xp)"
  shows "svc_inv xp'"
proof -
  have "svc_key s \<notin> svc_key ` set (servers xp)"
    using assms(2) by (simp add: svc_find_list list_find_None svc_key_def)
  with assms(1,3,4,5) show ?thesis by (fastforce simp: svc_inv_def)
qed

lemma svc_unregister_spec:
  assumes inv: "svc_inv xp"
  shows "\<exists>xp' w'. svc_unregister K xp p v w = Some (xp', w') \<and>
     servers xp' = list_del (p, v) (servers xp) \<and> svc_inv xp'"
proof -
  obtain before rest where f: "svc_find_nosync (servers xp) p v = (before, rest)" by fastforce
  note split = find_nosync_split [OF f]
  show ?thesis
  proof (cases rest)
    case Nil
    with f inv split show ?thesis by (simp add: svc_unregister_def list_del_def)
  next
    case (Cons found after)
    with split have l: "servers xp = before @ found # after" and key: "svc_key found = (p, v)"
      by auto
    show ?thesis
    proof (cases "sv_xdr found")
      case None
      with f Cons inv l show ?thesis
        by (auto simp: svc_unregister_def list_del_def svc_inv_def Let_def)
    next
      case (Some x)
      have "x_fd x \<in> fdset xp" "\<not> is_callback p"
        using inv l Some key by (auto simp: svc_inv_def svc_key_def)
      moreover have "fdset xp - {x_fd x} = set (svc_fds (before @ after))"
        using inv l Some by (auto simp: svc_inv_def)
      ultimately show ?thesis
        using f Cons Some inv l
        by (auto simp: svc_unregister_def list_del_def svc_inv_def Let_def FD_CLR_def)
    qed
  qed
qed

subsection \<open>Lemmas: dispatch and replies\<close>

lemma load_header:
  assumes "i < length ws" "xdr_ok x" "4 * length ws \<le> 2048 - length args"
  shows "load32 (in_msg (arrive x (be32s ws @ args))) i = Some (ws ! i)"
proof -
  have "be32s ws = be32s (take i ws) @ be32 (ws ! i) @ be32s (drop (Suc i) ws)"
    using assms(1) by (subst id_take_nth_drop [OF assms(1)]) simp
  moreover have "length (be32s (take i ws)) = 4 * i" using assms(1) by simp
  ultimately show ?thesis
    using assms by (simp add: load32_arrive)
qed

lemma length_call_words [simp]: "length (call_words xid p v proc cred verf) = 10"
  by (simp add: call_words_def auth_words_def)

text \<open>A call packet that arrived on the handle of an entry and what its dispatch function is given.\<close>

lemma svc_dispatch_arrive:
  assumes "sv_xdr svc = Some (arrive x (be32s (call_words xid p v proc cred verf) @ args))"
    and "xdr_ok x" "length args \<le> 2008" "p = sv_prog svc" "v = x_vers x"
  shows "svc_dispatch call pid svc w =
     do { (svc2, w2) \<leftarrow> call (sv_dispatch svc) \<lparr>rq_prog = p, rq_vers = v, rq_proc = proc\<rparr>
            (svc\<lparr>sv_xdr := Some (arrive x (be32s (call_words xid p v proc cred verf) @ args)
                   \<lparr>in_next := 40, x_op := XDR_DECODE\<rparr>), sv_active := pid\<rparr>) w;
          Some (svc2\<lparr>sv_active := 0\<rparr>, w2) }"
proof -
  let ?ws = "call_words xid p v proc cred verf"
  have "i < 10 \<Longrightarrow> load32 (in_msg (arrive x (be32s ?ws @ args))) i = Some (?ws ! i)" for i
    using assms by (intro load_header) auto
  from this [of 1] this [of 3] this [of 4] this [of 5] show ?thesis
    using assms(1,4,5) by (simp add: svc_dispatch_def call_words_def)
qed

lemma arrive_args:
  assumes "xdr_ok x" "length args \<le> 2008"
    and y: "y = arrive x (be32s (call_words xid p v proc cred verf) @ args)
             \<lparr>in_next := 40, x_op := XDR_DECODE\<rparr>"
  shows "xdr_ok y" "in_rest y = args" "x_op y = XDR_DECODE"
    "load32 (in_msg y) 0 = Some xid" "x_fd y = x_fd x" "out_msg y = out_msg x"
  using assms(1,2) load_header [of 0 "call_words xid p v proc cred verf" x args]
  by (auto simp: y xdr_ok_def arrive_def in_rest_def call_words_def auth_words_def)

text \<open>Overwriting the first word of a message under construction.\<close>

lemma restamp:
  assumes "xdr_ok x" "out_bytes x = be32 a @ rest"
  obtains m where "store32 (out_msg x) 0 v = Some m" "xdr_ok (x\<lparr>out_msg := m\<rparr>)"
    "out_bytes (x\<lparr>out_msg := m\<rparr>) = be32 v @ rest"
proof
  let ?m = "be32 v @ drop 4 (out_msg x)"
  show "store32 (out_msg x) 0 v = Some ?m"
    using assms(1) by (simp add: store32_def mem_write_def xdr_ok_def)
  show "xdr_ok (x\<lparr>out_msg := ?m\<rparr>)"
    using assms(1) by (auto simp: xdr_ok_def)
  obtain n where n: "out_next x = int n"
    using assms(1) by (metis nat_0_le xdr_ok_def)
  have "n = length (out_bytes x)" using assms(1) n by (simp add: length_out_bytes)
  then have "4 \<le> n" using assms(2) by simp
  moreover have "drop 4 (out_bytes x) = rest" using assms(2) by simp
  then have "take (n - 4) (drop 4 (out_msg x)) = rest"
    by (simp add: out_bytes_def n drop_take)
  ultimately show "out_bytes (x\<lparr>out_msg := ?m\<rparr>) = be32 v @ rest"
    by (simp add: out_bytes_def n)
qed

lemma svc_sendreply_entry:
  assumes codec: "xdr_codec proc enc good dst" and act: "sv_active serv \<noteq> 0"
    and x0: "sv_xdr serv = Some x0" "xdr_ok x0" "load32 (in_msg x0) 0 = Some xid"
    and v: "good v" "length (enc v) \<le> 2024"
  shows "\<exists>x3. x_fd x3 = x_fd x0 \<and> svc_sendreply K serv proc v w =
     (case k_write K (x_fd x0)
             (be32s [xid, RPC_MSG_REPLY, RPC_MSG_ACCEPTED, AUTH_NONE, 0, RPC_ACCEPT_SUCCESS] @ enc v) w
      of (rc, w1) \<Rightarrow> Some (True, serv\<lparr>sv_xdr := Some x3\<rparr>, w1))"
proof -
  let ?x = "x0\<lparr>x_op := XDR_ENCODE\<rparr>"
  let ?hdr = "[x_xid x0, RPC_MSG_REPLY, RPC_MSG_ACCEPTED, AUTH_NONE, 0, RPC_ACCEPT_SUCCESS]"
  let ?x1 = "put (rewind ?x) (be32s ?hdr)"
  let ?x2 = "put ?x1 (enc v)"
  have start: "xdr_reply_msg_start ?x \<lparr>oa_flavor = AUTH_NONE, oa_base = None, oa_length = 0\<rparr>
      = Some (True, ?x1)"
    using x0(2) by (simp add: reply_msg_start_put auth_words_def del: be32s_simps)
  have ok1: "xdr_ok ?x1" using x0(2) by (intro xdr_ok_put xdr_ok_rewind) auto
  have room1: "room ?x1 = 2024" by (simp add: room_def)
  have body: "proc ?x1 v = Some (True, ?x2, v)" and ok2: "xdr_ok ?x2"
    using xdr_codec.encode [OF codec ok1] xdr_codec.encode_ok [OF codec ok1] v room1 by auto
  have out2: "out_bytes ?x2 = be32 (x_xid x0) @ be32s (tl ?hdr) @ enc v"
    using x0(2) ok1 room1 v by (simp add: out_bytes_put xdr_ok_rewind)
  obtain m where m: "store32 (out_msg ?x2) 0 xid = Some m" "xdr_ok (?x2\<lparr>out_msg := m\<rparr>)"
    "out_bytes (?x2\<lparr>out_msg := m\<rparr>) = be32 xid @ be32s (tl ?hdr) @ enc v"
    using restamp [OF ok2 out2] by metis
  have "xdr_std_msg_send K (?x2\<lparr>out_msg := m\<rparr>) w =
     (case k_write K (x_fd x0) (be32s (xid # tl ?hdr) @ enc v) w of
        (rc, w1) \<Rightarrow> Some (rc = out_next ?x2, w1))"
    using msg_send_writes [OF m(2)] m(3) by simp
  with start body m(1) act x0(1,3) show ?thesis
    by (intro exI [of _ "?x2\<lparr>out_msg := m\<rparr>"])
      (simp add: svc_sendreply_def split: prod.split del: be32s_simps put_select(12))
qed

lemma svc_sendreply_writes:
  assumes "xdr_codec proc enc good dst" "sv_active serv \<noteq> 0"
    "sv_xdr serv = Some x0" "xdr_ok x0" "load32 (in_msg x0) 0 = Some xid" "good v" "length (enc v) \<le> 2024"
  shows "\<exists>serv'. svc_sendreply K serv proc v w =
     (case k_write K (x_fd x0)
             (be32s [xid, RPC_MSG_REPLY, RPC_MSG_ACCEPTED, AUTH_NONE, 0, RPC_ACCEPT_SUCCESS] @ enc v) w
      of (rc, w1) \<Rightarrow> Some (True, serv', w1))"
  using svc_sendreply_entry [OF assms, of K w] by (auto split: prod.splits)

text \<open>An error reply: the identifier in its first word is the handle's counter, not the call's.\<close>

lemma svcerr_writes:
  assumes act: "sv_active serv \<noteq> 0" and x0: "sv_xdr serv = Some x0" "xdr_ok x0"
    and st: "st \<in> {RPC_GARBAGE_ARGS, RPC_SYSTEM_ERR, RPC_PROC_UNAVAIL}" and verf: "oa_length (x_verf x0) = 0"
  shows "\<exists>serv'. svcerr K st serv w =
     (case k_write K (x_fd x0)
             (be32s [x_xid x0, RPC_MSG_REPLY, RPC_MSG_ACCEPTED, oa_flavor (x_verf x0), 0, st]) w
      of (rc, w1) \<Rightarrow> Some (serv', w1))"
proof -
  let ?r = "accepted (x_verf x0) st"
  let ?ws = "[x_xid x0, RPC_MSG_REPLY, RPC_MSG_ACCEPTED, oa_flavor (x_verf x0), 0, st]"
  have wf: "wf_reply ?r" using st verf by (auto simp: wf_reply_def accepted_def rpc_enum_defs)
  have words: "[x_xid x0, RPC_MSG_REPLY] @ reply_words ?r = ?ws"
    using st by (auto simp: reply_words_def accepted_def auth_words_def rpc_enum_defs)
  have start: "xdr_std_msg_start x0 RPC_MSG_REPLY = Some (True, put (rewind x0) (be32s [x_xid x0, RPC_MSG_REPLY]))"
    using x0(2) by (simp add: msg_start_put Let_def RPC_MSG_CALL_def RPC_MSG_REPLY_def)
  have hdr: "xdr_send_reply_header (put (rewind x0) (be32s [x_xid x0, RPC_MSG_REPLY])) ?r
      = Some (True, put (rewind x0) (be32s ?ws))"
    using send_reply_header_put [OF xdr_ok_rewind [OF x0(2)] wf, of "[x_xid x0, RPC_MSG_REPLY]"] words
    by simp
  have ok: "xdr_ok (put (rewind x0) (be32s ?ws))"
    using x0(2) by (intro xdr_ok_put xdr_ok_rewind) auto
  have "out_bytes (put (rewind x0) (be32s ?ws)) = be32s ?ws"
    using x0(2) by (simp add: out_bytes_put xdr_ok_rewind)
  with ok have "xdr_std_msg_send K (put (rewind x0) (be32s ?ws)) w =
     (case k_write K (x_fd x0) (be32s ?ws) w of (rc, w1) \<Rightarrow> Some (rc = 24, w1))"
    by (simp add: msg_send_writes)
  with start hdr act x0(1) show ?thesis
    by (simp add: svcerr_def SVCERR_XDR_SEND_def split: prod.split del: be32s_simps)
qed

subsection \<open>Properties\<close>

text \<open>
  C15: registering a server succeeds or fails without undefined behaviour whenever memory and a
  descriptor below \<open>FD_SETSIZE\<close> are available; afterwards the transport is well-formed, on
  success the program and version are found with the dispatch function given, on failure nothing
  changed, and no other registration is affected.
\<close>

theorem svc_register_correct:
  assumes inv: "svc_inv xp" and mem: "k_calloc K w"
    and fd: "fst (k_open K ''/dev/oncrpc/00000000:0'' w) < 1024"
    and fresh: "fst (k_open K ''/dev/oncrpc/00000000:0'' w) \<notin> fdset xp"
  shows "\<exists>ok xp' w'. svc_register K junk xp p v d w = Some (ok, xp', w') \<and> svc_inv xp' \<and>
     (if ok then \<exists>s. svc_find xp' p v = Some s \<and> sv_dispatch s = d else xp' = xp) \<and>
     (\<forall>q u. (q, u) \<noteq> (p, v) \<longrightarrow> svc_find xp' q u = svc_find xp q u)"
proof -
  have "\<exists>ok xp' w'. svc_register K junk xp p v d w = Some (ok, xp', w')"
    using mem fd by (auto simp: svc_register_def xdr_init_common_def r_open_def FD_SET_def Let_def
        xdr_zero_def split: option.split prod.split)
  then obtain ok xp' w' where r: "svc_register K junk xp p v d w = Some (ok, xp', w')" by blast
  show ?thesis
  proof (cases "ok \<and> svc_find xp p v = None")
    case True
    then obtain s where s: "svc_key s = (p, v)" "sv_dispatch s = d" "servers xp' = s # servers xp"
      "num_servers xp' = num_servers xp + 1"
      and x: "sv_xdr s = None \<and> is_callback p \<and> fdset xp' = fdset xp \<and> max_fd xp' = max_fd xp \<or>
       (\<exists>x. sv_xdr s = Some x \<and> \<not> is_callback p \<and> fdset xp' = insert (x_fd x) (fdset xp) \<and>
          max_fd xp' = max (max_fd xp) (x_fd x) \<and> 0 \<le> x_fd x \<and> x_fd x < 1024 \<and>
          x_fd x = fst (k_open K ''/dev/oncrpc/00000000:0'' w))"
      using r by (auto elim: svc_register_Some)
    have "svc_inv xp'"
      using True s x fresh by (intro svc_inv_link [OF inv, of s]) (auto simp: svc_key_def)
    moreover have "svc_find xp' q u = (if (q, u) = (p, v) then Some s else svc_find xp q u)" for q u
      using rg.find_add [where s = "servers xp" and k = "(p, v)" and v = s and j = "(q, u)"] inv s True
      by (simp add: svc_find_list svc_inv_def)
    ultimately show ?thesis using r s True by auto
  next
    case False
    then have "xp' = xp \<and> (ok \<longrightarrow> (\<exists>s. svc_find xp p v = Some s \<and> sv_dispatch s = d))"
      using r svc_register_False [of K junk xp p v d w xp' w']
      by (cases "svc_find xp p v") (auto simp: svc_register_found)
    with r inv show ?thesis by auto
  qed
qed

theorem svc_register_correct_witness:
  "\<exists>ok xp' w'. svc_register demo_kernel 0 xprt_zero 0x3000005B 1 7 demo_world = Some (ok, xp', w') \<and>
     svc_inv xp' \<and>
     (if ok then \<exists>s. svc_find xp' 0x3000005B 1 = Some s \<and> sv_dispatch s = 7 else xp' = xprt_zero) \<and>
     (\<forall>q u. (q, u) \<noteq> (0x3000005B, 1) \<longrightarrow> svc_find xp' q u = svc_find xprt_zero q u)"
  by (rule svc_register_correct [OF svc_inv_zero])
    (simp_all add: demo_kernel_def demo_world_def xprt_zero_def)

text \<open>
  Unregistering a server is free of undefined behaviour on a well-formed transport and keeps it
  well-formed; the program and version are not found any more and every other registration is
  found as before.
\<close>

theorem svc_unregister_correct:
  assumes "svc_inv xp"
  shows "\<exists>xp' w'. svc_unregister K xp p v w = Some (xp', w') \<and> svc_inv xp' \<and>
     (\<forall>q u. svc_find xp' q u = (if (q, u) = (p, v) then None else svc_find xp q u))"
proof -
  obtain xp' w' where u: "svc_unregister K xp p v w = Some (xp', w')" "svc_inv xp'"
    "servers xp' = list_del (p, v) (servers xp)"
    using svc_unregister_spec [OF assms, of K p v w] by blast
  moreover have "svc_find xp' q u = (if (q, u) = (p, v) then None else svc_find xp q u)" for q u
    using rg.find_del [where s = "servers xp" and k = "(p, v)" and j = "(q, u)"] assms u(3)
    by (simp add: svc_find_list svc_inv_def)
  ultimately show ?thesis by blast
qed

definition demo_server :: SVCXPRT where
  "demo_server = xprt_zero\<lparr>servers := [\<lparr>sv_xdr = None, sv_prog = 0x3100005B, sv_vers = 1, sv_active = 0,
     sv_dispatch = 7\<rparr>], num_servers := 1\<rparr>"

theorem svc_unregister_correct_witness:
  "\<exists>xp' w'. svc_unregister demo_kernel demo_server 0x3100005B 1 demo_world = Some (xp', w') \<and>
     svc_inv xp' \<and> (\<forall>q u. svc_find xp' q u =
       (if (q, u) = (0x3100005B, 1) then None else svc_find demo_server q u))"
  by (rule svc_unregister_correct)
    (simp add: svc_inv_def demo_server_def xprt_zero_def is_callback_def svc_key_def)

text \<open>
  The service loop reads the descriptor of every entry it passes: a callback entry, which has
  no handle, in front of the server whose descriptor is ready makes it dereference a null pointer.
\<close>

theorem svc_service_callback_null:
  assumes "servers xp = before @ cb # after" "sv_xdr cb = None"
    and "\<forall>s \<in> set before. \<exists>x. sv_xdr s = Some x \<and> x_fd x \<noteq> n"
  shows "svc_service K call pid n (servers xp) w = None"
proof -
  have "svc_service K call pid n (before @ cb # after) w = None"
    using assms(2,3) by (induction before) auto
  with assms(1) show ?thesis by simp
qed

theorem svc_service_callback_null_witness:
  "svc_service demo_kernel (\<lambda>_ _ s w. Some (s, w)) 1 3 (servers demo_server) demo_world = None"
  by (rule svc_service_callback_null [where before = "[]" and after = "[]" and cb = "hd (servers demo_server)"])
    (simp_all add: demo_server_def)

end
