(* ===== verification/Clnt.thy ===== *)
theory Clnt
  imports Svc
begin

text \<open>
  The client side, \<open>librpc/clnt.c\<close>: the list of clients, a call and its two halves around
  \<open>pthread_cond_wait\<close>, the callback thread and the receiver thread.

  The sequential model follows one call: what other threads do to the client while the caller waits
  for its reply is the parameter \<open>wait\<close>. The concurrent model puts the steps of the three
  threads of a client (receiver, caller, callback thread) into one relation, at the granularity the
  mutexes of the code allow.
\<close>

subsection \<open>Data\<close>

definition RPC_SUCCESS :: u32 where "RPC_SUCCESS = 0"
definition RPC_CANTENCODEARGS :: u32 where "RPC_CANTENCODEARGS = 1"
definition RPC_CANTDECODERES :: u32 where "RPC_CANTDECODERES = 2"
definition RPC_CANTSEND :: u32 where "RPC_CANTSEND = 3"
definition RPC_CANTRECV :: u32 where "RPC_CANTRECV = 4"
definition RPC_VERSMISMATCH :: u32 where "RPC_VERSMISMATCH = 6"
definition RPC_AUTHERROR :: u32 where "RPC_AUTHERROR = 7"
definition RPC_UNKNOWNHOST :: u32 where "RPC_UNKNOWNHOST = 13"

lemmas clnt_stat_defs =
  RPC_SUCCESS_def RPC_CANTENCODEARGS_def RPC_CANTDECODERES_def RPC_CANTSEND_def RPC_CANTRECV_def
  RPC_VERSMISMATCH_def RPC_AUTHERROR_def RPC_UNKNOWNHOST_def

text \<open>The fields of \<open>struct CLIENT\<close>; its mutexes appear in the step relation below.\<close>

record CLIENT =
  cl_xdr :: xdr_s_type
  input_xdr_busy :: bool
  got_cb :: bool
  cb_stop :: int

text \<open>The static variables of the file. A client is known by its address.\<close>

record clnt_globals =
  clients :: "(nat \<times> CLIENT) list"
  num_clients :: u32
  rx_fdset :: "int set"
  max_rxfd :: int
  rx_threads :: nat

definition clnt_globals_zero :: clnt_globals where
  "clnt_globals_zero = \<lparr>clients = [], num_clients = 0, rx_fdset = {}, max_rxfd = 0, rx_threads = 0\<rparr>"

subsection \<open>Creation and destruction\<close>

definition hex_digit :: "u32 \<Rightarrow> char" where
  "hex_digit d = ''0123456789abcdef'' ! unat (d AND 15)"

text \<open>\<open>%08x\<close>\<close>

definition hex8 :: "u32 \<Rightarrow> string" where
  "hex8 w = map (\<lambda>i. hex_digit (drop_bit (4 * i) w)) [7, 6, 5, 4, 3, 2, 1, 0]"

definition clnt_vers :: "u32 \<Rightarrow> u32" where
  "clnt_vers vers =
     (if vers \<noteq> 0x20002 \<and> vers AND 0xFFF00000 = 0 then vers AND 0xFFFF0000 else vers)"

definition clnt_name :: "u32 \<Rightarrow> u32 \<Rightarrow> string" where
  "clnt_name prog vers = ''/dev/oncrpc/'' @ hex8 prog @ '':'' @ hex8 vers"

text \<open>\<open>addr\<close> is the block \<open>calloc\<close> returned, \<open>None\<close> when it failed.\<close>

definition clnt_create ::
  "'w kernel \<Rightarrow> nat option \<Rightarrow> u32 \<Rightarrow> u32 \<Rightarrow> clnt_globals \<Rightarrow> 'w
   \<Rightarrow> (nat option \<times> clnt_globals \<times> 'w) option" where
  "clnt_create K addr prog vers0 g w =
     (case addr of
        None \<Rightarrow> Some (None, g, w)
      | Some a \<Rightarrow>
          let vers = clnt_vers vers0 in
          do { (xo, w1) \<leftarrow> xdr_init_common K (clnt_name prog vers) True w;
               case xo of
                 None \<Rightarrow> Some (None, g, w1)
               | Some x \<Rightarrow>
                   let client = \<lparr>cl_xdr = x\<lparr>x_prog := prog, x_vers := vers\<rparr>, input_xdr_busy = False,
                                 got_cb = False, cb_stop = -1\<rparr>;
                       g1 = (if num_clients g = 0 then g\<lparr>rx_fdset := {}, max_rxfd := 0\<rparr> else g)
                   in do { fs \<leftarrow> FD_SET (x_fd x) (rx_fdset g1);
                           let g2 = g1\<lparr>rx_fdset := fs,
                                       max_rxfd := (if max_rxfd g1 < x_fd x then x_fd x else max_rxfd g1),
                                       clients := (a, client) # clients g1,
                                       num_clients := num_clients g1 + 1,
                                       rx_threads := (if num_clients g1 = 0 then rx_threads g1 + 1
                                                      else rx_threads g1)\<rparr>;
                           Some (Some a, g2, w1) } })"

text \<open>
  The loop that unlinks a client returns the remaining list and whether the client was in it. Joining the callback
  thread and the receiver thread changes no data; the receiver thread is gone after its join.
\<close>

fun clnt_unlink :: "nat \<Rightarrow> (nat \<times> CLIENT) list \<Rightarrow> (nat \<times> CLIENT) list \<times> bool" where
  "clnt_unlink a [] = ([], False)"
| "clnt_unlink a (trav # next) =
     (if fst trav = a then (next, True)
      else (case clnt_unlink a next of (l, found) \<Rightarrow> (trav # l, found)))"

definition clnt_destroy ::
  "'w kernel \<Rightarrow> (nat \<times> CLIENT) option \<Rightarrow> clnt_globals \<Rightarrow> 'w \<Rightarrow> (clnt_globals \<times> 'w) option" where
  "clnt_destroy K clnt g w =
     (case clnt of
        None \<Rightarrow> Some (g, w)
      | Some (a, client) \<Rightarrow>
          do { g1 \<leftarrow> (case clnt_unlink a (clients g) of
                         (l, True) \<Rightarrow>
                           do { fs \<leftarrow> FD_CLR (x_fd (cl_xdr client)) (rx_fdset g);
                                Some (g\<lparr>clients := l, num_clients := num_clients g - 1, rx_fdset := fs\<rparr>) }
                       | (l, False) \<Rightarrow> Some g);
               let g2 = (if num_clients g1 = 0 then g1\<lparr>rx_threads := 0\<rparr> else g1);
               Some (g2, xdr_destroy_common K (cl_xdr client) w) })"

subsection \<open>A call\<close>

text \<open>
  Up to \<open>XDR_MSG_SEND\<close>. \<open>Inl ret\<close> is an early exit with that status; \<open>Inr ()\<close> goes on
  to wait for the reply.
\<close>

definition clnt_call_send ::
  "'w kernel \<Rightarrow> CLIENT \<Rightarrow> u32 \<Rightarrow> 'a xdrproc \<Rightarrow> 'a \<Rightarrow> 'w \<Rightarrow> ((u32 + unit) \<times> CLIENT \<times> 'w) option" where
  "clnt_call_send K client proc xdr_args args w =
     do { let auth = \<lparr>oa_flavor = AUTH_NONE, oa_base = None, oa_length = 0\<rparr>;
          let x = (cl_xdr client)\<lparr>x_op := XDR_ENCODE\<rparr>;
          (b1, x1) \<leftarrow> xdr_call_msg_start x (x_prog x) (x_vers x) proc auth auth;
          if \<not> b1 then Some (Inl RPC_CANTENCODEARGS, client\<lparr>cl_xdr := x1\<rparr>, w)
          else
            do { (b2, x2, _) \<leftarrow> xdr_args x1 args;
                 if \<not> b2 then Some (Inl RPC_CANTENCODEARGS, client\<lparr>cl_xdr := x2\<rparr>, w)
                 else
                   do { (b3, w1) \<leftarrow> xdr_std_msg_send K x2 w;
                        if \<not> b3 then
                          Some (Inl RPC_CANTSEND, client\<lparr>cl_xdr := x2, input_xdr_busy := False\<rparr>, w1)
                        else Some (Inr (), client\<lparr>cl_xdr := x2\<rparr>, w1) } } }"

text \<open>From the wake-up on; \<open>junk\<close> is the uninitialised \<open>reply_header\<close> and \<open>clnt_call_out\<close> the
  code at the label \<open>out_unlock\<close>.\<close>

definition clnt_call_out :: "CLIENT \<Rightarrow> u32 \<Rightarrow> xdr_s_type \<Rightarrow> 'b \<Rightarrow> (u32 \<times> CLIENT \<times> 'b) option" where
  "clnt_call_out client ret x rets = Some (ret, client\<lparr>cl_xdr := x, input_xdr_busy := False\<rparr>, rets)"

definition clnt_call_recv ::
  "CLIENT \<Rightarrow> 'b xdrproc \<Rightarrow> 'b \<Rightarrow> rpc_reply_header \<Rightarrow> (u32 \<times> CLIENT \<times> 'b) option" where
  "clnt_call_recv client xdr_results rets junk =
     do { let x = cl_xdr client;
          xid_out \<leftarrow> load32 (out_msg x) 0;
          xid_in \<leftarrow> load32 (in_msg x) 0;
          if xid_out \<noteq> xid_in then clnt_call_out client RPC_CANTRECV x rets
          else
            do { (b1, x1, h) \<leftarrow> xdr_recv_reply_header x junk;
                 if \<not> b1 then clnt_call_out client RPC_CANTRECV x1 rets
                 else if rh_stat h \<noteq> RPC_MSG_ACCEPTED then
                   clnt_call_out client (dr_stat (rh_dr h) + RPC_VERSMISMATCH) x1 rets
                 else if ar_stat (rh_ar h) \<noteq> RPC_ACCEPT_SUCCESS then
                   clnt_call_out client (ar_stat (rh_ar h) + RPC_AUTHERROR) x1 rets
                 else
                   do { (b2, x2, rets2) \<leftarrow> xdr_results (x1\<lparr>x_op := XDR_DECODE\<rparr>) rets;
                        if \<not> b2 \<or> \<not> xdr_std_msg_done x2 then clnt_call_out client RPC_CANTDECODERES x2 rets2
                        else clnt_call_out client RPC_SUCCESS x2 rets2 } } }"

definition clnt_call ::
  "'w kernel \<Rightarrow> (CLIENT \<Rightarrow> 'w \<Rightarrow> (CLIENT \<times> 'w) option) \<Rightarrow> CLIENT \<Rightarrow> u32 \<Rightarrow> 'a xdrproc \<Rightarrow> 'a
   \<Rightarrow> 'b xdrproc \<Rightarrow> 'b \<Rightarrow> rpc_reply_header \<Rightarrow> 'w \<Rightarrow> (u32 \<times> CLIENT \<times> 'b \<times> 'w) option" where
  "clnt_call K wait client proc xdr_args args xdr_results rets junk w =
     do { (r, c1, w1) \<leftarrow> clnt_call_send K client proc xdr_args args w;
          case r of
            Inl ret \<Rightarrow> Some (ret, c1, rets, w1)
          | Inr _ \<Rightarrow>
              do { (c2, w2) \<leftarrow> wait c1 w1;
                   (ret, c3, rets3) \<leftarrow> clnt_call_recv c2 xdr_results rets junk;
                   Some (ret, c3, rets3, w2) } }"

subsection \<open>The receiver thread\<close>

text \<open>
  A packet is read once the input buffer is free. \<open>Inl\<close> is \<open>abort()\<close>. \<open>rx_deliver\<close> is the
  second half: a reply wakes the caller (the result says so), anything else is left for the
  callback thread, which is started if it does not run yet.
\<close>

definition rx_read :: "'w kernel \<Rightarrow> CLIENT \<Rightarrow> 'w \<Rightarrow> (unit + CLIENT \<times> 'w) option" where
  "rx_read K client w =
     do { (ok, x, w1) \<leftarrow> xdr_std_read K (cl_xdr client) w;
          if \<not> ok then Some (Inl ())
          else Some (Inr (client\<lparr>cl_xdr := x, input_xdr_busy := True\<rparr>, w1)) }"

definition rx_deliver :: "CLIENT \<Rightarrow> (bool \<times> CLIENT) option" where
  "rx_deliver client =
     do { ty \<leftarrow> load32 (in_msg (cl_xdr client)) 1;
          if ty = RPC_MSG_REPLY then Some (True, client)
          else Some (False, client\<lparr>got_cb := True,
                                  cb_stop := (if cb_stop client < 0 then 0 else cb_stop client)\<rparr>) }"

text \<open>
  The pass over the client list after \<open>select\<close> returned the ready descriptors. The thread waits
  where a client's input buffer is still busy: the pass then ends in \<open>RxBlocked\<close> until that buffer
  is freed. The list of addresses are the clients whose caller was woken.
\<close>

datatype rx_outcome = RxDone | RxAbort | RxBlocked nat

fun rx_clients ::
  "'w kernel \<Rightarrow> int set \<Rightarrow> (nat \<times> CLIENT) list \<Rightarrow> 'w
   \<Rightarrow> (rx_outcome \<times> nat list \<times> (nat \<times> CLIENT) list \<times> 'w) option" where
  "rx_clients K rfds [] w = Some (RxDone, [], [], w)"
| "rx_clients K rfds ((a, client) # next) w =
     (if x_fd (cl_xdr client) \<in> rfds then
        if input_xdr_busy client then Some (RxBlocked a, [], (a, client) # next, w)
        else
          do { r \<leftarrow> rx_read K client w;
               case r of
                 Inl _ \<Rightarrow> Some (RxAbort, [], (a, client) # next, w)
               | Inr (c1, w1) \<Rightarrow>
                   do { (woken, c2) \<leftarrow> rx_deliver c1;
                        (out, ws, l, w2) \<leftarrow> rx_clients K rfds next w1;
                        Some (out, if woken then a # ws else ws, (a, c2) # l, w2) } }
      else
        do { (out, ws, l, w2) \<leftarrow> rx_clients K rfds next w;
             Some (out, ws, (a, client) # l, w2) })"

definition rx_context_round ::
  "'w kernel \<Rightarrow> int set \<Rightarrow> clnt_globals \<Rightarrow> 'w \<Rightarrow> (rx_outcome \<times> nat list \<times> clnt_globals \<times> 'w) option" where
  "rx_context_round K rfds g w =
     do { (out, ws, l, w1) \<leftarrow> rx_clients K rfds (clients g) w;
          Some (out, ws, g\<lparr>clients := l\<rparr>, w1) }"

subsection \<open>The callback thread\<close>

text \<open>
  One round of \<open>cb_context\<close> with \<open>got_cb\<close> set, up to the point where the input buffer is
  marked free: the client's handle is copied into the entry found for the packet. The result
  tells which entry is to be dispatched; \<open>None\<close> inside \<open>Some\<close> means that there is no
  transport or no entry, and then the input buffer stays marked as busy.
\<close>

definition replace_entry ::
  "u32 \<Rightarrow> u32 \<Rightarrow> registered_server \<Rightarrow> registered_server list \<Rightarrow> registered_server list" where
  "replace_entry prog vers s l =
     (case svc_find_nosync l prog vers of
        (before, []) \<Rightarrow> l | (before, _ # after) \<Rightarrow> before @ s # after)"

definition cb_clone ::
  "'w kernel \<Rightarrow> xdr_s_type \<Rightarrow> u32 \<Rightarrow> u32 \<Rightarrow> 'w \<Rightarrow> (xdr_s_type \<times> 'w) option" where
  "cb_clone K x prog vers w =
     do { (yo, w1) \<leftarrow> xdr_clone K x w;
          y \<leftarrow> yo;
          bin \<leftarrow> mem_read (in_msg x) 0 (nat (in_len x));
          m_in \<leftarrow> mem_write (in_msg y) 0 bin;
          bout \<leftarrow> mem_read (out_msg x) 0 (nat (out_next x));
          m_out \<leftarrow> mem_write (out_msg y) 0 bout;
          Some (y\<lparr>x_prog := prog, x_vers := vers, in_msg := m_in, out_msg := m_out,
                  in_len := in_len x, out_next := out_next x\<rparr>, w1) }"

definition cb_take ::
  "'w kernel \<Rightarrow> SVCXPRT option \<Rightarrow> CLIENT \<Rightarrow> 'w
   \<Rightarrow> ((u32 \<times> u32) option \<times> SVCXPRT option \<times> CLIENT \<times> 'w) option" where
  "cb_take K xprt client0 w =
     (let client = client0\<lparr>got_cb := False\<rparr>; x = cl_xdr client in
      case xprt of
        None \<Rightarrow> Some (None, xprt, client, w)
      | Some xp \<Rightarrow>
          do { prog \<leftarrow> load32 (in_msg x) 3;
               vers \<leftarrow> load32 (in_msg x) 4;
               case svc_find xp prog vers of
                 None \<Rightarrow> Some (None, xprt, client, w)
               | Some svc \<Rightarrow>
                   do { let w1 = (case sv_xdr svc of None \<Rightarrow> w | Some old \<Rightarrow> xdr_destroy_common K old w);
                        (y, w2) \<leftarrow> cb_clone K x prog vers w1;
                        let xp1 = xp\<lparr>servers := replace_entry prog vers (svc\<lparr>sv_xdr := Some y\<rparr>)
                                                 (servers xp)\<rparr>;
                        Some (Some (prog, vers), Some xp1, client\<lparr>input_xdr_busy := False\<rparr>, w2) } })"

text \<open>The rest of the round: the call is dispatched and the copied handle destroyed.\<close>

definition cb_dispatch ::
  "'w kernel \<Rightarrow> (nat \<Rightarrow> 'w dispatch_fn) \<Rightarrow> int \<Rightarrow> u32 \<Rightarrow> u32 \<Rightarrow> SVCXPRT \<Rightarrow> 'w
   \<Rightarrow> (SVCXPRT \<times> 'w) option" where
  "cb_dispatch K call pid prog vers xp w =
     do { svc \<leftarrow> svc_find xp prog vers;
          (svc1, w1) \<leftarrow> svc_dispatch call pid svc w;
          y \<leftarrow> sv_xdr svc1;
          Some (xp\<lparr>servers := replace_entry prog vers (svc1\<lparr>sv_xdr := None\<rparr>) (servers xp)\<rparr>,
                xdr_destroy_common K y w1) }"

subsection \<open>Lemmas: the two halves of a call\<close>

definition no_auth :: opaque_auth where
  "no_auth = \<lparr>oa_flavor = AUTH_NONE, oa_base = None, oa_length = 0\<rparr>"

text \<open>The packet of a call and of a successful reply.\<close>

definition call_packet :: "xdr_s_type \<Rightarrow> u32 \<Rightarrow> u8 list \<Rightarrow> u8 list" where
  "call_packet x proc args =
     be32s (call_words (x_xid x + 1) (x_prog x) (x_vers x) proc no_auth no_auth) @ args"

definition reply_packet :: "u32 \<Rightarrow> u8 list \<Rightarrow> u8 list" where
  "reply_packet xid res =
     be32s [xid, RPC_MSG_REPLY, RPC_MSG_ACCEPTED, AUTH_NONE, 0, RPC_ACCEPT_SUCCESS] @ res"

definition sent_xdr :: "xdr_s_type \<Rightarrow> u32 \<Rightarrow> u8 list \<Rightarrow> xdr_s_type" where
  "sent_xdr x proc args =
     put (rewind (x\<lparr>x_op := XDR_ENCODE, x_proc := proc, x_xid := x_xid x + 1\<rparr>)) (call_packet x proc args)"

lemma length_packet [simp]:
  "length (call_packet x proc args) = 40 + length args"
  "length (reply_packet xid res) = 24 + length res"
  by (simp_all add: call_packet_def reply_packet_def)

lemma sent_xdr_ok:
  assumes "xdr_ok x" "length args \<le> 2008" "length args mod 4 = 0"
  shows "xdr_ok (sent_xdr x proc args)" "out_bytes (sent_xdr x proc args) = call_packet x proc args"
    "out_next (sent_xdr x proc args) = int (40 + length args)" "x_fd (sent_xdr x proc args) = x_fd x"
    "load32 (out_msg (sent_xdr x proc args)) 0 = Some (x_xid x + 1)"
proof -
  have ok: "xdr_ok (rewind (x\<lparr>x_op := XDR_ENCODE, x_proc := proc, x_xid := x_xid x + 1\<rparr>))"
    using assms(1) by (intro xdr_ok_rewind) simp
  have "(40 + length args) mod 4 = 0" using assms(3) by presburger
  with ok assms(2) show "xdr_ok (sent_xdr x proc args)"
    by (auto simp: sent_xdr_def intro!: xdr_ok_put)
  show "out_bytes (sent_xdr x proc args) = call_packet x proc args"
    using ok assms(2) by (simp add: sent_xdr_def out_bytes_put)
  have "out_msg (sent_xdr x proc args) = be32 (x_xid x + 1) @
      drop 4 (call_packet x proc args) @ drop (40 + length args) (out_msg x)"
    by (simp add: sent_xdr_def put_def call_packet_def call_words_def auth_words_def)
  then show "load32 (out_msg (sent_xdr x proc args)) 0 = Some (x_xid x + 1)"
    by (simp add: load32_def mem_read_def)
qed (simp_all add: sent_xdr_def)

lemma clnt_call_send_writes:
  assumes enc: "encodes proc a e" and ok: "xdr_ok (cl_xdr c)" and len: "length e \<le> 2008"
    and wr: "k_write K (x_fd (cl_xdr c)) (call_packet (cl_xdr c) p e) w = (rc, w1)"
  shows "clnt_call_send K c p proc a w =
     (if rc = int (40 + length e) then Some (Inr (), c\<lparr>cl_xdr := sent_xdr (cl_xdr c) p e\<rparr>, w1)
      else Some (Inl RPC_CANTSEND,
             c\<lparr>cl_xdr := sent_xdr (cl_xdr c) p e, input_xdr_busy := False\<rparr>, w1))"
proof -
  let ?x = "cl_xdr c"
  let ?e = "?x\<lparr>x_op := XDR_ENCODE\<rparr>"
  let ?y = "rewind (?x\<lparr>x_op := XDR_ENCODE, x_proc := p, x_xid := x_xid ?x + 1\<rparr>)"
  let ?ws = "call_words (x_xid ?x + 1) (x_prog ?x) (x_vers ?x) p no_auth no_auth"
  have oky: "xdr_ok ?y" using ok by (intro xdr_ok_rewind) simp
  have e: "?e\<lparr>x_prog := x_prog ?e, x_proc := p, x_xid := x_xid ?e + 1\<rparr> =
      ?x\<lparr>x_op := XDR_ENCODE, x_proc := p, x_xid := x_xid ?x + 1\<rparr>" by simp
  have start: "xdr_call_msg_start ?e (x_prog ?e) (x_vers ?e) p no_auth no_auth
      = Some (True, put ?y (be32s ?ws))"
    using ok e by (subst call_msg_start_put) (auto simp: no_auth_def)
  have ok1: "xdr_ok (put ?y (be32s ?ws))" using oky by (intro xdr_ok_put) auto
  have "proc (put ?y (be32s ?ws)) a = Some (True, put (put ?y (be32s ?ws)) e, a)"
    using enc ok1 len oky by (simp add: encodes_def)
  also have "put (put ?y (be32s ?ws)) e = sent_xdr ?x p e"
    using oky len by (simp add: put_put sent_xdr_def call_packet_def)
  finally have body: "proc (put ?y (be32s ?ws)) a = Some (True, sent_xdr ?x p e, a)" .
  have al: "length e mod 4 = 0" using enc by (simp add: encodes_def)
  have "xdr_std_msg_send K (sent_xdr ?x p e) w = Some (rc = int (40 + length e), w1)"
    using sent_xdr_ok [OF ok len al, of p] wr by (simp add: msg_send_writes)
  with start body show ?thesis
    by (simp add: clnt_call_send_def Let_def no_auth_def [symmetric])
qed

lemma load_first:
  assumes "xdr_ok x" "length bs \<le> 2044"
  shows "load32 (in_msg (arrive x (be32 v @ bs))) 0 = Some v"
  using load32_arrive [of x 0 "be32 v @ bs"] assms by simp

text \<open>The reply header that arrived decides the status.\<close>

lemma clnt_call_recv_header:
  assumes ok: "xdr_ok x" and wf: "wf_reply h" and len: "length bs + 4 * length (reply_words h) \<le> 2040"
    and out: "load32 (out_msg x) 0 = Some xid"
    and c: "cl_xdr c = arrive x (be32s ([xid, RPC_MSG_REPLY] @ reply_words h) @ bs)"
  shows "\<exists>h'. reply_words h' = reply_words h \<and> wf_reply h' \<and>
    xdr_recv_reply_header (cl_xdr c) junk = Some (True, adv (cl_xdr c) (4 * length (reply_words h)), h') \<and>
    xdr_ok (adv (cl_xdr c) (4 * length (reply_words h))) \<and>
    in_rest (adv (cl_xdr c) (4 * length (reply_words h))) = bs"
proof -
  have okc: "xdr_ok (cl_xdr c)"
    unfolding c using ok len by (intro xdr_ok_arrive) auto
  have rest: "in_rest (cl_xdr c) = be32s (reply_words h) @ bs" by (simp add: c)
  from recv_reply_header_words [OF okc wf rest, of junk]
  obtain h' where h': "xdr_recv_reply_header (cl_xdr c) junk =
      Some (True, adv (cl_xdr c) (4 * length (reply_words h)), h')"
    "reply_words h' = reply_words h" "wf_reply h'" by blast
  moreover have "xdr_ok (adv (cl_xdr c) (4 * length (reply_words h)))"
    using okc rest by (intro xdr_ok_adv) auto
  moreover have "in_rest (adv (cl_xdr c) (4 * length (reply_words h))) = bs"
    using okc rest by (simp add: in_rest_adv)
  ultimately show ?thesis by blast
qed

lemma reply_words_status:
  assumes "reply_words h' = reply_words h" "wf_reply h'" "wf_reply h"
  shows "rh_stat h' = rh_stat h"
    "rh_stat h = RPC_MSG_ACCEPTED \<Longrightarrow> ar_stat (rh_ar h') = ar_stat (rh_ar h)"
    "rh_stat h \<noteq> RPC_MSG_ACCEPTED \<Longrightarrow> dr_stat (rh_dr h') = dr_stat (rh_dr h)"
  using assms by (auto simp: reply_words_def auth_words_def split: if_splits)

definition success_header :: rpc_reply_header where
  "success_header = accepted no_auth RPC_ACCEPT_SUCCESS"

lemma success_words:
  "be32s ([xid, RPC_MSG_REPLY] @ reply_words success_header) @ bs = reply_packet xid bs"
  "wf_reply success_header"
  by (simp_all add: success_header_def reply_packet_def reply_words_def accepted_def auth_words_def
      no_auth_def wf_reply_def rpc_enum_defs)

lemma clnt_call_recv_result:
  assumes dec: "decodes proc r0 e r" and ok: "xdr_ok x" and len: "length e \<le> 2024"
    and out: "load32 (out_msg x) 0 = Some xid"
    and c: "cl_xdr c = arrive x (reply_packet xid e)"
  shows "\<exists>x'. clnt_call_recv c proc r0 junk =
     Some (RPC_SUCCESS, c\<lparr>cl_xdr := x', input_xdr_busy := False\<rparr>, r) \<and>
     (length e mod 4 = 0 \<longrightarrow> xdr_ok x') \<and> x_prog x' = x_prog x \<and> x_vers x' = x_vers x \<and> x_fd x' = x_fd x"
proof -
  let ?n = "4 * length (reply_words success_header)"
  have c': "cl_xdr c = arrive x (be32s ([xid, RPC_MSG_REPLY] @ reply_words success_header) @ e)"
    using c success_words(1) by simp
  have "length e + ?n \<le> 2040"
    using len arg_cong [OF success_words(1) [of xid e], of length] by simp
  from clnt_call_recv_header [OF ok success_words(2) this out c', of junk]
  obtain h where h: "reply_words h = reply_words success_header" "wf_reply h"
    "xdr_recv_reply_header (cl_xdr c) junk = Some (True, adv (cl_xdr c) ?n, h)"
    "xdr_ok (adv (cl_xdr c) ?n)" "in_rest (adv (cl_xdr c) ?n) = e" by blast
  have st: "rh_stat h = RPC_MSG_ACCEPTED" "ar_stat (rh_ar h) = RPC_ACCEPT_SUCCESS"
    using reply_words_status [OF h(1,2) success_words(2)] by (auto simp: success_header_def accepted_def)
  have xin: "load32 (in_msg (cl_xdr c)) 0 = Some xid"
    using ok len by (simp add: c reply_packet_def load_first)
  have xout: "load32 (out_msg (cl_xdr c)) 0 = Some xid" using out by (simp add: c)
  have "proc ((adv (cl_xdr c) ?n)\<lparr>x_op := XDR_DECODE\<rparr>) r0
      = Some (True, adv ((adv (cl_xdr c) ?n)\<lparr>x_op := XDR_DECODE\<rparr>) (length e), r)"
    using h(4,5) dec by (simp add: decodes_def)
  moreover have "length e mod 4 = 0 \<Longrightarrow> xdr_ok (adv ((adv (cl_xdr c) ?n)\<lparr>x_op := XDR_DECODE\<rparr>) (length e))"
    using h(4,5) by (intro xdr_ok_adv) auto
  moreover have "x_prog (cl_xdr c) = x_prog x" "x_vers (cl_xdr c) = x_vers x" "x_fd (cl_xdr c) = x_fd x"
    by (simp_all add: c arrive_def)
  ultimately show ?thesis
    using h(3) st xin xout
    by (auto simp: clnt_call_recv_def clnt_call_out_def Let_def xdr_std_msg_done_def)
qed

lemma clnt_call_recv_success:
  assumes "decodes proc r0 e r" "xdr_ok x" "length e \<le> 2024" "load32 (out_msg x) 0 = Some xid"
    and "cl_xdr c = arrive x (reply_packet xid e)"
  shows "\<exists>x'. clnt_call_recv c proc r0 junk =
     Some (RPC_SUCCESS, c\<lparr>cl_xdr := x', input_xdr_busy := False\<rparr>, r)"
  using clnt_call_recv_result [OF assms, of junk] by blast

lemma clnt_call_recv_error:
  assumes ok: "xdr_ok x" and wf: "wf_reply h" and len: "length bs + 4 * length (reply_words h) \<le> 2040"
    and out: "load32 (out_msg x) 0 = Some xid"
    and c: "cl_xdr c = arrive x (be32s ([xid, RPC_MSG_REPLY] @ reply_words h) @ bs)"
    and err: "rh_stat h \<noteq> RPC_MSG_ACCEPTED \<or> ar_stat (rh_ar h) \<noteq> RPC_ACCEPT_SUCCESS"
  shows "\<exists>x'. clnt_call_recv c proc r0 junk =
     Some (if rh_stat h = RPC_MSG_ACCEPTED then ar_stat (rh_ar h) + RPC_AUTHERROR
           else dr_stat (rh_dr h) + RPC_VERSMISMATCH,
           c\<lparr>cl_xdr := x', input_xdr_busy := False\<rparr>, r0)"
proof -
  let ?n = "4 * length (reply_words h)"
  from clnt_call_recv_header [OF ok wf len out c, of junk]
  obtain h' where h': "reply_words h' = reply_words h" "wf_reply h'"
    "xdr_recv_reply_header (cl_xdr c) junk = Some (True, adv (cl_xdr c) ?n, h')" by blast
  note st = reply_words_status [OF h'(1,2) wf]
  have "length (be32s (reply_words h) @ bs) \<le> 2040"
    using len by simp
  then have xin: "load32 (in_msg (cl_xdr c)) 0 = Some xid"
    using ok by (simp add: c load_first)
  have xout: "load32 (out_msg (cl_xdr c)) 0 = Some xid" using out by (simp add: c)
  from h'(3) st err xin xout show ?thesis
    by (auto simp: clnt_call_recv_def clnt_call_out_def Let_def)
qed

lemma clnt_call_recv_mismatch:
  assumes "load32 (out_msg (cl_xdr c)) 0 = Some xid" "load32 (in_msg (cl_xdr c)) 0 = Some xid'" "xid \<noteq> xid'"
  shows "clnt_call_recv c proc r0 junk = Some (RPC_CANTRECV, c\<lparr>input_xdr_busy := False\<rparr>, r0)"
  using assms by (simp add: clnt_call_recv_def clnt_call_out_def Let_def)

subsection \<open>A call served\<close>

text \<open>
  A router that carries packets from descriptor \<open>a\<close> to descriptor \<open>b\<close>: a packet written to
  \<open>a\<close> is taken whole and is what the next read of \<open>b\<close> delivers.
\<close>

definition delivers :: "'w kernel \<Rightarrow> int \<Rightarrow> int \<Rightarrow> bool" where
  "delivers K a b \<longleftrightarrow> (\<forall>pkt w. length pkt \<le> 2048 \<longrightarrow>
     (\<exists>w' w''. k_write K a pkt w = (int (length pkt), w') \<and> k_read K b 2048 w' = (Some pkt, w'')))"

text \<open>
  The shape of a dispatch function: get the arguments, answer with the result computed from them, or
  with an error when they do not decode. And what happens while a caller waits: the server services
  its descriptor, then the receiver thread reads the reply into the client's handle.
\<close>

definition simple_dispatch ::
  "'w kernel \<Rightarrow> 'a xdrproc \<Rightarrow> 'a \<Rightarrow> 'b xdrproc \<Rightarrow> (u32 \<Rightarrow> 'a \<Rightarrow> 'b) \<Rightarrow> 'w dispatch_fn" where
  "simple_dispatch K xdr_args a0 xdr_res f req serv w =
     do { (b, s1, a) \<leftarrow> svc_getargs serv xdr_args a0;
          if b then do { (_, s2, w2) \<leftarrow> svc_sendreply K s1 xdr_res (f (rq_proc req) a) w; Some (s2, w2) }
          else svcerr_decode K s1 w }"

definition serve_wait ::
  "'w kernel \<Rightarrow> (nat \<Rightarrow> 'w dispatch_fn) \<Rightarrow> int \<Rightarrow> int \<Rightarrow> registered_server list \<Rightarrow> CLIENT \<Rightarrow> 'w
   \<Rightarrow> (CLIENT \<times> 'w) option" where
  "serve_wait K call pid n l client w =
     do { r \<leftarrow> svc_service K call pid n l w;
          case r of Inl _ \<Rightarrow> None
          | Inr (_, w1) \<Rightarrow>
              do { r2 \<leftarrow> rx_read K client w1;
                   case r2 of Inl _ \<Rightarrow> None | Inr cw \<Rightarrow> Some cw } }"

lemma deliversE:
  assumes "delivers K a b" "length pkt \<le> 2048"
  obtains w' w'' where "k_write K a pkt w = (int (length pkt), w')" "k_read K b 2048 w' = (Some pkt, w'')"
  using assms unfolding delivers_def by blast

lemma serve_wait_reply:
  assumes A: "xdr_codec pa ea wa da" and R: "xdr_codec pr er wr dr"
    and link: "delivers K cfd sfd" "delivers K sfd cfd"
    and y: "xdr_ok y" "x_fd y = sfd" "x_vers y = v" and pid: "pid \<noteq> 0"
    and c: "xdr_ok (cl_xdr c)" "x_fd (cl_xdr c) = cfd"
    and a: "wa a" "da a0" "length (ea a) \<le> 2008" "wr (f p a)" "length (er (f p a)) \<le> 2024"
    and pkt: "pkt = be32s (call_words xid g v p cred verf) @ ea a"
    and s: "sv_xdr s = Some y" "sv_prog s = g" "sv_dispatch s = d"
    and disp: "call d = simple_dispatch K pa a0 pr f"
    and read: "k_read K sfd 2048 w = (Some pkt, w1)"
  shows "\<exists>w2. serve_wait K call pid sfd (s # l) c w =
     Some (c\<lparr>cl_xdr := arrive (cl_xdr c) (reply_packet xid (er (f p a))), input_xdr_busy := True\<rparr>, w2)"
proof -
  have len: "length pkt = 40 + length (ea a)" by (simp add: pkt)
  have "xdr_std_read K y w = Some (True, arrive y pkt, w1)"
    using read y len a(3) by (intro read_arrive) auto
  moreover define z where "z = arrive y pkt\<lparr>in_next := 40, x_op := XDR_DECODE\<rparr>"
  note z = arrive_args [OF y(1) a(3) z_def [unfolded pkt]]
  define s1 where "s1 = s\<lparr>sv_xdr := Some z, sv_active := pid\<rparr>"
  have "svc_dispatch call pid (s\<lparr>sv_xdr := Some (arrive y pkt)\<rparr>) w1 =
      do { (s2, w2) \<leftarrow> call d \<lparr>rq_prog = g, rq_vers = v, rq_proc = p\<rparr> s1 w1;
           Some (s2\<lparr>sv_active := 0\<rparr>, w2) }"
    using y a s by (subst svc_dispatch_arrive) (auto simp: pkt z_def s1_def)
  moreover define pkt2 where "pkt2 = reply_packet xid (er (f p a))"
  moreover obtain w2 w3 where w2: "k_write K sfd pkt2 w1 = (int (length pkt2), w2)"
      and w3: "k_read K cfd 2048 w2 = (Some pkt2, w3)"
    using a(5) deliversE [OF link(2), of pkt2 w1] by (auto simp: pkt2_def)
  moreover obtain s2 where "call d \<lparr>rq_prog = g, rq_vers = v, rq_proc = p\<rparr> s1 w1 = Some (s2, w2)"
  proof -
    have "pa z a0 = Some (True, adv z (length (ea a)), a)"
      using z a by (intro xdr_codec.decode [OF A, where rest = "[]"]) auto
    then have get: "svc_getargs s1 pa a0 = Some (True, s1\<lparr>sv_xdr := Some (adv z (length (ea a)))\<rparr>, a)"
      using pid by (simp add: svc_getargs_def s1_def)
    define s1' where "s1' = s1\<lparr>sv_xdr := Some (adv z (length (ea a)))\<rparr>"
    have ok': "xdr_ok (adv z (length (ea a)))"
      using z a xdr_codec.enc_aligned [OF A] by (intro xdr_ok_adv) auto
    obtain serv' where "svc_sendreply K s1' pr (f p a) w1 =
      (case k_write K sfd pkt2 w1 of (rc, w1) \<Rightarrow> Some (True, serv', w1))"
      using svc_sendreply_writes [OF R, of s1' "adv z (length (ea a))" xid "f p a" K w1] ok' z a y pid
      by (auto simp: s1'_def s1_def pkt2_def reply_packet_def)
    with w2 have "call d \<lparr>rq_prog = g, rq_vers = v, rq_proc = p\<rparr> s1 w1 = Some (serv', w2)"
      using get by (simp add: disp simple_dispatch_def s1'_def)
    then show thesis by (rule that)
  qed
  ultimately have serve: "svc_service K call pid sfd (s # l) w = Some (Inr (s2\<lparr>sv_active := 0\<rparr> # l, w2))"
    using y s by simp
  have "xdr_std_read K (cl_xdr c) w2 = Some (True, arrive (cl_xdr c) pkt2, w3)"
    using c a(5) w3 by (intro read_arrive) (auto simp: pkt2_def)
  with serve show ?thesis
    by (auto simp: serve_wait_def rx_read_def pkt2_def)
qed

subsection \<open>The threads of a client\<close>

text \<open>
  Where each thread stands. The receiver waits in \<open>select\<close> or for the input buffer, or has read
  a packet and not delivered it yet. The caller is outside \<open>clnt_call\<close>, waits for \<open>wait_reply\<close>
  (which releases \<open>wait_reply_lock\<close>), or was woken and holds that lock again. The callback thread
  does not exist, waits for \<open>wait_cb\<close>, or dispatches a call holding \<open>wait_cb_lock\<close>.
\<close>

datatype rx_pc = RxSelect | RxDeliver | RxAborted
datatype call_pc = CallIdle | CallWait | CallWake
datatype cb_pc = CbNone | CbWait | CbRun u32 u32

record 'w cstate =
  cs_client :: CLIENT
  cs_xprt :: "SVCXPRT option"
  cs_rx :: rx_pc
  cs_call :: call_pc
  cs_cb :: cb_pc
  cs_world :: 'w

text \<open>A filter applied to its object touches the input buffer of a handle only through its cursor.\<close>

definition frames_input :: "unit xdrproc \<Rightarrow> bool" where
  "frames_input f \<longleftrightarrow> (\<forall>x b x' u. f x () = Some (b, x', u) \<longrightarrow> in_msg x' = in_msg x)"

text \<open>
  The steps. The receiver reads only into a free buffer; delivering a reply needs
  \<open>wait_reply_lock\<close>, which a woken caller holds, and delivering a call needs \<open>wait_cb_lock\<close>,
  which the callback thread holds while it dispatches. Sending and starting to wait are one
  step because \<open>wait_reply_lock\<close> is held in between. \<open>may\<close> is the set of the actions that can happen: what the three threads
  do, and two faults, the router refusing a packet and the wait for a reply ending without a signal. The wait in \<open>clnt_call\<close> is not in a
  loop, so the caller then goes on as if a reply had come; the other two waits are in loops that test their condition
  again, and such a wake-up changes nothing there.
\<close>

datatype clnt_action = RxThread | CallThread | CbThread | SendRefused | SpuriousWake

definition fault_free :: "clnt_action set" where
  "fault_free = {RxThread, CallThread, CbThread}"

inductive clnt_step ::
  "'w kernel \<Rightarrow> (nat \<Rightarrow> 'w dispatch_fn) \<Rightarrow> int \<Rightarrow> clnt_action set \<Rightarrow> 'w cstate \<Rightarrow> 'w cstate \<Rightarrow> bool"
  for K call pid may where
  step_rx_read: "\<lbrakk>RxThread \<in> may; cs_rx s = RxSelect; \<not> input_xdr_busy (cs_client s);
      rx_read K (cs_client s) (cs_world s) = Some (Inr (c, w))\<rbrakk> \<Longrightarrow>
    clnt_step K call pid may s (s\<lparr>cs_client := c, cs_world := w, cs_rx := RxDeliver\<rparr>)"
| step_rx_abort: "\<lbrakk>RxThread \<in> may; cs_rx s = RxSelect; \<not> input_xdr_busy (cs_client s);
      rx_read K (cs_client s) (cs_world s) = Some (Inl ())\<rbrakk> \<Longrightarrow>
    clnt_step K call pid may s (s\<lparr>cs_rx := RxAborted\<rparr>)"
| step_rx_reply: "\<lbrakk>RxThread \<in> may; cs_rx s = RxDeliver; rx_deliver (cs_client s) = Some (True, c); cs_call s \<noteq> CallWake\<rbrakk> \<Longrightarrow>
    clnt_step K call pid may s
      (s\<lparr>cs_client := c, cs_rx := RxSelect,
         cs_call := (if cs_call s = CallWait then CallWake else cs_call s)\<rparr>)"
| step_rx_call: "\<lbrakk>RxThread \<in> may; cs_rx s = RxDeliver; rx_deliver (cs_client s) = Some (False, c);
      cs_cb s = CbNone \<or> cs_cb s = CbWait\<rbrakk> \<Longrightarrow>
    clnt_step K call pid may s
      (s\<lparr>cs_client := c, cs_rx := RxSelect,
         cs_cb := (if cb_stop (cs_client s) < 0 then CbWait else cs_cb s)\<rparr>)"
| step_call_send: "\<lbrakk>CallThread \<in> may; cs_call s = CallIdle; frames_input args;
      clnt_call_send K (cs_client s) p args () (cs_world s) = Some (Inr (), c, w)\<rbrakk> \<Longrightarrow>
    clnt_step K call pid may s (s\<lparr>cs_client := c, cs_world := w, cs_call := CallWait\<rparr>)"
| step_call_encode: "\<lbrakk>CallThread \<in> may; cs_call s = CallIdle; frames_input args;
      clnt_call_send K (cs_client s) p args () (cs_world s) = Some (Inl RPC_CANTENCODEARGS, c, w)\<rbrakk> \<Longrightarrow>
    clnt_step K call pid may s (s\<lparr>cs_client := c, cs_world := w\<rparr>)"
| step_call_refused: "\<lbrakk>CallThread \<in> may; SendRefused \<in> may; cs_call s = CallIdle; frames_input args;
      clnt_call_send K (cs_client s) p args () (cs_world s) = Some (Inl RPC_CANTSEND, c, w)\<rbrakk> \<Longrightarrow>
    clnt_step K call pid may s (s\<lparr>cs_client := c, cs_world := w\<rparr>)"
| step_call_spurious: "\<lbrakk>SpuriousWake \<in> may; cs_call s = CallWait\<rbrakk> \<Longrightarrow>
    clnt_step K call pid may s (s\<lparr>cs_call := CallWake\<rparr>)"
| step_call_recv: "\<lbrakk>CallThread \<in> may; cs_call s = CallWake;
      clnt_call_recv (cs_client s) (res :: unit xdrproc) () junk = Some (ret, c, u)\<rbrakk> \<Longrightarrow>
    clnt_step K call pid may s (s\<lparr>cs_client := c, cs_call := CallIdle\<rparr>)"
| step_cb_take: "\<lbrakk>CbThread \<in> may; cs_cb s = CbWait; got_cb (cs_client s);
      cb_take K (cs_xprt s) (cs_client s) (cs_world s) = Some (Some (p, v), xp, c, w)\<rbrakk> \<Longrightarrow>
    clnt_step K call pid may s
      (s\<lparr>cs_client := c, cs_xprt := xp, cs_world := w, cs_cb := CbRun p v\<rparr>)"
| step_cb_drop: "\<lbrakk>CbThread \<in> may; cs_cb s = CbWait; got_cb (cs_client s);
      cb_take K (cs_xprt s) (cs_client s) (cs_world s) = Some (None, xp, c, w)\<rbrakk> \<Longrightarrow>
    clnt_step K call pid may s (s\<lparr>cs_client := c, cs_xprt := xp, cs_world := w\<rparr>)"
| step_cb_run: "\<lbrakk>CbThread \<in> may; cs_cb s = CbRun p v; cs_xprt s = Some xp;
      cb_dispatch K call pid p v xp (cs_world s) = Some (xp', w)\<rbrakk> \<Longrightarrow>
    clnt_step K call pid may s (s\<lparr>cs_xprt := Some xp', cs_world := w, cs_cb := CbWait\<rparr>)"

definition msg_type :: "CLIENT \<Rightarrow> u32 option" where
  "msg_type c = load32 (in_msg (cl_xdr c)) 1"

definition clnt_start :: "'w cstate \<Rightarrow> bool" where
  "clnt_start s \<longleftrightarrow> cs_rx s = RxSelect \<and> cs_call s = CallIdle \<and> cs_cb s = CbNone \<and>
     \<not> input_xdr_busy (cs_client s) \<and> \<not> got_cb (cs_client s) \<and> cb_stop (cs_client s) < 0"

text \<open>
  The packet in the input buffer has at most one owner (the receiver that has not delivered it, the
  caller that was woken for it, the callback thread it was left for), it has none when the buffer is
  marked free, and it is of the kind its owner expects.
\<close>

definition clnt_inv :: "'w cstate \<Rightarrow> bool" where
  "clnt_inv s \<longleftrightarrow>
     (\<not> input_xdr_busy (cs_client s) \<longrightarrow>
        cs_rx s \<noteq> RxDeliver \<and> cs_call s \<noteq> CallWake \<and> \<not> got_cb (cs_client s)) \<and>
     (cs_rx s = RxDeliver \<longrightarrow> cs_call s \<noteq> CallWake \<and> \<not> got_cb (cs_client s)) \<and>
     (cs_call s = CallWake \<longrightarrow> \<not> got_cb (cs_client s) \<and>
        msg_type (cs_client s) = Some RPC_MSG_REPLY) \<and>
     (got_cb (cs_client s) \<longrightarrow> cs_cb s \<noteq> CbNone \<and> msg_type (cs_client s) \<noteq> Some RPC_MSG_REPLY) \<and>
     (cs_cb s = CbNone \<longleftrightarrow> cb_stop (cs_client s) < 0)"

text \<open>A client whose buffer is marked busy although no thread will ever consume the packet.\<close>

definition clnt_wedged :: "'w cstate \<Rightarrow> bool" where
  "clnt_wedged s \<longleftrightarrow> input_xdr_busy (cs_client s) \<and> cs_rx s = RxSelect \<and> cs_call s \<noteq> CallWake \<and>
     \<not> got_cb (cs_client s)"

subsection \<open>Lemmas: what a step leaves alone\<close>

definition keeps_input :: "(bool \<times> xdr_s_type) option \<Rightarrow> u8 list \<Rightarrow> bool" where
  "keeps_input r m \<longleftrightarrow> (\<forall>b x. r = Some (b, x) \<longrightarrow> in_msg x = m)"

lemma keeps_and_then:
  assumes "keeps_input r m" "\<And>x. in_msg x = m \<Longrightarrow> keeps_input (f x) m"
  shows "keeps_input (and_then r f) m"
proof (cases r)
  case (Some bx)
  obtain b x where bx: "bx = (b, x)" by fastforce
  then have "in_msg x = m" using assms(1) Some by (simp add: keeps_input_def)
  with assms(2) [OF this] show ?thesis by (simp add: Some bx keeps_input_def and_then_def)
qed (simp add: keeps_input_def and_then_def)

lemma keeps_Some [simp]: "keeps_input (Some (b, x)) m \<longleftrightarrow> in_msg x = m"
  by (simp add: keeps_input_def)

lemma keeps_send [simp]:
  "in_msg x = m \<Longrightarrow> keeps_input (xdr_std_send_uint32 x v) m"
  "in_msg x = m \<Longrightarrow> keeps_input (xdr_std_send_int32 x v) m"
  "in_msg x = m \<Longrightarrow> keeps_input (xdr_std_send_bytes x buf len) m"
  "in_msg x = m \<Longrightarrow> keeps_input (xdr_std_msg_start x t) m"
  by (auto simp: keeps_input_def xdr_std_send_uint32_def xdr_std_send_int32_def xdr_std_send_bytes_def
      xdr_std_msg_start_def Let_def bind_eq_Some_conv split: if_splits)

lemma keeps_call_msg_start:
  "in_msg x = m \<Longrightarrow> keeps_input (xdr_call_msg_start x prog ver proc cred verf) m"
  unfolding xdr_call_msg_start_def xdr_send_auth_def
  by (intro keeps_and_then) auto

lemma clnt_call_send_frame:
  assumes "clnt_call_send K c p args () w = Some (r, c', w')" "frames_input args"
  shows "in_msg (cl_xdr c') = in_msg (cl_xdr c)" "msg_type c' = msg_type c" "got_cb c' = got_cb c" "cb_stop c' = cb_stop c"
    "r \<noteq> Inl RPC_CANTSEND \<Longrightarrow> input_xdr_busy c' = input_xdr_busy c"
proof -
  let ?x = "(cl_xdr c)\<lparr>x_op := XDR_ENCODE\<rparr>"
  obtain b1 x1 where st: "xdr_call_msg_start ?x (x_prog ?x) (x_vers ?x) p no_auth no_auth = Some (b1, x1)"
    using assms(1) by (auto simp: clnt_call_send_def no_auth_def Let_def bind_eq_Some_conv)
  then have m1: "in_msg x1 = in_msg (cl_xdr c)"
    using keeps_call_msg_start [of ?x "in_msg (cl_xdr c)"] by (simp add: keeps_input_def)
  with st assms show "in_msg (cl_xdr c') = in_msg (cl_xdr c)" "msg_type c' = msg_type c" "got_cb c' = got_cb c" "cb_stop c' = cb_stop c"
    "r \<noteq> Inl RPC_CANTSEND \<Longrightarrow> input_xdr_busy c' = input_xdr_busy c"
    by (auto simp: clnt_call_send_def no_auth_def [symmetric] Let_def bind_eq_Some_conv msg_type_def
        frames_input_def split: if_splits)
qed

lemma clnt_call_recv_frame:
  assumes "clnt_call_recv c res r junk = Some (ret, c', u)"
  shows "\<not> input_xdr_busy c'" "got_cb c' = got_cb c" "cb_stop c' = cb_stop c"
  using assms
  by (auto simp: clnt_call_recv_def clnt_call_out_def Let_def
      split: if_splits Option.bind_splits prod.splits)

lemma cb_take_frame:
  assumes "cb_take K xp c w = Some (r, xp', c', w')"
  shows "\<not> got_cb c'" "cb_stop c' = cb_stop c" "msg_type c' = msg_type c"
    "input_xdr_busy c' = (r = None \<and> input_xdr_busy c)"
  using assms
  by (auto simp: cb_take_def Let_def msg_type_def split: Option.bind_splits option.splits prod.splits)

lemma rx_frame:
  "rx_read K c w = Some (Inr (c', w')) \<Longrightarrow> input_xdr_busy c' \<and> got_cb c' = got_cb c \<and> cb_stop c' = cb_stop c"
  "rx_deliver c = Some (True, c') \<Longrightarrow> c' = c \<and> msg_type c = Some RPC_MSG_REPLY"
  "rx_deliver c = Some (False, c') \<Longrightarrow> got_cb c' \<and> input_xdr_busy c' = input_xdr_busy c \<and> in_msg (cl_xdr c') = in_msg (cl_xdr c) \<and>
     msg_type c' = msg_type c \<and> msg_type c \<noteq> Some RPC_MSG_REPLY \<and> 0 \<le> cb_stop c' \<and>
     (0 \<le> cb_stop c \<longrightarrow> cb_stop c' = cb_stop c)"
  by (auto simp: rx_read_def rx_deliver_def msg_type_def bind_eq_Some_conv split: if_splits)

lemmas step_frames =
  clnt_call_send_frame clnt_call_recv_frame cb_take_frame rx_frame

lemma clnt_inv_step: "clnt_step K call pid may s t \<Longrightarrow> may \<subseteq> fault_free \<Longrightarrow> clnt_inv s \<Longrightarrow> clnt_inv t"
proof (induction rule: clnt_step.induct)
  case (step_call_send s args p c w)
  note f = clnt_call_send_frame [OF step_call_send(4,3)]
  with step_call_send show ?case by (auto simp: clnt_inv_def)
next
  case (step_call_encode s args p c w)
  note f = clnt_call_send_frame [OF step_call_encode(4,3)]
  with step_call_encode show ?case by (auto simp: clnt_inv_def clnt_stat_defs)
next
  case (step_rx_call s c)
  then show ?case using rx_frame(3) [OF step_rx_call(3)] by (auto simp: clnt_inv_def)
next
  case (step_cb_take s p v xp c w)
  then show ?case using cb_take_frame [OF step_cb_take(4)] by (auto simp: clnt_inv_def)
next
  case (step_cb_drop s xp c w)
  then show ?case using cb_take_frame [OF step_cb_drop(4)] by (auto simp: clnt_inv_def)
next
  case (step_call_recv s res junk ret c u)
  then show ?case using clnt_call_recv_frame [OF step_call_recv(3)] by (auto simp: clnt_inv_def)
next
  case (step_rx_reply s c)
  then show ?case using rx_frame(2) [OF step_rx_reply(3)] by (auto simp: clnt_inv_def)
next
  case (step_rx_read s c w)
  then show ?case using rx_frame(1) [OF step_rx_read(4)] by (auto simp: clnt_inv_def)
qed (auto simp: clnt_inv_def fault_free_def)

interpretation cs: invariant_system clnt_start "clnt_step K call pid fault_free" clnt_inv for K call pid
proof (unfold_locales, goal_cases)
  case (1 s)
  then show ?case by (auto simp: clnt_start_def clnt_inv_def)
next
  case (2 s t)
  then show ?case by (blast intro: clnt_inv_step [OF _ order_refl])
qed

text \<open>
  A packet no server answers for: there is no transport, or no entry for its program and version. While it is in the buffer and the callback
  thread is not busy with an earlier one, nothing frees the buffer.
\<close>

definition unanswered :: "SVCXPRT option \<Rightarrow> u8 list \<Rightarrow> bool" where
  "unanswered xprt m \<longleftrightarrow> (case xprt of None \<Rightarrow> True | Some xp \<Rightarrow>
     (case (load32 m 3, load32 m 4) of (Some prog, Some vers) \<Rightarrow> svc_find xp prog vers = None | _ \<Rightarrow> False))"

definition clnt_stuck :: "SVCXPRT option \<Rightarrow> u8 list \<Rightarrow> 'w cstate \<Rightarrow> bool" where
  "clnt_stuck xprt m s \<longleftrightarrow>
     load32 m 1 \<noteq> Some RPC_MSG_REPLY \<and> unanswered xprt m \<and> cs_xprt s = xprt \<and> in_msg (cl_xdr (cs_client s)) = m \<and>
     input_xdr_busy (cs_client s) \<and> cs_call s \<noteq> CallWake \<and> (cs_cb s = CbNone \<or> cs_cb s = CbWait)"

lemma cb_take_unanswered:
  assumes "unanswered xprt (in_msg (cl_xdr c))"
  shows "cb_take K xprt c w = Some (None, xprt, c\<lparr>got_cb := False\<rparr>, w)"
  using assms by (auto simp: cb_take_def unanswered_def Let_def split: option.splits)

lemma clnt_stuck_step: "clnt_step K call pid may s t \<Longrightarrow> may \<subseteq> fault_free \<Longrightarrow> clnt_stuck xprt m s \<Longrightarrow> clnt_stuck xprt m t"
proof (induction rule: clnt_step.induct)
  case (step_call_send s args p c w)
  note f = clnt_call_send_frame [OF step_call_send(4,3)]
  with step_call_send show ?case by (auto simp: clnt_stuck_def)
next
  case (step_call_encode s args p c w)
  note f = clnt_call_send_frame [OF step_call_encode(4,3)]
  with step_call_encode show ?case by (auto simp: clnt_stuck_def clnt_stat_defs)
next
  case (step_rx_reply s c)
  then show ?case using rx_frame(2) [OF step_rx_reply(3)] by (auto simp: clnt_stuck_def msg_type_def)
next
  case (step_rx_call s c)
  then show ?case using rx_frame(3) [OF step_rx_call(3)] by (auto simp: clnt_stuck_def)
next
  case (step_cb_take s p v xp c w)
  then show ?case using cb_take_unanswered [of "cs_xprt s" "cs_client s" K "cs_world s"] by (auto simp: clnt_stuck_def)
next
  case (step_cb_drop s xp c w)
  then show ?case using cb_take_unanswered [of "cs_xprt s" "cs_client s" K "cs_world s"] by (auto simp: clnt_stuck_def)
qed (auto simp: clnt_stuck_def fault_free_def)

interpretation wedge: invariant_system "clnt_stuck xprt m" "clnt_step K call pid fault_free" "clnt_stuck xprt m" for K call pid xprt m
  by unfold_locales (blast intro: clnt_stuck_step [OF _ order_refl])+

subsection \<open>Lemmas: the client list\<close>

definition clnt_fds :: "clnt_globals \<Rightarrow> int list" where
  "clnt_fds g = map (\<lambda>p. x_fd (cl_xdr (snd p))) (clients g)"

definition clnt_list_inv :: "clnt_globals \<Rightarrow> bool" where
  "clnt_list_inv g \<longleftrightarrow>
     distinct (map fst (clients g)) \<and> num_clients g = of_nat (length (clients g)) \<and>
     distinct (clnt_fds g) \<and> rx_fdset g = set (clnt_fds g) \<and>
     (\<forall>f \<in> rx_fdset g. 0 \<le> f \<and> f < 1024 \<and> f \<le> max_rxfd g) \<and>
     rx_threads g = (if clients g = [] then 0 else 1)"

text \<open>An \<open>fd_set\<close> has 1024 members, so the counter of clients does not wrap around.\<close>

lemma clnt_list_bound:
  assumes "clnt_list_inv g"
  shows "length (clients g) \<le> 1024"
proof -
  have "set (clnt_fds g) \<subseteq> {0..<1024}" using assms by (auto simp: clnt_list_inv_def)
  then have "card (set (clnt_fds g)) \<le> card {0..<1024 :: int}" by (intro card_mono) auto
  moreover have "card (set (clnt_fds g)) = length (clients g)"
    using assms distinct_card [of "clnt_fds g"] by (simp add: clnt_list_inv_def) (simp add: clnt_fds_def)
  ultimately show ?thesis by simp
qed

lemma of_nat_u32_zero: "n \<le> 1024 \<Longrightarrow> (of_nat n :: u32) = 0 \<longleftrightarrow> n = 0"
  by (simp add: unat_eq_zero [symmetric] unat_of_nat)

lemma clnt_list_empty: "clnt_list_inv g \<Longrightarrow> num_clients g = 0 \<longleftrightarrow> clients g = []"
  using clnt_list_bound [of g] by (simp add: clnt_list_inv_def of_nat_u32_zero)

lemma clnt_unlink_filter:
  "distinct (map fst l) \<Longrightarrow>
   clnt_unlink a l = (filter (\<lambda>p. fst p \<noteq> a) l, a \<in> fst ` set l)"
proof (induction l)
  case (Cons p l)
  have "fst p = a \<Longrightarrow> filter (\<lambda>q. fst q \<noteq> a) l = l"
    using Cons.prems by (auto simp: filter_id_conv image_iff)
  with Cons show ?case by auto
qed simp

lemma clnt_list_inv_zero: "clnt_list_inv clnt_globals_zero"
  by (simp add: clnt_list_inv_def clnt_globals_zero_def clnt_fds_def)

lemma clnt_list_remove:
  assumes inv: "clnt_list_inv g" and c: "(a, c) \<in> set (clients g)"
  defines "l \<equiv> filter (\<lambda>p. fst p \<noteq> a) (clients g)"
  shows "set (map (\<lambda>p. x_fd (cl_xdr (snd p))) l) = rx_fdset g - {x_fd (cl_xdr c)}"
    "Suc (length l) = length (clients g)"
proof -
  obtain xs ys where s: "clients g = xs @ (a, c) # ys" using c by (meson split_list)
  have "a \<notin> fst ` set xs" "a \<notin> fst ` set ys" using inv s by (auto simp: clnt_list_inv_def)
  then have "filter (\<lambda>p. fst p \<noteq> a) xs = xs" "filter (\<lambda>p. fst p \<noteq> a) ys = ys"
    by (auto simp: filter_id_conv image_iff)
  then have l: "l = xs @ ys" by (simp add: l_def s)
  show "Suc (length l) = length (clients g)" by (simp add: l s)
  show "set (map (\<lambda>p. x_fd (cl_xdr (snd p))) l) = rx_fdset g - {x_fd (cl_xdr c)}"
    using inv by (auto simp: l clnt_list_inv_def clnt_fds_def s)
qed

subsection \<open>Properties\<close>

text \<open>
  C16: creating a client links it in front of the list, counts it, makes the receiver thread select on
  its descriptor, and starts that thread exactly when there was no client; the program number and
  the masked version are those of its handle. When the router cannot be opened nothing changes.
\<close>

theorem clnt_create_correct:
  assumes inv: "clnt_list_inv g" and mem: "k_calloc K w" and a: "a \<notin> fst ` set (clients g)"
    and fd: "fst (k_open K (clnt_name prog (clnt_vers vers)) w) < 1024"
      "fst (k_open K (clnt_name prog (clnt_vers vers)) w) \<notin> rx_fdset g"
  shows "\<exists>r g' w'. clnt_create K (Some a) prog vers g w = Some (r, g', w') \<and> clnt_list_inv g' \<and>
     (case r of
        None \<Rightarrow> g' = g
      | Some b \<Rightarrow> b = a \<and> (\<exists>c. clients g' = (a, c) # clients g \<and> x_prog (cl_xdr c) = prog \<and>
          x_vers (cl_xdr c) = clnt_vers vers \<and> cb_stop c = -1 \<and> xdr_ok (cl_xdr c)))"
proof (cases "0 \<le> fst (k_open K (clnt_name prog (clnt_vers vers)) w)")
  case True
  let ?n = "clnt_name prog (clnt_vers vers)"
  obtain f w1 where k: "k_open K ?n w = (f, w1)" by fastforce
  define x where "x = xdr_zero\<lparr>x_fd := f, x_is_client := True\<rparr>"
  have x: "xdr_init_common K ?n True w = Some (Some x, w1)" "x_fd x = f" "xdr_ok x"
    using True k mem xdr_ok_zero by (auto simp: xdr_init_common_def r_open_def x_def)
  have f: "0 \<le> f" "f < 1024" "f \<notin> set (clnt_fds g)"
    using True fd k inv by (auto simp: clnt_list_inv_def)
  define c where "c = \<lparr>cl_xdr = x\<lparr>x_prog := prog, x_vers := clnt_vers vers\<rparr>, input_xdr_busy = False,
    got_cb = False, cb_stop = -1\<rparr>"
  obtain g' where g': "clnt_create K (Some a) prog vers g w = Some (Some a, g', w1)"
    "clients g' = (a, c) # clients g" "num_clients g' = num_clients g + 1"
    "rx_fdset g' = insert f (rx_fdset g)" "f \<le> max_rxfd g'" "max_rxfd g \<le> max_rxfd g' \<or> clients g = []"
    "rx_threads g' = 1"
    using x f inv clnt_list_empty [OF inv]
    by (auto simp: clnt_create_def FD_SET_def Let_def c_def clnt_list_inv_def clnt_fds_def)
  have fds: "clnt_fds g' = f # clnt_fds g" using g'(2) x(2) by (simp add: clnt_fds_def c_def)
  have "clnt_list_inv g'"
    using g'(2-) fds f a inv unfolding clnt_list_inv_def by (fastforce simp: clnt_fds_def)
  with g'(1,2) x(3) show ?thesis by (auto simp: c_def)
next
  case False
  then show ?thesis
    using mem inv
    by (auto simp: clnt_create_def xdr_init_common_def r_open_def Let_def split: prod.split)
qed

theorem clnt_create_correct_witness:
  "\<exists>r g' w'. clnt_create demo_kernel (Some 1) 0x3000005B 0x10002 clnt_globals_zero demo_world
       = Some (r, g', w') \<and> clnt_list_inv g' \<and>
     (case r of
        None \<Rightarrow> g' = clnt_globals_zero
      | Some b \<Rightarrow> b = 1 \<and> (\<exists>c. clients g' = (1, c) # clients clnt_globals_zero \<and>
          x_prog (cl_xdr c) = 0x3000005B \<and>
          x_vers (cl_xdr c) = clnt_vers 0x10002 \<and> cb_stop c = -1 \<and> xdr_ok (cl_xdr c)))"
  by (rule clnt_create_correct [OF clnt_list_inv_zero])
    (simp_all add: demo_kernel_def demo_world_def clnt_globals_zero_def)

text \<open>
  Destroying a client takes exactly it out of the list and its descriptor out of the set, keeps
  the list well-formed, and ends the receiver thread exactly when it was the last one.
\<close>

theorem clnt_destroy_correct:
  assumes inv: "clnt_list_inv g" and c: "(a, c) \<in> set (clients g)"
  shows "\<exists>g' w'. clnt_destroy K (Some (a, c)) g w = Some (g', w') \<and> clnt_list_inv g' \<and>
     clients g' = filter (\<lambda>p. fst p \<noteq> a) (clients g) \<and>
     rx_fdset g' = rx_fdset g - {x_fd (cl_xdr c)}"
proof -
  let ?l = "filter (\<lambda>p. fst p \<noteq> a) (clients g)"
  note rm = clnt_list_remove [OF inv c]
  have u: "clnt_unlink a (clients g) = (?l, True)"
    using inv c clnt_unlink_filter [of "clients g" a] by (force simp: clnt_list_inv_def)
  have fd: "x_fd (cl_xdr c) \<in> rx_fdset g"
    using inv c by (force simp: clnt_list_inv_def clnt_fds_def)
  have n: "num_clients g - 1 = of_nat (length ?l)"
    using inv rm(2) by (metis (no_types, lifting) add_diff_cancel_left' clnt_list_inv_def of_nat_Suc)
  have z: "(of_nat (length ?l) :: u32) = 0 \<longleftrightarrow> ?l = []"
    using of_nat_u32_zero [of "length ?l"] rm(2) clnt_list_bound [OF inv] by simp
  have d: "distinct (map fst ?l)" "distinct (map (\<lambda>p. x_fd (cl_xdr (snd p))) ?l)"
    using inv by (auto simp: clnt_list_inv_def clnt_fds_def intro: distinct_map_filter)
  have ne: "clients g \<noteq> []" using c by auto
  have b: "0 \<le> x_fd (cl_xdr c)" "x_fd (cl_xdr c) < 1024" "rx_threads g = 1"
    "\<And>f. f \<in> rx_fdset g \<Longrightarrow> 0 \<le> f \<and> f < 1024 \<and> f \<le> max_rxfd g"
    using inv fd ne by (auto simp: clnt_list_inv_def)
  let ?g = "g\<lparr>clients := ?l, num_clients := of_nat (length ?l), rx_fdset := rx_fdset g - {x_fd (cl_xdr c)},
    rx_threads := (if ?l = [] then 0 else 1)\<rparr>"
  have "clnt_list_inv ?g"
    using d rm(1) b unfolding clnt_list_inv_def by (simp add: clnt_fds_def)
  moreover have "clnt_destroy K (Some (a, c)) g w = Some (?g, xdr_destroy_common K (cl_xdr c) w)"
    using u b n z by (simp add: clnt_destroy_def FD_CLR_def Let_def)
  ultimately show ?thesis by (intro exI [of _ ?g] exI) simp
qed

definition demo_client :: CLIENT where
  "demo_client = \<lparr>cl_xdr = xdr_zero\<lparr>x_prog := 0x3000005B, x_vers := 0x10000, x_fd := 3\<rparr>,
     input_xdr_busy = False, got_cb = False, cb_stop = -1\<rparr>"

definition demo_clients :: clnt_globals where
  "demo_clients = \<lparr>clients = [(1, demo_client)], num_clients = 1, rx_fdset = {3}, max_rxfd = 3,
     rx_threads = 1\<rparr>"

theorem clnt_destroy_correct_witness:
  "\<exists>g' w'. clnt_destroy demo_kernel (Some (1, demo_client)) demo_clients demo_world = Some (g', w') \<and>
     clnt_list_inv g' \<and> clients g' = filter (\<lambda>p. fst p \<noteq> 1) (clients demo_clients) \<and>
     rx_fdset g' = rx_fdset demo_clients - {x_fd (cl_xdr demo_client)}"
  by (rule clnt_destroy_correct)
    (simp_all add: clnt_list_inv_def demo_clients_def demo_client_def clnt_fds_def)

text \<open>
  C17: a reply that carries the identifier of the call is never mistaken: a denied call is reported as
  its reason offset by \<open>RPC_VERSMISMATCH\<close>, an accepted but failed one as its status offset by
  \<open>RPC_AUTHERROR\<close>, the caller's result is untouched, and the input buffer is free again.
\<close>

theorem clnt_call_error_status:
  assumes "xdr_ok x" "wf_reply h" "length bs + 4 * length (reply_words h) \<le> 2040"
    and "load32 (out_msg x) 0 = Some xid"
    and "cl_xdr c = arrive x (be32s ([xid, RPC_MSG_REPLY] @ reply_words h) @ bs)"
    and "rh_stat h \<noteq> RPC_MSG_ACCEPTED \<or> ar_stat (rh_ar h) \<noteq> RPC_ACCEPT_SUCCESS"
  shows "\<exists>c'. clnt_call_recv c xdr_results r0 junk =
      Some (if rh_stat h = RPC_MSG_ACCEPTED then ar_stat (rh_ar h) + RPC_AUTHERROR
            else dr_stat (rh_dr h) + RPC_VERSMISMATCH, c', r0) \<and> \<not> input_xdr_busy c'"
  using clnt_call_recv_error [OF assms, of xdr_results r0 junk] by force

definition locked_header :: rpc_reply_header where
  "locked_header = accepted no_auth RPC_PROG_LOCKED"

lemma locked_words:
  "wf_reply locked_header" "length (reply_words locked_header) = 4"
  "rh_stat locked_header = RPC_MSG_ACCEPTED" "ar_stat (rh_ar locked_header) = 6"
  by (simp_all add: locked_header_def accepted_def wf_reply_def reply_words_def no_auth_def
      auth_words_def rpc_enum_defs)

definition locked_client :: CLIENT where
  "locked_client = demo_client\<lparr>cl_xdr := arrive (cl_xdr demo_client)
     (be32s ([0, RPC_MSG_REPLY] @ reply_words locked_header))\<rparr>"

text \<open>
  The status of a locked program, \<open>RPC_PROG_LOCKED + RPC_AUTHERROR\<close>, is the value the enumeration
  uses for an unknown host.
\<close>

theorem clnt_call_error_status_witness:
  "\<exists>c'. clnt_call_recv locked_client xdr_u_int 0 locked_header = Some (RPC_UNKNOWNHOST, c', 0) \<and>
     \<not> input_xdr_busy c'"
proof -
  have x: "xdr_ok (cl_xdr demo_client)" "load32 (out_msg (cl_xdr demo_client)) 0 = Some 0"
    using xdr_ok_zero load32_zero by (simp_all add: demo_client_def)
  have "rh_stat locked_header \<noteq> RPC_MSG_ACCEPTED \<or> ar_stat (rh_ar locked_header) \<noteq> RPC_ACCEPT_SUCCESS"
    by (simp add: locked_words rpc_enum_defs)
  moreover have "cl_xdr locked_client = arrive (cl_xdr demo_client)
      (be32s ([0, RPC_MSG_REPLY] @ reply_words locked_header) @ [])"
    by (simp add: locked_client_def)
  ultimately show ?thesis
    using clnt_call_error_status [OF x(1) locked_words(1) _ x(2), of "[]" locked_client xdr_u_int 0
        locked_header] by (simp add: locked_words clnt_stat_defs)
qed

text \<open>
  C6: as long as the router refuses no packet and no wait for a reply ends without a signal, in every state the threads of a client
  can reach the packet in the input buffer has at most one owner and none when the buffer is marked free, so the
  receiver never overwrites a packet that is still to be consumed; a woken caller finds a reply and
  the callback thread a call.
\<close>

theorem clnt_buffer_one_owner:
  assumes "clnt_start s" "steps (clnt_step K call pid fault_free) s t"
  shows "clnt_inv t"
  using assms by (rule cs.reachable_inv)

definition demo_cstate :: "router_world cstate" where
  "demo_cstate = \<lparr>cs_client = demo_client, cs_xprt = None, cs_rx = RxSelect, cs_call = CallIdle,
     cs_cb = CbNone, cs_world = demo_world\<lparr>inbox := [(3, be32s [7, RPC_MSG_CALL])]\<rparr>\<rparr>"

definition demo_received :: CLIENT where
  "demo_received = demo_client\<lparr>cl_xdr := arrive (cl_xdr demo_client) (be32s [7, RPC_MSG_CALL]),
     input_xdr_busy := True\<rparr>"

lemma demo_read:
  "rx_read demo_kernel demo_client (cs_world demo_cstate) = Some (Inr (demo_received, demo_world))"
proof -
  have "k_read demo_kernel 3 2048 (cs_world demo_cstate) = (Some (be32s [7, RPC_MSG_CALL]), demo_world)"
    by (simp add: demo_kernel_def demo_cstate_def demo_world_def)
  then have "xdr_std_read demo_kernel (cl_xdr demo_client) (cs_world demo_cstate) =
      Some (True, arrive (cl_xdr demo_client) (be32s [7, RPC_MSG_CALL]), demo_world)"
    using xdr_ok_zero by (intro read_arrive) (auto simp: demo_client_def)
  then show ?thesis by (simp add: rx_read_def demo_received_def)
qed

lemma demo_deliver:
  "rx_deliver demo_received = Some (False, demo_received\<lparr>got_cb := True, cb_stop := 0\<rparr>)"
  "msg_type demo_received = Some RPC_MSG_CALL"
proof -
  have "load32 (in_msg (cl_xdr demo_received)) 1 = Some RPC_MSG_CALL"
    using load_header [of 1 "[7, RPC_MSG_CALL]" "cl_xdr demo_client" "[]"] xdr_ok_zero
    by (simp add: demo_received_def demo_client_def)
  then show "rx_deliver demo_received = Some (False, demo_received\<lparr>got_cb := True, cb_stop := 0\<rparr>)"
    "msg_type demo_received = Some RPC_MSG_CALL"
    by (simp_all add: rx_deliver_def msg_type_def rpc_enum_defs) (simp add: demo_received_def demo_client_def)
qed

theorem clnt_buffer_one_owner_witness:
  "clnt_inv (demo_cstate\<lparr>cs_client := demo_received, cs_world := demo_world, cs_rx := RxDeliver\<rparr>)"
proof (rule clnt_buffer_one_owner)
  show "clnt_start demo_cstate"
    by (simp add: clnt_start_def demo_cstate_def demo_client_def)
  show "steps (clnt_step demo_kernel (\<lambda>_ _ s w. Some (s, w)) 1 fault_free) demo_cstate
      (demo_cstate\<lparr>cs_client := demo_received, cs_world := demo_world, cs_rx := RxDeliver\<rparr>)"
    using demo_read
    by (intro steps_one step_rx_read) (simp_all add: demo_cstate_def demo_client_def fault_free_def)
qed

text \<open>
  Both conditions are needed. A wait for a reply that ends without one makes its caller an owner of a buffer that holds no
  reply; when it leaves, it marks the buffer free, although the packet of another thread may be in it.
\<close>

theorem clnt_spurious_wake_breaks:
  "\<exists>s t. clnt_inv s \<and> clnt_step demo_kernel (\<lambda>_ _ s w. Some (s, w)) 1 (insert SpuriousWake fault_free) s t \<and> \<not> clnt_inv t"
proof -
  let ?s = "demo_cstate\<lparr>cs_call := CallWait\<rparr>"
  have "clnt_step demo_kernel (\<lambda>_ _ s w. Some (s, w)) 1 (insert SpuriousWake fault_free) ?s (?s\<lparr>cs_call := CallWake\<rparr>)"
    by (rule step_call_spurious) simp_all
  moreover have "clnt_inv ?s" "\<not> clnt_inv (?s\<lparr>cs_call := CallWake\<rparr>)"
    by (simp_all add: clnt_inv_def demo_cstate_def demo_client_def)
  ultimately show ?thesis by blast
qed

text \<open>
  C18: a call packet that no server answers for, because there is no transport or no entry for its program and version, wedges its
  client. Let the receiver have read such a packet while no caller is just consuming a reply and the callback thread is not
  dispatching. As long as the router refuses no packet and no wait for a reply ends without a signal, whatever the threads do
  from then on, the buffer stays marked busy with this packet in it, so the receiver never reads for this client again; and
  there is a run in which the callback thread has dropped the packet and no thread has it any more.
\<close>

theorem clnt_unanswered_call_wedges:
  assumes s: "cs_call s \<noteq> CallWake" "cs_cb s = (if cb_stop (cs_client s) < 0 then CbNone else CbWait)"
    and r: "rx_read K (cs_client s) (cs_world s) = Some (Inr (c, w))"
    and ty: "msg_type c = Some ty" "ty \<noteq> RPC_MSG_REPLY" and un: "unanswered (cs_xprt s) (in_msg (cl_xdr c))"
  defines "s1 \<equiv> s\<lparr>cs_client := c, cs_world := w, cs_rx := RxDeliver\<rparr>"
  shows "(\<forall>u. steps (clnt_step K call pid fault_free) s1 u \<longrightarrow>
       input_xdr_busy (cs_client u) \<and> in_msg (cl_xdr (cs_client u)) = in_msg (cl_xdr c)) \<and>
     (\<exists>t. steps (clnt_step K call pid fault_free) s1 t \<and> clnt_wedged t)"
proof -
  let ?R = "clnt_step K call pid fault_free"
  note f = rx_frame(1) [OF r]
  have "clnt_stuck (cs_xprt s) (in_msg (cl_xdr c)) s1"
    using s ty un f by (simp add: clnt_stuck_def s1_def msg_type_def)
  from wedge.inv_steps [OF this]
  have busy: "\<forall>u. steps ?R s1 u \<longrightarrow> input_xdr_busy (cs_client u) \<and> in_msg (cl_xdr (cs_client u)) = in_msg (cl_xdr c)"
    by (auto simp: clnt_stuck_def)
  define c1 where "c1 = c\<lparr>got_cb := True, cb_stop := (if cb_stop c < 0 then 0 else cb_stop c)\<rparr>"
  define s2 where "s2 = s1\<lparr>cs_client := c1, cs_rx := RxSelect, cs_cb := CbWait\<rparr>"
  define s3 where "s3 = s2\<lparr>cs_client := c1\<lparr>got_cb := False\<rparr>, cs_xprt := cs_xprt s, cs_world := w\<rparr>"
  have d: "rx_deliver c = Some (False, c1)" using ty by (simp add: rx_deliver_def msg_type_def c1_def)
  have cb: "cs_cb s = (if cb_stop c < 0 then CbNone else CbWait)" using s(2) f by simp
  have "?R s1 s2"
    using step_rx_call [of fault_free s1 c1 K call pid] d cb by (simp add: s1_def s2_def fault_free_def split: if_splits)
  moreover have "?R s2 s3"
    unfolding s3_def
    by (rule step_cb_drop) (use cb_take_unanswered [of "cs_xprt s" c1 K w] un in \<open>simp_all add: s2_def s1_def c1_def fault_free_def\<close>)
  ultimately have "steps ?R s1 s3" by (meson steps_one steps_trans)
  moreover have "clnt_wedged s3"
    using s f by (simp add: clnt_wedged_def s3_def s2_def s1_def c1_def)
  ultimately show ?thesis using busy by blast
qed

text \<open>A transport without servers.\<close>

theorem clnt_unanswered_call_wedges_witness:
  "let s = demo_cstate\<lparr>cs_xprt := Some xprt_zero, cs_client := demo_received, cs_world := demo_world, cs_rx := RxDeliver\<rparr>
   in \<exists>t. steps (clnt_step demo_kernel (\<lambda>_ _ s w. Some (s, w)) 1 fault_free) s t \<and> clnt_wedged t \<and> input_xdr_busy (cs_client t)"
proof -
  let ?s = "demo_cstate\<lparr>cs_xprt := Some xprt_zero\<rparr>"
  have len: "length (in_msg (cl_xdr demo_received)) = 2048"
    using xdr_ok_zero xdr_ok_arrive [of "cl_xdr demo_client" "be32s [7, RPC_MSG_CALL]"] by (simp add: demo_received_def demo_client_def xdr_ok_def)
  have ld: "\<exists>v. load32 (in_msg (cl_xdr demo_received)) 3 = Some v" "\<exists>v. load32 (in_msg (cl_xdr demo_received)) 4 = Some v"
    using len by (simp_all add: load32_def mem_read_def)
  then have un: "unanswered (cs_xprt ?s) (in_msg (cl_xdr demo_received))"
    by (auto simp: unanswered_def svc_find_def xprt_zero_def)
  have "cs_call ?s \<noteq> CallWake" "cs_cb ?s = (if cb_stop (cs_client ?s) < 0 then CbNone else CbWait)"
    "rx_read demo_kernel (cs_client ?s) (cs_world ?s) = Some (Inr (demo_received, demo_world))" "RPC_MSG_CALL \<noteq> RPC_MSG_REPLY"
    using demo_read by (simp_all add: demo_cstate_def demo_client_def rpc_enum_defs)
  from clnt_unanswered_call_wedges [OF this(1,2,3) demo_deliver(2) this(4) un, of "\<lambda>_ _ s w. Some (s, w)" 1]
  show ?thesis by (auto simp: Let_def)
qed

end
