(* ===== verification/Gps_Conf.thy ===== *)
theory Gps_Conf
  imports Prelude
begin

text \<open>
  The configuration file of the GPS library, \<open>parse_gps_conf\<close> of \<open>libgps/leo-gps-rpc.c\<close>, with
  the C library functions it uses: the words of \<open>fscanf\<close>, \<open>strstr\<close> and \<open>atoi\<close>.

  A word is stored in the 256 characters of \<open>str\<close>, where the rest of longer earlier words stays
  behind its terminator. \<open>atoi\<close> saturates as \<open>strtol\<close> does in the C library of the device; running
  off the end of the buffer is undefined.
\<close>

subsection \<open>C strings\<close>

abbreviation NUL :: char where "NUL \<equiv> CHR 0x00"

definition isspace :: "char \<Rightarrow> bool" where
  "isspace c \<longleftrightarrow> (of_char c :: nat) \<in> {9, 10, 11, 12, 13, 32}"

definition isdigit :: "char \<Rightarrow> bool" where
  "isdigit c \<longleftrightarrow> 48 \<le> (of_char c :: nat) \<and> (of_char c :: nat) \<le> 57"

fun c_string :: "string \<Rightarrow> string option" where
  "c_string [] = None"
| "c_string (c # cs) = (if c = NUL then Some [] else map_option ((#) c) (c_string cs))"

fun strstr :: "string \<Rightarrow> string \<Rightarrow> nat option" where
  "strstr [] key = (if key = [] then Some 0 else None)"
| "strstr (c # cs) key =
     (if take (length key) (c # cs) = key then Some 0 else map_option Suc (strstr cs key))"

fun atoi_digits :: "int \<Rightarrow> string \<Rightarrow> int option" where
  "atoi_digits acc [] = None"
| "atoi_digits acc (c # cs) =
     (if isdigit c then atoi_digits (acc * 10 + (of_char c - 48)) cs else Some acc)"

definition saturate :: "int \<Rightarrow> int" where
  "saturate i = max (- (2 ^ 31)) (min (2 ^ 31 - 1) i)"

definition atoi :: "string \<Rightarrow> int option" where
  "atoi s =
     (case dropWhile isspace s of
        [] \<Rightarrow> None
      | c # cs \<Rightarrow>
          if c = CHR ''-'' then map_option (\<lambda>i. saturate (- i)) (atoi_digits 0 cs)
          else if c = CHR ''+'' then map_option saturate (atoi_digits 0 cs)
          else map_option saturate (atoi_digits 0 (c # cs)))"

text \<open>The words that \<open>fscanf(file, "%s", str)\<close> delivers until \<open>EOF\<close>.\<close>

function fscanf_words :: "string \<Rightarrow> string list" where
  "fscanf_words file =
     (let f = dropWhile isspace file in
      if f = [] then []
      else takeWhile (\<lambda>c. \<not> isspace c) f # fscanf_words (dropWhile (\<lambda>c. \<not> isspace c) f))"
  by pat_completeness auto
termination
proof (relation "measure length", goal_cases)
  case 1
  show ?case by simp
next
  case (2 str f)
  then obtain c cs where f: "dropWhile isspace str = c # cs" "\<not> isspace c"
    by (metis hd_dropWhile list.exhaust_sel)
  have "length (dropWhile (\<lambda>c. \<not> isspace c) (c # cs)) \<le> length cs"
    using f(2) by (simp add: length_dropWhile_le)
  moreover have "length (c # cs) \<le> length str"
    using length_dropWhile_le [of isspace str] f(1) by simp
  ultimately show ?case using 2 f(1) by simp
qed

declare fscanf_words.simps [simp del]

subsection \<open>The settings\<close>

record gps_conf =
  CHECKED :: "u8 list"
  XTRA_AUTO_DOWNLOAD_ENABLED :: u8
  XTRA_DOWNLOAD_INTERVAL :: u8
  CLEANUP_ENABLED :: u8
  SESSION_TIMEOUT :: u8
  MEASUREMENT_PRECISION :: u8

definition gps_conf_init :: gps_conf where
  "gps_conf_init = \<lparr>CHECKED = [0, 0, 0, 0], XTRA_AUTO_DOWNLOAD_ENABLED = 0,
     XTRA_DOWNLOAD_INTERVAL = 24, CLEANUP_ENABLED = 1, SESSION_TIMEOUT = 2,
     MEASUREMENT_PRECISION = 10\<rparr>"

definition get_cleanup_value :: "gps_conf \<Rightarrow> u8" where
  "get_cleanup_value st = CLEANUP_ENABLED st"

definition get_precision_value :: "gps_conf \<Rightarrow> u8" where
  "get_precision_value st = MEASUREMENT_PRECISION st"

definition check_auto_download :: string where "check_auto_download = ''GPS1_XTRA_AUTO_DOWNLOAD_ENABLED''"
definition check_interval :: string where "check_interval = ''GPS1_XTRA_DOWNLOAD_INTERVAL''"
definition check_cleanup :: string where "check_cleanup = ''GPS1_CLEANUP_ENABLED''"
definition check_timeout :: string where "check_timeout = ''GPS1_SESSION_TIMEOUT''"
definition check_precision :: string where "check_precision = ''GPS1_MEASUREMENT_PRECISION''"

subsection \<open>The parser\<close>

text \<open>\<open>strstr(str, key)\<close> and the number one character behind the key, \<open>Some None\<close> without the key.\<close>

definition conf_value :: "string \<Rightarrow> string \<Rightarrow> int option option" where
  "conf_value str key =
     do { s \<leftarrow> c_string str;
          case strstr s key of
            None \<Rightarrow> Some None
          | Some p \<Rightarrow> map_option Some (atoi (drop (p + length key + 1) str)) }"

text \<open>A setting that is taken from its first occurrence: the blocks under \<open>!CHECKED[k]\<close>.\<close>

definition conf_option ::
  "int \<Rightarrow> string \<Rightarrow> (int \<Rightarrow> bool) \<Rightarrow> (u8 \<Rightarrow> gps_conf \<Rightarrow> gps_conf) \<Rightarrow> string \<Rightarrow> gps_conf \<Rightarrow> gps_conf option" where
  "conf_option k key valid store str st =
     do { done \<leftarrow> mem_get (CHECKED st) k;
          if done \<noteq> 0 then Some st
          else
            do { v \<leftarrow> conf_value str key;
                 case v of
                   None \<Rightarrow> Some st
                 | Some i \<Rightarrow>
                     do { let st1 = (if valid i then store (word_of_int i) st else st);
                          ch \<leftarrow> mem_set (CHECKED st1) k 1;
                          Some (st1\<lparr>CHECKED := ch\<rparr>) } } }"

definition conf_auto :: "string \<Rightarrow> gps_conf \<Rightarrow> gps_conf option" where
  "conf_auto = conf_option 1 check_auto_download (\<lambda>i. i = 0 \<or> i = 1)
     (\<lambda>v st. st\<lparr>XTRA_AUTO_DOWNLOAD_ENABLED := v\<rparr>)"

definition conf_interval :: "string \<Rightarrow> gps_conf \<Rightarrow> gps_conf option" where
  "conf_interval str st =
     (if XTRA_AUTO_DOWNLOAD_ENABLED st \<noteq> 0 then
        do { v \<leftarrow> conf_value str check_interval;
             case v of
               None \<Rightarrow> Some st
             | Some i \<Rightarrow>
                 Some (if i > 0 \<and> i < 169 then st\<lparr>XTRA_DOWNLOAD_INTERVAL := word_of_int i\<rparr> else st) }
      else Some st)"

definition conf_cleanup :: "string \<Rightarrow> gps_conf \<Rightarrow> gps_conf option" where
  "conf_cleanup = conf_option 2 check_cleanup (\<lambda>i. i = 0 \<or> i = 1) (\<lambda>v st. st\<lparr>CLEANUP_ENABLED := v\<rparr>)"

definition conf_timeout :: "string \<Rightarrow> gps_conf \<Rightarrow> gps_conf option" where
  "conf_timeout = conf_option 3 check_timeout (\<lambda>i. i > 1 \<and> i < 121) (\<lambda>v st. st\<lparr>SESSION_TIMEOUT := v\<rparr>)"

definition conf_precision :: "string \<Rightarrow> gps_conf \<Rightarrow> gps_conf option" where
  "conf_precision = conf_option 4 check_precision (\<lambda>i. i > 0 \<and> i < 16)
     (\<lambda>v st. st\<lparr>MEASUREMENT_PRECISION := v\<rparr>)"

definition conf_word :: "string \<Rightarrow> gps_conf \<Rightarrow> gps_conf option" where
  "conf_word str st =
     do { st1 \<leftarrow> conf_auto str st;
          st2 \<leftarrow> conf_interval str st1;
          st3 \<leftarrow> conf_cleanup str st2;
          st4 \<leftarrow> conf_timeout str st3;
          conf_precision str st4 }"

fun conf_loop :: "string \<Rightarrow> string list \<Rightarrow> gps_conf \<Rightarrow> gps_conf option" where
  "conf_loop str [] st = Some st"
| "conf_loop str (w # ws) st =
     do { str1 \<leftarrow> mem_write str 0 (w @ [NUL]);
          st1 \<leftarrow> conf_word str1 st;
          conf_loop str1 ws st1 }"

text \<open>\<open>file\<close> is \<open>None\<close> when \<open>fopen\<close> fails; \<open>junk\<close> is the uninitialised buffer \<open>str\<close>.\<close>

definition parse_gps_conf :: "string option \<Rightarrow> string \<Rightarrow> gps_conf \<Rightarrow> (int \<times> gps_conf) option" where
  "parse_gps_conf file junk st =
     (case file of
        None \<Rightarrow> Some (1, st)
      | Some f \<Rightarrow> do { st1 \<leftarrow> conf_loop junk (fscanf_words f) st; Some (0, st1) })"

subsection \<open>What a word says\<close>

text \<open>
  The reading of a word without the buffer: the number behind the keyword. A word is proper when it
  fits the buffer and something follows each keyword it contains.
\<close>

definition text_int :: "string \<Rightarrow> int" where
  "text_int s = (case atoi (s @ [NUL]) of None \<Rightarrow> 0 | Some i \<Rightarrow> i)"

definition word_value :: "string \<Rightarrow> string \<Rightarrow> int option" where
  "word_value key w = map_option (\<lambda>p. text_int (drop (p + length key + 1) w)) (strstr w key)"

definition conf_keys :: "string list" where
  "conf_keys = [check_auto_download, check_interval, check_cleanup, check_timeout, check_precision]"

definition proper_word :: "string \<Rightarrow> bool" where
  "proper_word w \<longleftrightarrow> NUL \<notin> set w \<and> length w \<le> 255 \<and>
     list_all (\<lambda>key. case strstr w key of None \<Rightarrow> True | Some p \<Rightarrow> p + length key < length w) conf_keys"

text \<open>A setting: the first word with the keyword decides, and only a valid number changes the default.\<close>

definition setting :: "string \<Rightarrow> (int \<Rightarrow> bool) \<Rightarrow> string list \<Rightarrow> u8 \<Rightarrow> u8" where
  "setting key valid ws old =
     (case List.find (\<lambda>w. word_value key w \<noteq> None) ws of
        None \<Rightarrow> old
      | Some w \<Rightarrow> (case word_value key w of
                    None \<Rightarrow> old
                  | Some i \<Rightarrow> if valid i then word_of_int i else old))"

definition conf_ranges :: "gps_conf \<Rightarrow> bool" where
  "conf_ranges st \<longleftrightarrow>
     XTRA_AUTO_DOWNLOAD_ENABLED st \<le> 1 \<and>
     1 \<le> XTRA_DOWNLOAD_INTERVAL st \<and> XTRA_DOWNLOAD_INTERVAL st \<le> 168 \<and>
     CLEANUP_ENABLED st \<le> 1 \<and>
     2 \<le> SESSION_TIMEOUT st \<and> SESSION_TIMEOUT st \<le> 120 \<and>
     1 \<le> MEASUREMENT_PRECISION st \<and> MEASUREMENT_PRECISION st \<le> 15"

subsection \<open>Lemmas: the buffer\<close>

lemma c_string_append: "NUL \<notin> set w \<Longrightarrow> c_string (w @ NUL # rest) = Some w"
  by (induction w) auto

lemma NUL_class [simp]: "\<not> isdigit NUL" "\<not> isspace NUL"
  by (simp_all add: isdigit_def isspace_def)

lemma atoi_digits_append: "\<exists>i. \<forall>rest. atoi_digits acc (s @ NUL # rest) = Some i"
  by (induction s arbitrary: acc) auto

lemma atoi_append: "\<exists>i. \<forall>rest. atoi (s @ NUL # rest) = Some i"
proof (induction s)
  case Nil
  then show ?case by (auto simp: atoi_def)
next
  case (Cons c s)
  obtain i where "\<forall>rest. atoi_digits 0 (s @ NUL # rest) = Some i"
    using atoi_digits_append by blast
  moreover obtain j where "\<forall>rest. atoi_digits 0 ((c # s) @ NUL # rest) = Some j"
    using atoi_digits_append by blast
  ultimately show ?case
    using Cons by (cases "isspace c") (auto simp: atoi_def simp del: atoi_digits.simps)
qed

lemma atoi_text: "atoi (s @ NUL # rest) = Some (text_int s)"
  using atoi_append [of s] by (auto simp: text_int_def)

lemma conf_value_word:
  assumes "proper_word w" "key \<in> set conf_keys"
  shows "conf_value (w @ NUL # rest) key = Some (word_value key w)"
proof (cases "strstr w key")
  case None
  with assms show ?thesis
    by (simp add: conf_value_def word_value_def proper_word_def c_string_append)
next
  case (Some p)
  with assms have "p + length key < length w"
    by (auto simp: proper_word_def list_all_iff)
  then have "drop (p + length key + 1) (w @ NUL # rest) = drop (p + length key + 1) w @ NUL # rest"
    by simp
  with assms Some show ?thesis
    by (simp add: conf_value_def word_value_def proper_word_def c_string_append atoi_text
        del: drop_append)
qed

subsection \<open>Lemmas: the settings\<close>

text \<open>The part of the state that one setting concerns: whether it has been seen, and its value.\<close>

definition option_step :: "string \<Rightarrow> (int \<Rightarrow> bool) \<Rightarrow> string \<Rightarrow> bool \<times> u8 \<Rightarrow> bool \<times> u8" where
  "option_step key valid w cv =
     (if fst cv then cv
      else case word_value key w of
        None \<Rightarrow> cv | Some i \<Rightarrow> (True, if valid i then word_of_int i else snd cv))"

lemma option_steps_seen: "fold (option_step key valid) ws (True, v) = (True, v)"
  by (induction ws) (auto simp: option_step_def)

lemma option_step_new:
  "option_step key valid w (False, v) = (case word_value key w of
     None \<Rightarrow> (False, v) | Some i \<Rightarrow> (True, if valid i then word_of_int i else v))"
  by (simp add: option_step_def split: option.split)

lemma fst_option_step: "fst (option_step key valid w cv) \<longleftrightarrow> fst cv \<or> word_value key w \<noteq> None"
  by (auto simp: option_step_def split: option.split)

lemma option_steps: "snd (fold (option_step key valid) ws (False, v)) = setting key valid ws v"
proof (induction ws)
  case Nil
  then show ?case by (simp add: setting_def)
next
  case (Cons w ws)
  then show ?case
    by (cases "word_value key w") (simp_all add: option_step_new setting_def option_steps_seen)
qed

definition seen :: "gps_conf \<Rightarrow> nat \<Rightarrow> bool" where
  "seen st k \<longleftrightarrow> CHECKED st ! k \<noteq> 0"

definition auto_part :: "gps_conf \<Rightarrow> bool \<times> u8" where
  "auto_part st = (seen st 1, XTRA_AUTO_DOWNLOAD_ENABLED st)"

definition cleanup_part :: "gps_conf \<Rightarrow> bool \<times> u8" where
  "cleanup_part st = (seen st 2, CLEANUP_ENABLED st)"

definition timeout_part :: "gps_conf \<Rightarrow> bool \<times> u8" where
  "timeout_part st = (seen st 3, SESSION_TIMEOUT st)"

definition precision_part :: "gps_conf \<Rightarrow> bool \<times> u8" where
  "precision_part st = (seen st 4, MEASUREMENT_PRECISION st)"

lemmas part_defs = auto_part_def cleanup_part_def timeout_part_def precision_part_def seen_def

abbreviation auto_valid :: "int \<Rightarrow> bool" where "auto_valid \<equiv> \<lambda>i. i = 0 \<or> i = 1"
abbreviation timeout_valid :: "int \<Rightarrow> bool" where "timeout_valid \<equiv> \<lambda>i. i > 1 \<and> i < 121"
abbreviation precision_valid :: "int \<Rightarrow> bool" where "precision_valid \<equiv> \<lambda>i. i > 0 \<and> i < 16"

text \<open>What one block does to a word in the buffer, as a function of the state.\<close>

definition block ::
  "nat \<Rightarrow> string \<Rightarrow> (int \<Rightarrow> bool) \<Rightarrow> (u8 \<Rightarrow> gps_conf \<Rightarrow> gps_conf) \<Rightarrow> string \<Rightarrow> gps_conf \<Rightarrow> gps_conf" where
  "block k key valid store w st =
     (if seen st k then st
      else case word_value key w of
        None \<Rightarrow> st
      | Some i \<Rightarrow> (let st1 = (if valid i then store (word_of_int i) st else st)
                   in st1\<lparr>CHECKED := (CHECKED st1)[k := 1]\<rparr>))"

lemma conf_option_block:
  assumes "proper_word w" "key \<in> set conf_keys" "k < length (CHECKED st)"
    "\<And>v. length (CHECKED (store v st)) = length (CHECKED st)"
  shows "conf_option (int k) key valid store (w @ NUL # rest) st = Some (block k key valid store w st)"
  using assms
  by (auto simp: conf_option_def block_def seen_def mem_get_def mem_set_def conf_value_word Let_def
      split: option.split)

lemma block_length:
  "(\<And>v. length (CHECKED (store v st)) = length (CHECKED st)) \<Longrightarrow>
   length (CHECKED (block k key valid store w st)) = length (CHECKED st)"
  by (auto simp: block_def Let_def split: option.split)

definition interval_block :: "string \<Rightarrow> gps_conf \<Rightarrow> gps_conf" where
  "interval_block w st =
     (if XTRA_AUTO_DOWNLOAD_ENABLED st \<noteq> 0 then
        (case word_value check_interval w of
           None \<Rightarrow> st
         | Some i \<Rightarrow> if i > 0 \<and> i < 169 then st\<lparr>XTRA_DOWNLOAD_INTERVAL := word_of_int i\<rparr> else st)
      else st)"

lemma conf_interval_block:
  assumes "proper_word w"
  shows "conf_interval (w @ NUL # rest) st = Some (interval_block w st)"
  using assms conf_value_word [OF assms, of check_interval rest]
  by (auto simp: conf_interval_def interval_block_def conf_keys_def split: option.split)

definition word_block :: "string \<Rightarrow> gps_conf \<Rightarrow> gps_conf" where
  "word_block w st =
     block 4 check_precision precision_valid (\<lambda>v st. st\<lparr>MEASUREMENT_PRECISION := v\<rparr>) w
      (block 3 check_timeout timeout_valid (\<lambda>v st. st\<lparr>SESSION_TIMEOUT := v\<rparr>) w
        (block 2 check_cleanup auto_valid (\<lambda>v st. st\<lparr>CLEANUP_ENABLED := v\<rparr>) w
          (interval_block w
            (block 1 check_auto_download auto_valid (\<lambda>v st. st\<lparr>XTRA_AUTO_DOWNLOAD_ENABLED := v\<rparr>) w st))))"

lemma length_blocks [simp]:
  "length (CHECKED (interval_block w st)) = length (CHECKED st)"
  "length (CHECKED (block k key valid (\<lambda>v st. st\<lparr>XTRA_AUTO_DOWNLOAD_ENABLED := v\<rparr>) w st)) = length (CHECKED st)"
  "length (CHECKED (block k key valid (\<lambda>v st. st\<lparr>CLEANUP_ENABLED := v\<rparr>) w st)) = length (CHECKED st)"
  "length (CHECKED (block k key valid (\<lambda>v st. st\<lparr>SESSION_TIMEOUT := v\<rparr>) w st)) = length (CHECKED st)"
  "length (CHECKED (block k key valid (\<lambda>v st. st\<lparr>MEASUREMENT_PRECISION := v\<rparr>) w st)) = length (CHECKED st)"
  "length (CHECKED (word_block w st)) = length (CHECKED st)"
  by (auto simp: interval_block_def block_length word_block_def split: option.split)

lemma conf_word_block:
  assumes "proper_word w" "4 < length (CHECKED st)"
  shows "conf_word (w @ NUL # rest) st = Some (word_block w st)"
proof -
  note b = conf_option_block [OF assms(1), where rest = rest]
  show ?thesis
    using assms(2) b [where k = 1] b [where k = 2] b [where k = 3] b [where k = 4]
    by (simp add: conf_word_def conf_auto_def conf_cleanup_def conf_timeout_def conf_precision_def
        conf_interval_block [OF assms(1)] conf_keys_def word_block_def)
qed

lemma seen_block:
  assumes "k < length (CHECKED st)" "\<And>v. CHECKED (store v st) = CHECKED st"
  shows "seen (block k key valid store w st) j =
    (if j = k then seen st k \<or> word_value key w \<noteq> None else seen st j)"
  using assms by (auto simp: block_def seen_def Let_def split: option.split)

lemma block_value:
  "XTRA_AUTO_DOWNLOAD_ENABLED (block k key valid (\<lambda>v st. st\<lparr>XTRA_AUTO_DOWNLOAD_ENABLED := v\<rparr>) w st) =
     snd (option_step key valid w (seen st k, XTRA_AUTO_DOWNLOAD_ENABLED st))"
  "CLEANUP_ENABLED (block k key valid (\<lambda>v st. st\<lparr>CLEANUP_ENABLED := v\<rparr>) w st) =
     snd (option_step key valid w (seen st k, CLEANUP_ENABLED st))"
  "SESSION_TIMEOUT (block k key valid (\<lambda>v st. st\<lparr>SESSION_TIMEOUT := v\<rparr>) w st) =
     snd (option_step key valid w (seen st k, SESSION_TIMEOUT st))"
  "MEASUREMENT_PRECISION (block k key valid (\<lambda>v st. st\<lparr>MEASUREMENT_PRECISION := v\<rparr>) w st) =
     snd (option_step key valid w (seen st k, MEASUREMENT_PRECISION st))"
  by (auto simp: block_def option_step_def Let_def split: option.split)

lemma block_other [simp]:
  "CLEANUP_ENABLED (block k key valid (\<lambda>v st. st\<lparr>XTRA_AUTO_DOWNLOAD_ENABLED := v\<rparr>) w st) = CLEANUP_ENABLED st"
  "SESSION_TIMEOUT (block k key valid (\<lambda>v st. st\<lparr>XTRA_AUTO_DOWNLOAD_ENABLED := v\<rparr>) w st) = SESSION_TIMEOUT st"
  "MEASUREMENT_PRECISION (block k key valid (\<lambda>v st. st\<lparr>XTRA_AUTO_DOWNLOAD_ENABLED := v\<rparr>) w st) = MEASUREMENT_PRECISION st"
  "XTRA_DOWNLOAD_INTERVAL (block k key valid (\<lambda>v st. st\<lparr>XTRA_AUTO_DOWNLOAD_ENABLED := v\<rparr>) w st) = XTRA_DOWNLOAD_INTERVAL st"
  "XTRA_AUTO_DOWNLOAD_ENABLED (block k key valid (\<lambda>v st. st\<lparr>CLEANUP_ENABLED := v\<rparr>) w st) = XTRA_AUTO_DOWNLOAD_ENABLED st"
  "SESSION_TIMEOUT (block k key valid (\<lambda>v st. st\<lparr>CLEANUP_ENABLED := v\<rparr>) w st) = SESSION_TIMEOUT st"
  "MEASUREMENT_PRECISION (block k key valid (\<lambda>v st. st\<lparr>CLEANUP_ENABLED := v\<rparr>) w st) = MEASUREMENT_PRECISION st"
  "XTRA_DOWNLOAD_INTERVAL (block k key valid (\<lambda>v st. st\<lparr>CLEANUP_ENABLED := v\<rparr>) w st) = XTRA_DOWNLOAD_INTERVAL st"
  "XTRA_AUTO_DOWNLOAD_ENABLED (block k key valid (\<lambda>v st. st\<lparr>SESSION_TIMEOUT := v\<rparr>) w st) = XTRA_AUTO_DOWNLOAD_ENABLED st"
  "CLEANUP_ENABLED (block k key valid (\<lambda>v st. st\<lparr>SESSION_TIMEOUT := v\<rparr>) w st) = CLEANUP_ENABLED st"
  "MEASUREMENT_PRECISION (block k key valid (\<lambda>v st. st\<lparr>SESSION_TIMEOUT := v\<rparr>) w st) = MEASUREMENT_PRECISION st"
  "XTRA_DOWNLOAD_INTERVAL (block k key valid (\<lambda>v st. st\<lparr>SESSION_TIMEOUT := v\<rparr>) w st) = XTRA_DOWNLOAD_INTERVAL st"
  "XTRA_AUTO_DOWNLOAD_ENABLED (block k key valid (\<lambda>v st. st\<lparr>MEASUREMENT_PRECISION := v\<rparr>) w st) = XTRA_AUTO_DOWNLOAD_ENABLED st"
  "CLEANUP_ENABLED (block k key valid (\<lambda>v st. st\<lparr>MEASUREMENT_PRECISION := v\<rparr>) w st) = CLEANUP_ENABLED st"
  "SESSION_TIMEOUT (block k key valid (\<lambda>v st. st\<lparr>MEASUREMENT_PRECISION := v\<rparr>) w st) = SESSION_TIMEOUT st"
  "XTRA_DOWNLOAD_INTERVAL (block k key valid (\<lambda>v st. st\<lparr>MEASUREMENT_PRECISION := v\<rparr>) w st) = XTRA_DOWNLOAD_INTERVAL st"
  "XTRA_AUTO_DOWNLOAD_ENABLED (interval_block w st) = XTRA_AUTO_DOWNLOAD_ENABLED st"
  "CLEANUP_ENABLED (interval_block w st) = CLEANUP_ENABLED st"
  "SESSION_TIMEOUT (interval_block w st) = SESSION_TIMEOUT st"
  "MEASUREMENT_PRECISION (interval_block w st) = MEASUREMENT_PRECISION st"
  "CHECKED (interval_block w st) = CHECKED st"
  by (auto simp: block_def interval_block_def Let_def split: option.split)

lemma seen_interval [simp]: "seen (interval_block w st) k = seen st k"
  by (simp add: seen_def)

lemma word_block_parts:
  assumes "4 < length (CHECKED st)"
  shows "auto_part (word_block w st) = option_step check_auto_download auto_valid w (auto_part st)"
    "cleanup_part (word_block w st) = option_step check_cleanup auto_valid w (cleanup_part st)"
    "timeout_part (word_block w st) = option_step check_timeout timeout_valid w (timeout_part st)"
    "precision_part (word_block w st) = option_step check_precision precision_valid w (precision_part st)"
  using assms
  by (simp_all add: word_block_def auto_part_def cleanup_part_def timeout_part_def precision_part_def
      block_value prod_eq_iff seen_block fst_option_step)

text \<open>The loop over the words, with what was said about every word carried along.\<close>

definition blocks :: "string list \<Rightarrow> gps_conf \<Rightarrow> gps_conf" where
  "blocks ws st = fold word_block ws st"

lemma length_blocks_all [simp]: "length (CHECKED (blocks ws st)) = length (CHECKED st)"
  by (induction ws arbitrary: st) (auto simp: blocks_def)

lemma conf_loop_blocks:
  assumes "\<forall>w \<in> set ws. proper_word w" "length str = 256" "4 < length (CHECKED st)"
  shows "conf_loop str ws st = Some (blocks ws st)"
  using assms
proof (induction ws arbitrary: str st)
  case Nil
  then show ?case by (simp add: blocks_def)
next
  case (Cons w ws)
  have len: "length w \<le> 255" using Cons.prems by (simp add: proper_word_def)
  let ?str = "w @ NUL # drop (Suc (length w)) str"
  have "mem_write str 0 (w @ [NUL]) = Some ?str" "length ?str = 256"
    using len Cons.prems by (simp_all add: mem_write_def)
  with Cons show ?case
    by (simp add: conf_word_block blocks_def)
qed

lemma blocks_parts:
  assumes "4 < length (CHECKED st)"
  shows "auto_part (blocks ws st) = fold (option_step check_auto_download auto_valid) ws (auto_part st)"
    "cleanup_part (blocks ws st) = fold (option_step check_cleanup auto_valid) ws (cleanup_part st)"
    "timeout_part (blocks ws st) = fold (option_step check_timeout timeout_valid) ws (timeout_part st)"
    "precision_part (blocks ws st) = fold (option_step check_precision precision_valid) ws (precision_part st)"
  using assms
  by (induction ws arbitrary: st) (simp_all add: blocks_def word_block_parts)

lemma setting_keeps:
  assumes "P v" "\<And>i. valid i \<Longrightarrow> P (word_of_int i)"
  shows "P (setting key valid ws v)"
  using assms by (auto simp: setting_def split: option.split)

lemma interval_keeps:
  assumes "1 \<le> XTRA_DOWNLOAD_INTERVAL st" "XTRA_DOWNLOAD_INTERVAL st \<le> 168"
  shows "1 \<le> XTRA_DOWNLOAD_INTERVAL (blocks ws st) \<and> XTRA_DOWNLOAD_INTERVAL (blocks ws st) \<le> 168"
  using assms
proof (induction ws arbitrary: st)
  case Nil
  then show ?case by (simp add: blocks_def)
next
  case (Cons w ws)
  have "1 \<le> (word_of_int i :: u8) \<and> (word_of_int i :: u8) \<le> 168" if "0 < i" "i < 169" for i
    using that by (auto simp: word_le_def uint_word_of_int_eq take_bit_int_eq_self)
  with Cons.prems have "1 \<le> XTRA_DOWNLOAD_INTERVAL (word_block w st) \<and> XTRA_DOWNLOAD_INTERVAL (word_block w st) \<le> 168"
    by (auto simp: word_block_def interval_block_def split: option.split)
  with Cons.IH show ?case by (simp add: blocks_def)
qed

subsection \<open>Properties\<close>

lemma setting_range:
  assumes "lo \<le> v" "v \<le> hi" "\<And>i. valid i \<Longrightarrow> uint lo \<le> i \<and> i \<le> uint hi"
  shows "lo \<le> setting key valid ws v" "setting key valid ws v \<le> hi"
proof -
  have "lo \<le> word_of_int i \<and> (word_of_int i :: u8) \<le> hi" if "valid i" for i
  proof -
    have "uint lo \<le> i" "i \<le> uint hi" using assms(3) that by auto
    moreover have "0 \<le> uint lo" "uint hi < 256" using uint_ge_0 [of lo] unsigned_less [of hi, where ?'a = int] by simp_all
    ultimately have "0 \<le> i" "i < 2 ^ 8" by (linarith, simp)
    then have "take_bit 8 i = i" by (rule take_bit_int_eq_self)
    with \<open>uint lo \<le> i\<close> \<open>i \<le> uint hi\<close> show ?thesis by (simp add: word_le_def uint_word_of_int_eq)
  qed
  then show "lo \<le> setting key valid ws v" "setting key valid ws v \<le> hi"
    using setting_keeps [of "\<lambda>v. lo \<le> v" v valid] setting_keeps [of "\<lambda>v. v \<le> hi" v valid] assms(1,2) by auto
qed

text \<open>
  What the parser is meant to do, were the array \<open>CHECKED\<close> as long as the code assumes: it reads every setting that is read once
  from the first word that carries its keyword and keeps all settings in their ranges, provided every word fits the buffer, something follows
  each keyword, and no setting has been read before. The array of the source is one cell shorter; what that means is the property below.
\<close>

theorem parse_gps_conf_correct:
  assumes "\<forall>w \<in> set (fscanf_words f). proper_word w" "length junk = 256" "4 < length (CHECKED st)"
    and "conf_ranges st" "\<not> seen st 1" "\<not> seen st 2" "\<not> seen st 3" "\<not> seen st 4"
  shows "\<exists>st'. parse_gps_conf (Some f) junk st = Some (0, st') \<and> conf_ranges st' \<and>
     XTRA_AUTO_DOWNLOAD_ENABLED st' =
       setting check_auto_download (\<lambda>i. i = 0 \<or> i = 1) (fscanf_words f) (XTRA_AUTO_DOWNLOAD_ENABLED st) \<and>
     CLEANUP_ENABLED st' = setting check_cleanup (\<lambda>i. i = 0 \<or> i = 1) (fscanf_words f) (CLEANUP_ENABLED st) \<and>
     SESSION_TIMEOUT st' = setting check_timeout (\<lambda>i. 1 < i \<and> i < 121) (fscanf_words f) (SESSION_TIMEOUT st) \<and>
     MEASUREMENT_PRECISION st' =
       setting check_precision (\<lambda>i. 0 < i \<and> i < 16) (fscanf_words f) (MEASUREMENT_PRECISION st)"
proof -
  let ?ws = "fscanf_words f"
  let ?st = "blocks ?ws st"
  have set: "XTRA_AUTO_DOWNLOAD_ENABLED ?st =
      setting check_auto_download auto_valid ?ws (XTRA_AUTO_DOWNLOAD_ENABLED st)"
    "CLEANUP_ENABLED ?st = setting check_cleanup auto_valid ?ws (CLEANUP_ENABLED st)"
    "SESSION_TIMEOUT ?st = setting check_timeout timeout_valid ?ws (SESSION_TIMEOUT st)"
    "MEASUREMENT_PRECISION ?st = setting check_precision precision_valid ?ws (MEASUREMENT_PRECISION st)"
    using blocks_parts [OF assms(3), of ?ws, THEN arg_cong [where f = snd]] assms(5-8)
    by (simp_all add: auto_part_def cleanup_part_def timeout_part_def precision_part_def option_steps)
  have "conf_ranges ?st"
    using assms(4) interval_keeps [of st ?ws] unfolding conf_ranges_def set
    by (intro conjI setting_range [where lo = 0 and hi = 1] setting_range [where lo = 2 and hi = 120]
        setting_range [where lo = 1 and hi = 15]) auto
  moreover have "parse_gps_conf (Some f) junk st = Some (0, ?st)"
    using conf_loop_blocks [OF assms(1,2,3)] by (simp add: parse_gps_conf_def)
  ultimately show ?thesis using set by blast
qed

text \<open>A file with two settings, the second out of its range.\<close>

definition demo_conf :: string where
  "demo_conf = ''GPS1_SESSION_TIMEOUT=30 GPS1_CLEANUP_ENABLED=7''"

lemma demo_conf_words:
  "fscanf_words demo_conf = [''GPS1_SESSION_TIMEOUT=30'', ''GPS1_CLEANUP_ENABLED=7'']"
  by (simp add: demo_conf_def fscanf_words.simps isspace_def)

theorem parse_gps_conf_correct_witness:
  "\<exists>st'. parse_gps_conf (Some demo_conf) (replicate 256 NUL) (gps_conf_init\<lparr>CHECKED := [0, 0, 0, 0, 0]\<rparr>) = Some (0, st') \<and>
     conf_ranges st' \<and> SESSION_TIMEOUT st' = 30 \<and> CLEANUP_ENABLED st' = 1"
proof -
  let ?st = "gps_conf_init\<lparr>CHECKED := [0, 0, 0, 0, 0]\<rparr>"
  have "\<forall>w \<in> set (fscanf_words demo_conf). proper_word w"
    by (simp add: demo_conf_words proper_word_def conf_keys_def check_auto_download_def check_interval_def
        check_cleanup_def check_timeout_def check_precision_def)
  moreover have "conf_ranges ?st" by (simp add: conf_ranges_def gps_conf_init_def)
  moreover have "setting check_timeout (\<lambda>i. 1 < i \<and> i < 121) (fscanf_words demo_conf) (SESSION_TIMEOUT ?st) = 30"
    "setting check_cleanup (\<lambda>i. i = 0 \<or> i = 1) (fscanf_words demo_conf) (CLEANUP_ENABLED ?st) = 1"
    by (simp_all add: demo_conf_words setting_def word_value_def check_timeout_def check_cleanup_def
        text_int_def atoi_def isspace_def isdigit_def saturate_def gps_conf_init_def)
  ultimately show ?thesis
    using parse_gps_conf_correct [of demo_conf "replicate 256 NUL" ?st] by (auto simp: seen_def)
qed

lemma conf_option_length:
  assumes "conf_option k key valid store str st = Some st'"
    "\<And>v. length (CHECKED (store v st)) = length (CHECKED st)"
  shows "length (CHECKED st') = length (CHECKED st)"
  using assms
  by (auto simp: conf_option_def mem_set_def Let_def split: Option.bind_splits option.splits if_splits)

lemma conf_length:
  "conf_auto str st = Some st' \<Longrightarrow> length (CHECKED st') = length (CHECKED st)"
  "conf_cleanup str st = Some st' \<Longrightarrow> length (CHECKED st') = length (CHECKED st)"
  "conf_timeout str st = Some st' \<Longrightarrow> length (CHECKED st') = length (CHECKED st)"
  "conf_interval str st = Some st' \<Longrightarrow> length (CHECKED st') = length (CHECKED st)"
  unfolding conf_auto_def conf_cleanup_def conf_timeout_def
  by (auto dest!: conf_option_length simp: conf_interval_def split: if_splits Option.bind_splits option.splits)

text \<open>
  C23: with the four cells that \<open>CHECKED\<close> has in the source, the parser never reads a setting within the rules of the
  language. Without a file it returns 1, for a file without a word it returns 0, and in both cases no setting changes. For every
  file with a word, whatever the word is, it is undefined: the first word already makes it read \<open>CHECKED[4]\<close>, behind the array.
\<close>

theorem parse_gps_conf_outcome:
  assumes "length (CHECKED st) = 4"
  shows "parse_gps_conf opened junk st =
    (case opened of None \<Rightarrow> Some (1, st) | Some f \<Rightarrow> if fscanf_words f = [] then Some (0, st) else None)"
proof (cases opened)
  case None
  then show ?thesis by (simp add: parse_gps_conf_def)
next
  case (Some f)
  have "conf_word str st = None" for str
  proof (rule ccontr)
    assume "conf_word str st \<noteq> None"
    then obtain st1 st2 st3 st4 where "conf_auto str st = Some st1" "conf_interval str st1 = Some st2"
        "conf_cleanup str st2 = Some st3" "conf_timeout str st3 = Some st4" "conf_precision str st4 \<noteq> None"
      by (auto simp: conf_word_def split: Option.bind_splits)
    then have "length (CHECKED st4) = 4" "conf_precision str st4 \<noteq> None"
      using assms(1) by (simp_all add: conf_length)
    then show False by (simp add: conf_precision_def conf_option_def mem_get_def)
  qed
  then show ?thesis
    using Some by (cases "fscanf_words f") (auto simp: parse_gps_conf_def split: Option.bind_splits)
qed

theorem parse_gps_conf_outcome_witness:
  "parse_gps_conf (Some demo_conf) (replicate 256 NUL) gps_conf_init = None \<and>
   parse_gps_conf (Some '' '') (replicate 256 NUL) gps_conf_init = Some (0, gps_conf_init)"
proof -
  have c: "length (CHECKED gps_conf_init) = 4" by (simp add: gps_conf_init_def)
  have "fscanf_words '' '' = []" by (simp add: fscanf_words.simps isspace_def)
  then show ?thesis
    using parse_gps_conf_outcome [OF c, of "Some demo_conf" "replicate 256 NUL"]
      parse_gps_conf_outcome [OF c, of "Some '' ''" "replicate 256 NUL"]
    by (simp add: demo_conf_words)
qed

end
