(* ===== verification/Gps_Calls.thy ===== *)
theory Gps_Calls
  imports Clnt Gps_Conf
begin

text \<open>
  The calls of \<open>libgps/leo-gps-rpc.c\<close> to the position service of the modem: the filters of their
  arguments, one function per remote procedure, and the operations the GPS library offers on top of
  them.

  \<open>'w rpc_env\<close> collects what is outside this file: the kernel, what happens while a call waits for
  its reply, the allocator, and the contents of uninitialised variables. A call that fails ends the
  process: the result \<open>Inl (-1)\<close> stands for \<open>exit(-1)\<close>, \<open>Inr\<close> for a normal return.
  While a call waits, the other threads may change its client and the world, nothing else.
\<close>

subsection \<open>State\<close>

record 'w rpc_env =
  e_kernel :: "'w kernel"
  e_wait :: "CLIENT \<Rightarrow> 'w \<Rightarrow> (CLIENT \<times> 'w) option"
  e_malloc :: allocator
  e_reply :: rpc_reply_header
  e_res :: u32

record 'w gps_rpc =
  client_IDs :: "u32 list"
  no_fix :: u32
  use_nmea :: u32
  g_clnt :: "nat option"
  g_svc :: "nat option"
  g_conf :: gps_conf
  g_clients :: clnt_globals
  g_xprts :: xprt_globals
  g_xprt :: SVCXPRT
  g_world :: 'w

type_synonym ('a, 'w) rpc_result = "(int + 'a \<times> 'w gps_rpc) option"

subsection \<open>Filters\<close>

text \<open>\<open>xdr_args\<close> and \<open>xdr_result_int\<close> ignore the result of the operation they call.\<close>

fun xdr_args_loop :: "xdr_s_type \<Rightarrow> u32 list \<Rightarrow> xdr_s_type option" where
  "xdr_args_loop x [] = Some x"
| "xdr_args_loop x (v # vs) = do { (_, x1) \<leftarrow> xdr_std_send_uint32 x v; xdr_args_loop x1 vs }"

definition xdr_args :: "u32 list xdrproc" where
  "xdr_args x par = do { x1 \<leftarrow> xdr_args_loop x par; Some (True, x1, par) }"

definition xdr_result_int :: "u32 xdrproc" where
  "xdr_result_int x result =
     do { (r, x1) \<leftarrow> xdr_std_recv_uint32 x;
          Some (True, x1, case r of None \<Rightarrow> result | Some v \<Rightarrow> v) }"

text \<open>A sequence of \<open>if (!filter(&obj->field)) return 0;\<close>.\<close>

definition on_field :: "'b xdrproc \<Rightarrow> ('a \<Rightarrow> 'b option) \<Rightarrow> ('b \<Rightarrow> 'a \<Rightarrow> 'a) \<Rightarrow> 'a xdrproc" where
  "on_field proc sel upd x obj =
     do { v \<leftarrow> sel obj; (b, x1, v1) \<leftarrow> proc x v; Some (b, x1, upd v1 obj) }"

fun xdr_fields :: "'a xdrproc list \<Rightarrow> 'a xdrproc" where
  "xdr_fields [] x obj = Some (True, x, obj)"
| "xdr_fields (f # fs) x obj =
     do { (b, x1, obj1) \<leftarrow> f x obj;
          if \<not> b then Some (False, x1, obj1) else xdr_fields fs x1 obj1 }"

record xtra_data_params =
  xd_data :: "u32 list"
  xd_ptr :: "u8 list option"
  xd_part_len :: u32
  xd_part :: u8
  xd_total_parts :: u8

definition xd_word :: "u32 xdrproc \<Rightarrow> nat \<Rightarrow> xtra_data_params xdrproc" where
  "xd_word proc i = on_field proc (\<lambda>d. mem_get (xd_data d) (int i)) (\<lambda>v d. d\<lparr>xd_data := (xd_data d)[i := v]\<rparr>)"

definition xdr_xtra_data_args :: "allocator \<Rightarrow> xtra_data_params xdrproc" where
  "xdr_xtra_data_args malloc = xdr_fields
     [xd_word xdr_u_long 0, xd_word xdr_int 1, xd_word xdr_u_long 2,
      on_field xdr_u_long (\<lambda>d. Some (xd_part_len d)) (\<lambda>v d. d\<lparr>xd_part_len := v\<rparr>),
      on_field (xdr_bytes malloc (NOT 0)) (\<lambda>d. Some (xd_ptr d, xd_part_len d))
        (\<lambda>v d. d\<lparr>xd_ptr := fst v, xd_part_len := snd v\<rparr>),
      on_field xdr_u_char (\<lambda>d. Some (xd_part d)) (\<lambda>v d. d\<lparr>xd_part := v\<rparr>),
      on_field xdr_u_char (\<lambda>d. Some (xd_total_parts d)) (\<lambda>v d. d\<lparr>xd_total_parts := v\<rparr>),
      xd_word xdr_u_long 3]"

text \<open>The two flags are four bytes wide; \<open>xdr_u_char\<close> sees the lowest.\<close>

record pdsm_xtra_time_info =
  uncertainty :: u32
  time_utc :: u64
  ref_to_utc_time :: u32
  force_flag :: u32

definition low_byte :: "u8 \<Rightarrow> u32 \<Rightarrow> u32" where
  "low_byte b v = (v AND NOT (mask 8)) OR ucast b"

definition xdr_pdsm_xtra_time_info :: "pdsm_xtra_time_info xdrproc" where
  "xdr_pdsm_xtra_time_info = xdr_fields
     [on_field xdr_u_quad_t (\<lambda>t. Some (time_utc t)) (\<lambda>v t. t\<lparr>time_utc := v\<rparr>),
      on_field xdr_u_long (\<lambda>t. Some (uncertainty t)) (\<lambda>v t. t\<lparr>uncertainty := v\<rparr>),
      on_field xdr_u_char (\<lambda>t. Some (ucast (ref_to_utc_time t)))
        (\<lambda>v t. t\<lparr>ref_to_utc_time := low_byte v (ref_to_utc_time t)\<rparr>),
      on_field xdr_u_char (\<lambda>t. Some (ucast (force_flag t)))
        (\<lambda>v t. t\<lparr>force_flag := low_byte v (force_flag t)\<rparr>)]"

record xtra_time_params =
  xt_data :: "u32 list"
  xt_info :: "pdsm_xtra_time_info option"

definition time_info_zero :: pdsm_xtra_time_info where
  "time_info_zero = \<lparr>uncertainty = 0, time_utc = 0, ref_to_utc_time = 0, force_flag = 0\<rparr>"

definition xt_word :: "u32 xdrproc \<Rightarrow> nat \<Rightarrow> xtra_time_params xdrproc" where
  "xt_word proc i = on_field proc (\<lambda>d. mem_get (xt_data d) (int i)) (\<lambda>v d. d\<lparr>xt_data := (xt_data d)[i := v]\<rparr>)"

definition xdr_xtra_time_args :: "allocator \<Rightarrow> xtra_time_params xdrproc" where
  "xdr_xtra_time_args malloc = xdr_fields
     [xt_word xdr_u_long 0, xt_word xdr_int 1, xt_word xdr_u_long 2,
      on_field (xdr_pointer malloc 24 time_info_zero xdr_pdsm_xtra_time_info) (\<lambda>d. Some (xt_info d))
        (\<lambda>v d. d\<lparr>xt_info := v\<rparr>)]"

definition validity_word :: "u32 xdrproc \<Rightarrow> nat \<Rightarrow> u32 list xdrproc" where
  "validity_word proc i = on_field proc (\<lambda>d. mem_get d (int i)) (\<lambda>v d. d[i := v])"

definition xdr_xtra_validity_args :: "u32 list xdrproc" where
  "xdr_xtra_validity_args =
     xdr_fields [validity_word xdr_u_long 0, validity_word xdr_int 1, validity_word xdr_u_long 2]"

record xtra_auto_params =
  xa_data :: "u32 list"
  xa_boolean :: u8
  xa_interval :: u16

definition xa_word :: "u32 xdrproc \<Rightarrow> nat \<Rightarrow> xtra_auto_params xdrproc" where
  "xa_word proc i = on_field proc (\<lambda>d. mem_get (xa_data d) (int i)) (\<lambda>v d. d\<lparr>xa_data := (xa_data d)[i := v]\<rparr>)"

definition xdr_xtra_auto_args :: "xtra_auto_params xdrproc" where
  "xdr_xtra_auto_args = xdr_fields
     [xa_word xdr_u_long 0, xa_word xdr_int 1, xa_word xdr_u_long 2,
      on_field xdr_u_char (\<lambda>d. Some (xa_boolean d)) (\<lambda>v d. d\<lparr>xa_boolean := v\<rparr>),
      on_field xdr_u_short (\<lambda>d. Some (xa_interval d)) (\<lambda>v d. d\<lparr>xa_interval := v\<rparr>)]"

subsection \<open>Remote procedures\<close>

text \<open>
  What every \<open>pdsm\<close> function does with its client: call, and exit unless the call succeeded. A null
  client, or one that has been destroyed, is undefined.
\<close>

definition put_client :: "nat \<Rightarrow> CLIENT \<Rightarrow> clnt_globals \<Rightarrow> clnt_globals" where
  "put_client a c g = g\<lparr>clients := map (\<lambda>p. if fst p = a then (a, c) else p) (clients g)\<rparr>"

definition pdsm_call ::
  "'w rpc_env \<Rightarrow> nat option \<Rightarrow> u32 \<Rightarrow> 'a xdrproc \<Rightarrow> 'a \<Rightarrow> u32 \<Rightarrow> 'w gps_rpc \<Rightarrow> (u32, 'w) rpc_result" where
  "pdsm_call E clnt proc args_filter args res s =
     do { a \<leftarrow> clnt;
          c \<leftarrow> map_of (clients (g_clients s)) a;
          (stat, c1, res1, w1) \<leftarrow> clnt_call (e_kernel E) (e_wait E) c proc args_filter args
             xdr_result_int res (e_reply E) (g_world s);
          if stat \<noteq> RPC_SUCCESS then Some (Inl (-1))
          else Some (Inr (res1, s\<lparr>g_clients := put_client a c1 (g_clients s), g_world := w1\<rparr>)) }"

text \<open>\<open>client_IDs[client] = res\<close>, the end of the functions that get or give back an identifier.\<close>

definition store_id :: "int \<Rightarrow> int + u32 \<times> 'w gps_rpc \<Rightarrow> (u32, 'w) rpc_result" where
  "store_id client r =
     (case r of Inl e \<Rightarrow> Some (Inl e)
      | Inr (res, s1) \<Rightarrow>
          do { ids \<leftarrow> mem_set (client_IDs s1) client res;
               Some (Inr (0, s1\<lparr>client_IDs := ids\<rparr>)) })"

definition pdsm_client_init :: "'w rpc_env \<Rightarrow> nat option \<Rightarrow> int \<Rightarrow> 'w gps_rpc \<Rightarrow> (u32, 'w) rpc_result" where
  "pdsm_client_init E clnt client s =
     do { r \<leftarrow> pdsm_call E clnt 0x2 xdr_args [word_of_int client] (e_res E) s;
          store_id client r }"

definition pdsm_client_release :: "'w rpc_env \<Rightarrow> nat option \<Rightarrow> int \<Rightarrow> 'w gps_rpc \<Rightarrow> (u32, 'w) rpc_result" where
  "pdsm_client_release E clnt client s =
     do { i \<leftarrow> mem_get (client_IDs s) client;
          r \<leftarrow> pdsm_call E clnt 0x3 xdr_args [i] (e_res E) s;
          store_id client r }"

definition pdsm_atl_l2_proxy_reg ::
  "'w rpc_env \<Rightarrow> nat option \<Rightarrow> u32 \<Rightarrow> u32 \<Rightarrow> u32 \<Rightarrow> 'w gps_rpc \<Rightarrow> (u32, 'w) rpc_result" where
  "pdsm_atl_l2_proxy_reg E clnt val0 val1 val2 s =
     pdsm_call E clnt 0x3 xdr_args [val0, val1, val2] (e_res E) s"

definition pdsm_atl_dns_proxy_reg ::
  "'w rpc_env \<Rightarrow> nat option \<Rightarrow> u32 \<Rightarrow> u32 \<Rightarrow> 'w gps_rpc \<Rightarrow> (u32, 'w) rpc_result" where
  "pdsm_atl_dns_proxy_reg E clnt val0 val1 s = pdsm_call E clnt 0x6 xdr_args [val0, val1] (e_res E) s"

definition pdsm_client_pd_reg ::
  "'w rpc_env \<Rightarrow> nat option \<Rightarrow> int \<Rightarrow> u32 \<Rightarrow> u32 \<Rightarrow> u32 \<Rightarrow> u32 \<Rightarrow> u32 \<Rightarrow> 'w gps_rpc \<Rightarrow> (u32, 'w) rpc_result" where
  "pdsm_client_pd_reg E clnt client val0 val1 val2 val3 val4 s =
     do { i \<leftarrow> mem_get (client_IDs s) client;
          pdsm_call E clnt 0x4 xdr_args [i, val0, val1, val2, val3, val4] (e_res E) s }"

definition pdsm_client_pa_reg ::
  "'w rpc_env \<Rightarrow> nat option \<Rightarrow> int \<Rightarrow> u32 \<Rightarrow> u32 \<Rightarrow> u32 \<Rightarrow> u32 \<Rightarrow> u32 \<Rightarrow> 'w gps_rpc \<Rightarrow> (u32, 'w) rpc_result" where
  "pdsm_client_pa_reg E clnt client val0 val1 val2 val3 val4 s =
     do { i \<leftarrow> mem_get (client_IDs s) client;
          pdsm_call E clnt 0x5 xdr_args [i, val0, val1, val2, val3, val4] (e_res E) s }"

definition pdsm_client_lcs_reg ::
  "'w rpc_env \<Rightarrow> nat option \<Rightarrow> int \<Rightarrow> u32 \<Rightarrow> u32 \<Rightarrow> u32 \<Rightarrow> u32 \<Rightarrow> u32 \<Rightarrow> 'w gps_rpc \<Rightarrow> (u32, 'w) rpc_result" where
  "pdsm_client_lcs_reg E clnt client val0 val1 val2 val3 val4 s =
     do { i \<leftarrow> mem_get (client_IDs s) client;
          pdsm_call E clnt 0x6 xdr_args [i, val0, val1, val2, val3, val4] (e_res E) s }"

definition pdsm_client_ext_status_reg ::
  "'w rpc_env \<Rightarrow> nat option \<Rightarrow> int \<Rightarrow> u32 \<Rightarrow> u32 \<Rightarrow> u32 \<Rightarrow> u32 \<Rightarrow> u32 \<Rightarrow> 'w gps_rpc \<Rightarrow> (u32, 'w) rpc_result" where
  "pdsm_client_ext_status_reg E clnt client val0 val1 val2 val3 val4 s =
     do { i \<leftarrow> mem_get (client_IDs s) client;
          pdsm_call E clnt 0x8 xdr_args [i, val0, val1, val2, val3, val4] (e_res E) s }"

definition pdsm_client_xtra_reg ::
  "'w rpc_env \<Rightarrow> nat option \<Rightarrow> int \<Rightarrow> u32 \<Rightarrow> u32 \<Rightarrow> u32 \<Rightarrow> u32 \<Rightarrow> u32 \<Rightarrow> 'w gps_rpc \<Rightarrow> (u32, 'w) rpc_result" where
  "pdsm_client_xtra_reg E clnt client val0 val1 val2 val3 val4 s =
     do { i \<leftarrow> mem_get (client_IDs s) client;
          pdsm_call E clnt 0x7 xdr_args [i, val0, val1, val2, val3, val4] (e_res E) s }"

definition pdsm_client_deact :: "'w rpc_env \<Rightarrow> nat option \<Rightarrow> int \<Rightarrow> 'w gps_rpc \<Rightarrow> (u32, 'w) rpc_result" where
  "pdsm_client_deact E clnt client s =
     do { i \<leftarrow> mem_get (client_IDs s) client; pdsm_call E clnt 0xA xdr_args [i] (e_res E) s }"

definition pdsm_client_act :: "'w rpc_env \<Rightarrow> nat option \<Rightarrow> int \<Rightarrow> 'w gps_rpc \<Rightarrow> (u32, 'w) rpc_result" where
  "pdsm_client_act E clnt client s =
     do { i \<leftarrow> mem_get (client_IDs s) client; pdsm_call E clnt 0x9 xdr_args [i] (e_res E) s }"

definition pdsm_xtra_set_data ::
  "'w rpc_env \<Rightarrow> nat option \<Rightarrow> u32 \<Rightarrow> u32 \<Rightarrow> u32 \<Rightarrow> u8 list option \<Rightarrow> u32 \<Rightarrow> u8 \<Rightarrow> u8 \<Rightarrow> u32
   \<Rightarrow> 'w gps_rpc \<Rightarrow> (u32, 'w) rpc_result" where
  "pdsm_xtra_set_data E clnt val0 client_ID val2 xtra_data_ptr part_len part total_parts val3 s =
     pdsm_call E clnt 0x1A (xdr_xtra_data_args (e_malloc E))
       \<lparr>xd_data = [val0, client_ID, val2, val3], xd_ptr = xtra_data_ptr, xd_part_len = part_len,
        xd_part = part, xd_total_parts = total_parts\<rparr> (- 1) s"

definition pdsm_xtra_inject_time_info ::
  "'w rpc_env \<Rightarrow> nat option \<Rightarrow> u32 \<Rightarrow> u32 \<Rightarrow> u32 \<Rightarrow> pdsm_xtra_time_info \<Rightarrow> 'w gps_rpc \<Rightarrow> (u32, 'w) rpc_result" where
  "pdsm_xtra_inject_time_info E clnt val0 client_ID val2 time_info s =
     pdsm_call E clnt 0x1E (xdr_xtra_time_args (e_malloc E))
       \<lparr>xt_data = [val0, client_ID, val2], xt_info = Some time_info\<rparr> (- 1) s"

definition pdsm_xtra_query_data_validity ::
  "'w rpc_env \<Rightarrow> nat option \<Rightarrow> u32 \<Rightarrow> u32 \<Rightarrow> u32 \<Rightarrow> 'w gps_rpc \<Rightarrow> (u32, 'w) rpc_result" where
  "pdsm_xtra_query_data_validity E clnt val0 client_ID val2 s =
     pdsm_call E clnt 0x1D xdr_xtra_validity_args [val0, client_ID, val2] (- 1) s"

definition pdsm_xtra_set_auto_download_params ::
  "'w rpc_env \<Rightarrow> nat option \<Rightarrow> u32 \<Rightarrow> u32 \<Rightarrow> u32 \<Rightarrow> u8 \<Rightarrow> u16 \<Rightarrow> 'w gps_rpc \<Rightarrow> (u32, 'w) rpc_result" where
  "pdsm_xtra_set_auto_download_params E clnt val0 client_ID val2 boolean interval s =
     pdsm_call E clnt 0x1C xdr_xtra_auto_args
       \<lparr>xa_data = [val0, client_ID, val2], xa_boolean = boolean, xa_interval = interval\<rparr> (- 1) s"

definition pdsm_xtra_client_initiate_download_request ::
  "'w rpc_env \<Rightarrow> nat option \<Rightarrow> u32 \<Rightarrow> u32 \<Rightarrow> u32 \<Rightarrow> 'w gps_rpc \<Rightarrow> (u32, 'w) rpc_result" where
  "pdsm_xtra_client_initiate_download_request E clnt val0 client_ID val2 s =
     pdsm_call E clnt 0x1B xdr_xtra_validity_args [val0, client_ID, val2] (- 1) s"

text \<open>The 29 integer parameters of \<open>pdsm_get_position\<close> are a list.\<close>

definition pdsm_get_position ::
  "'w rpc_env \<Rightarrow> nat option \<Rightarrow> u32 list \<Rightarrow> 'w gps_rpc \<Rightarrow> (u32, 'w) rpc_result" where
  "pdsm_get_position E clnt vals s = pdsm_call E clnt 0xb xdr_args vals (e_res E) s"

definition pdsm_client_end_session ::
  "'w rpc_env \<Rightarrow> nat option \<Rightarrow> u32 \<Rightarrow> u32 \<Rightarrow> u32 \<Rightarrow> int \<Rightarrow> 'w gps_rpc \<Rightarrow> (u32, 'w) rpc_result" where
  "pdsm_client_end_session E clnt val0 val1 val2 client s =
     do { i \<leftarrow> mem_get (client_IDs s) client;
          r \<leftarrow> pdsm_call E clnt 0xc xdr_args [val0, val1, val2, i] (e_res E) s;
          Some (case r of Inl e \<Rightarrow> Inl e | Inr (_, s1) \<Rightarrow> Inr (0, s1)) }"

subsection \<open>Operations for the GPS library\<close>

definition gps_xtra_set_data ::
  "'w rpc_env \<Rightarrow> u8 list option \<Rightarrow> u32 \<Rightarrow> u8 \<Rightarrow> u8 \<Rightarrow> 'w gps_rpc \<Rightarrow> (u32, 'w) rpc_result" where
  "gps_xtra_set_data E xtra_data_ptr part_len part total_parts s =
     do { i \<leftarrow> mem_get (client_IDs s) 0xb;
          pdsm_xtra_set_data E (g_clnt s) 0 i 0 xtra_data_ptr part_len part total_parts 1 s }"

definition gps_xtra_init_down_req :: "'w rpc_env \<Rightarrow> 'w gps_rpc \<Rightarrow> (u32, 'w) rpc_result" where
  "gps_xtra_init_down_req E s =
     do { i \<leftarrow> mem_get (client_IDs s) 0xb;
          pdsm_xtra_client_initiate_download_request E (g_clnt s) 0 i 0 s }"

definition gps_xtra_set_auto_params :: "'w rpc_env \<Rightarrow> 'w gps_rpc \<Rightarrow> (u32, 'w) rpc_result" where
  "gps_xtra_set_auto_params E s =
     do { i \<leftarrow> mem_get (client_IDs s) 0xb;
          pdsm_xtra_set_auto_download_params E (g_clnt s) 0 i 0
            (XTRA_AUTO_DOWNLOAD_ENABLED (g_conf s)) (ucast (XTRA_DOWNLOAD_INTERVAL (g_conf s))) s }"

text \<open>
  The time is advanced by the time since \<open>timeReference\<close>, a difference of 64-bit signed integers;
  \<open>elapsed\<close> is \<open>elapsed_realtime()\<close>.
\<close>

definition gps_xtra_inject_time_info ::
  "'w rpc_env \<Rightarrow> int \<Rightarrow> int \<Rightarrow> int \<Rightarrow> u32 \<Rightarrow> 'w gps_rpc \<Rightarrow> (u32, 'w) rpc_result" where
  "gps_xtra_inject_time_info E elapsed time timeReference uncert s =
     do { d \<leftarrow> (if - (2 ^ 63) \<le> elapsed - timeReference \<and> elapsed - timeReference < 2 ^ 63
                then Some (elapsed - timeReference) else None);
          i \<leftarrow> mem_get (client_IDs s) 0xb;
          pdsm_xtra_inject_time_info E (g_clnt s) 0 i 0
            \<lparr>uncertainty = uncert, time_utc = word_of_int time + word_of_int d, ref_to_utc_time = 1,
             force_flag = 1\<rparr> s }"

definition gps_get_position :: "'w rpc_env \<Rightarrow> 'w gps_rpc \<Rightarrow> (u32, 'w) rpc_result" where
  "gps_get_position E s =
     do { i \<leftarrow> mem_get (client_IDs s) 2;
          pdsm_get_position E (g_clnt s)
            [0, 0, 1, 1, 1, 0x3B9AC9FF, 1, 0, 0, 0, 0, 0, 0, 0, 0, 0, 0, 0, 0, 0, 0, 0, 0, 0, 0,
             1, 50, ucast (SESSION_TIMEOUT (g_conf s)), i] s }"

definition exit_gps_rpc :: "'w rpc_env \<Rightarrow> 'w gps_rpc \<Rightarrow> (u32, 'w) rpc_result" where
  "exit_gps_rpc E s = pdsm_client_end_session E (g_clnt s) 0 0 0 2 s"

subsection \<open>Lemmas: what the filters send\<close>

lemma encodes_Nil: "encodes (xdr_fields []) v []"
  by (simp add: encodes_def)

lemma encodes_Cons:
  assumes "encodes f v e" "encodes (xdr_fields fs) v es"
  shows "encodes (xdr_fields (f # fs)) v (e @ es)"
proof -
  have al: "length e mod 4 = 0" "length es mod 4 = 0" using assms by (simp_all add: encodes_def)
  then have "length (e @ es) mod 4 = 0" by (auto simp: mod_add_eq dest!: mod_0_imp_dvd)
  moreover have "xdr_fields (f # fs) x v = Some (True, put x (e @ es), v)"
    if x: "xdr_ok x" "x_op x = XDR_ENCODE" "length (e @ es) \<le> room x" for x
  proof -
    have "f x v = Some (True, put x e, v)" using assms(1) x by (simp add: encodes_def)
    moreover have "xdr_ok (put x e)" using x al by (intro xdr_ok_put) auto
    then have "xdr_fields fs (put x e) v = Some (True, put (put x e) es, v)"
      using assms(2) x by (simp add: encodes_def)
    ultimately show ?thesis using x by (simp add: put_put)
  qed
  ultimately show ?thesis unfolding encodes_def by blast
qed

lemma encodes_field:
  assumes "encodes f u e" "sel v = Some u" "upd u v = v"
  shows "encodes (on_field f sel upd) v e"
  using assms by (simp add: encodes_def on_field_def)

lemmas encodes_word =
  wd_u_long.codec_encodes [OF TrueI] wd_int.codec_encodes [OF TrueI]
  wd_u_char.codec_encodes [OF TrueI] wd_u_short.codec_encodes [OF TrueI]
  cd_u_hyper.codec_encodes [OF TrueI]

lemma encodes_args: "encodes xdr_args vs (be32s vs)"
proof -
  have "xdr_args_loop x vs = Some (put x (be32s vs))" if "xdr_ok x" "4 * length vs \<le> room x" for x
    using that
  proof (induction vs arbitrary: x)
    case (Cons v vs)
    have "xdr_std_send_uint32 x v = Some (True, put x (be32 v))"
      using Cons.prems by (simp add: send_uint32_put)
    moreover have "xdr_ok (put x (be32 v))" using Cons.prems by (simp add: xdr_ok_put)
    ultimately show ?case using Cons by (simp add: put_put)
  qed simp
  then show ?thesis by (simp add: encodes_def xdr_args_def)
qed

lemma decodes_result: "decodes xdr_result_int u (be32 v) v"
  by (simp add: decodes_def xdr_result_int_def recv_uint32_adv)

lemma encodes_validity: "encodes xdr_xtra_validity_args [a, b, c] (be32s [a, b, c])"
proof -
  have "encodes xdr_xtra_validity_args [a, b, c] (be32 a @ be32 b @ be32 c @ [])"
    unfolding xdr_xtra_validity_args_def validity_word_def
    by (intro encodes_Cons encodes_Nil encodes_field [OF encodes_word(1)] encodes_field [OF encodes_word(2)])
      (simp_all add: mem_get_def)
  then show ?thesis by simp
qed

lemma encodes_auto:
  "encodes xdr_xtra_auto_args \<lparr>xa_data = [a, b, c], xa_boolean = d, xa_interval = i\<rparr>
     (be32s [a, b, c, ucast d, ucast i])"
proof -
  let ?v = "\<lparr>xa_data = [a, b, c], xa_boolean = d, xa_interval = i\<rparr>"
  have "encodes xdr_xtra_auto_args ?v (be32 a @ be32 b @ be32 c @ be32 (ucast d) @ be32 (ucast i) @ [])"
    unfolding xdr_xtra_auto_args_def xa_word_def
    by (intro encodes_Cons encodes_Nil encodes_field [OF encodes_word(1)] encodes_field [OF encodes_word(2)]
        encodes_field [OF encodes_word(3)] encodes_field [OF encodes_word(4)])
      (simp_all add: mem_get_def)
  then show ?thesis by simp
qed

lemma encodes_time_info:
  "encodes xdr_pdsm_xtra_time_info \<lparr>uncertainty = u, time_utc = t, ref_to_utc_time = 1, force_flag = 1\<rparr>
     (enc_hyper t @ be32s [u, 1, 1])"
proof -
  let ?v = "\<lparr>uncertainty = u, time_utc = t, ref_to_utc_time = 1, force_flag = 1\<rparr>"
  have q: "xdr_u_quad_t = xdr_u_hyper" by (rule ext)+ (simp add: xdr_u_quad_t_def)
  have "encodes xdr_pdsm_xtra_time_info ?v
      (enc_hyper t @ be32 u @ be32 (ucast (1 :: u8)) @ be32 (ucast (1 :: u8)) @ [])"
    unfolding xdr_pdsm_xtra_time_info_def q
    by (intro encodes_Cons encodes_Nil encodes_field [OF encodes_word(5)] encodes_field [OF encodes_word(1)]
        encodes_field [OF encodes_word(3)])
      (simp_all add: low_byte_def)
  then show ?thesis by simp
qed

lemma encodes_pointer:
  assumes "encodes proc v e"
  shows "encodes (xdr_pointer malloc sz zero proc) (Some v) (be32 1 @ e)"
proof -
  have "length e mod 4 = 0" using assms by (simp add: encodes_def)
  then have "length (be32 1 @ e) mod 4 = 0" by (auto dest!: mod_0_imp_dvd)
  moreover have "xdr_pointer malloc sz zero proc x (Some v) = Some (True, put x (be32 1 @ e), Some v)"
    if x: "xdr_ok x" "x_op x = XDR_ENCODE" "length (be32 1 @ e) \<le> room x" for x
  proof -
    have "xdr_ok (put x (be32 1))" using x by (intro xdr_ok_put) auto
    then have "proc (put x (be32 1)) v = Some (True, put (put x (be32 1)) e, v)"
      using assms x by (simp add: encodes_def)
    with x show ?thesis
      by (simp add: xdr_pointer_def wd_bool.spec xdr_reference_def put_put)
  qed
  ultimately show ?thesis unfolding encodes_def by blast
qed

lemma encodes_time:
  "encodes (xdr_xtra_time_args malloc) \<lparr>xt_data = [a, b, c], xt_info = Some
      \<lparr>uncertainty = u, time_utc = t, ref_to_utc_time = 1, force_flag = 1\<rparr>\<rparr>
     (be32s [a, b, c, 1] @ enc_hyper t @ be32s [u, 1, 1])"
proof -
  let ?i = "\<lparr>uncertainty = u, time_utc = t, ref_to_utc_time = 1, force_flag = 1\<rparr>"
  have "encodes (xdr_xtra_time_args malloc) \<lparr>xt_data = [a, b, c], xt_info = Some ?i\<rparr>
      (be32 a @ be32 b @ be32 c @ (be32 1 @ enc_hyper t @ be32s [u, 1, 1]) @ [])"
    unfolding xdr_xtra_time_args_def xt_word_def
    by (intro encodes_Cons encodes_Nil encodes_field [OF encodes_word(1)] encodes_field [OF encodes_word(2)]
        encodes_field [OF encodes_pointer [OF encodes_time_info]]) (simp_all add: mem_get_def)
  then show ?thesis by simp
qed

lemma encodes_bytes:
  assumes "unat len \<le> length b" "unat len \<le> 2048"
  shows "encodes (xdr_bytes malloc (NOT 0)) (Some b, len)
     (be32 len @ take (unat len) b @ pad4 (unat len))"
proof -
  let ?e = "be32 len @ take (unat len) b @ pad4 (unat len)"
  have "(4 + n) mod 4 = (0 :: nat) \<longleftrightarrow> n mod 4 = 0" for n by presburger
  then have "length ?e mod 4 = 0" using assms length_pad4_mod by (simp add: min_absorb2)
  moreover have "xdr_bytes malloc (NOT 0) x (Some b, len) = Some (True, put x ?e, Some b, len)"
    if x: "xdr_ok x" "x_op x = XDR_ENCODE" "length ?e \<le> room x" for x
    using x assms
    by (simp add: xdr_bytes_def send_uint32_put send_bytes_put xdr_ok_put put_put min_absorb2)
  ultimately show ?thesis unfolding encodes_def by blast
qed

lemma encodes_data:
  assumes "unat len \<le> length b" "unat len \<le> 1900"
  shows "encodes (xdr_xtra_data_args malloc)
     \<lparr>xd_data = [a0, a1, a2, a3], xd_ptr = Some b, xd_part_len = len, xd_part = p, xd_total_parts = t\<rparr>
     (be32s [a0, a1, a2, len, len] @ take (unat len) b @ pad4 (unat len) @ be32s [ucast p, ucast t, a3])"
proof -
  let ?v = "\<lparr>xd_data = [a0, a1, a2, a3], xd_ptr = Some b, xd_part_len = len, xd_part = p, xd_total_parts = t\<rparr>"
  have bytes: "encodes (xdr_bytes malloc (NOT 0)) (Some b, len)
      (be32 len @ take (unat len) b @ pad4 (unat len))"
    using assms by (intro encodes_bytes) auto
  have "encodes (xdr_xtra_data_args malloc) ?v (be32 a0 @ be32 a1 @ be32 a2 @ be32 len @
      (be32 len @ take (unat len) b @ pad4 (unat len)) @ be32 (ucast p) @ be32 (ucast t) @ be32 a3 @ [])"
    unfolding xdr_xtra_data_args_def xd_word_def
    by (intro encodes_Cons encodes_Nil encodes_field [OF encodes_word(1)] encodes_field [OF encodes_word(2)]
        encodes_field [OF encodes_word(3)] encodes_field [OF bytes])
      (simp_all add: mem_get_def)
  then show ?thesis by simp
qed

subsection \<open>The session with the modem\<close>

text \<open>
  What the modem sees of the library is a sequence of requests: program, procedure and argument
  bytes. The abstract specification of an operation is a function on the session: the requests so
  far and the identifiers the modem has handed out.
\<close>

type_synonym request = "u32 \<times> u32 \<times> u8 list"

definition request_of :: "u8 list \<Rightarrow> request" where
  "request_of pkt = (of_be32 (take 4 (drop 12 pkt)), of_be32 (take 4 (drop 20 pkt)), drop 40 pkt)"

lemma request_of_packet: "request_of (call_packet x p e) = (x_prog x, p, e)"
  by (simp add: request_of_def call_packet_def call_words_def auth_words_def no_auth_def)

record modem_session =
  ses_ids :: "u32 list"
  ses_log :: "request list"

definition ses_call :: "(request \<Rightarrow> u32) \<Rightarrow> request \<Rightarrow> modem_session \<Rightarrow> u32 \<times> modem_session" where
  "ses_call resp req ses = (resp req, ses\<lparr>ses_log := ses_log ses @ [req]\<rparr>)"

text \<open>
  A modem that answers: it takes every packet, \<open>taken\<close> tells the requests it has accepted, and the caller
  that waits finds the reply with the identifier of its request and the word \<open>resp\<close> gives.
\<close>

definition answers :: "'w rpc_env \<Rightarrow> ('w \<Rightarrow> request list) \<Rightarrow> (request \<Rightarrow> u32) \<Rightarrow> bool" where
  "answers E taken resp \<longleftrightarrow>
     (\<forall>f pkt w. length pkt \<le> 2048 \<longrightarrow>
        (\<exists>w1. k_write (e_kernel E) f pkt w = (int (length pkt), w1) \<and>
              taken w1 = taken w @ [request_of pkt] \<and>
              (\<forall>c. e_wait E c w1 = Some (c\<lparr>cl_xdr := arrive (cl_xdr c)
                 (reply_packet (x_xid (cl_xdr c)) (be32 (resp (request_of pkt)))), input_xdr_busy := True\<rparr>, w1))))"

definition clients_ok :: "'w gps_rpc \<Rightarrow> bool" where
  "clients_ok s \<longleftrightarrow> (\<forall>p \<in> set (clients (g_clients s)). xdr_ok (cl_xdr (snd p)))"

definition client_prog :: "'w gps_rpc \<Rightarrow> nat option \<Rightarrow> u32 option" where
  "client_prog s clnt =
     do { a \<leftarrow> clnt; c \<leftarrow> map_of (clients (g_clients s)) a; Some (x_prog (cl_xdr c)) }"

definition session :: "('w \<Rightarrow> request list) \<Rightarrow> 'w gps_rpc \<Rightarrow> modem_session" where
  "session taken s = \<lparr>ses_ids = client_IDs s, ses_log = taken (g_world s)\<rparr>"

text \<open>What the calls leave alone.\<close>

definition same_rpc :: "'w gps_rpc \<Rightarrow> 'w gps_rpc \<Rightarrow> bool" where
  "same_rpc s s' \<longleftrightarrow> clients_ok s' \<and> client_prog s' = client_prog s \<and>
     map fst (clients (g_clients s')) = map fst (clients (g_clients s)) \<and>
     length (client_IDs s') = length (client_IDs s) \<and>
     g_clnt s' = g_clnt s \<and> g_svc s' = g_svc s \<and> g_conf s' = g_conf s \<and> g_xprts s' = g_xprts s \<and>
     g_xprt s' = g_xprt s \<and> no_fix s' = no_fix s \<and> use_nmea s' = use_nmea s"

lemma same_rpc_refl: "clients_ok s \<Longrightarrow> same_rpc s s"
  by (simp add: same_rpc_def)

lemma same_rpc_trans: "same_rpc s t \<Longrightarrow> same_rpc t u \<Longrightarrow> same_rpc s u"
  by (simp add: same_rpc_def)

text \<open>An operation implements a function on the session when the modem answers.\<close>

definition implements ::
  "('w \<Rightarrow> request list) \<Rightarrow> ('w gps_rpc \<Rightarrow> bool) \<Rightarrow> ('w gps_rpc \<Rightarrow> (u32, 'w) rpc_result)
   \<Rightarrow> (modem_session \<Rightarrow> u32 \<times> modem_session) \<Rightarrow> bool" where
  "implements taken ok m f \<longleftrightarrow>
     (\<forall>s. clients_ok s \<longrightarrow> ok s \<longrightarrow>
        (\<exists>s'. m s = Some (Inr (fst (f (session taken s)), s')) \<and>
              session taken s' = snd (f (session taken s)) \<and> same_rpc s s'))"

lemma map_of_put_client:
  "map_of (clients (put_client a c g)) b =
     (if b = a \<and> map_of (clients g) a \<noteq> None then Some c else map_of (clients g) b)"
proof -
  have "map_of (map (\<lambda>p. if fst p = a then (a, c) else p) l) b =
      (if b = a \<and> map_of l a \<noteq> None then Some c else map_of l b)" for l
    by (induction l) auto
  then show ?thesis by (simp add: put_client_def)
qed

lemma fst_put_client [simp]: "map fst (clients (put_client a c g)) = map fst (clients g)"
  by (auto simp: put_client_def)

lemma answersE:
  assumes "answers E taken resp" "length pkt \<le> 2048"
  obtains w1 where "k_write (e_kernel E) f pkt w = (int (length pkt), w1)"
    "taken w1 = taken w @ [request_of pkt]"
    "\<And>c. e_wait E c w1 = Some (c\<lparr>cl_xdr := arrive (cl_xdr c)
       (reply_packet (x_xid (cl_xdr c)) (be32 (resp (request_of pkt)))), input_xdr_busy := True\<rparr>, w1)"
  using assms unfolding answers_def by blast

text \<open>One call: the request is recorded and the modem's word returned.\<close>

lemma pdsm_call_answered:
  assumes ans: "answers E taken resp" and enc: "encodes proc a e" "length e \<le> 2008"
    and s: "clients_ok s" "client_prog s clnt = Some prog"
  shows "\<exists>s'. pdsm_call E clnt p proc a res s = Some (Inr (resp (prog, p, e), s')) \<and>
     taken (g_world s') = taken (g_world s) @ [(prog, p, e)] \<and> client_IDs s' = client_IDs s \<and> same_rpc s s'"
proof -
  obtain ad c where c: "clnt = Some ad" "map_of (clients (g_clients s)) ad = Some c" "x_prog (cl_xdr c) = prog"
    using s(2) by (auto simp: client_prog_def split: Option.bind_splits)
  let ?x = "cl_xdr c"
  let ?pkt = "call_packet ?x p e"
  let ?x1 = "sent_xdr ?x p e"
  have ok: "xdr_ok ?x" using s(1) map_of_SomeD [OF c(2)] by (auto simp: clients_ok_def)
  obtain w1 where w1: "k_write (e_kernel E) (x_fd ?x) ?pkt (g_world s) = (int (length ?pkt), w1)"
      "taken w1 = taken (g_world s) @ [(prog, p, e)]"
      "\<And>c. e_wait E c w1 = Some (c\<lparr>cl_xdr := arrive (cl_xdr c)
         (reply_packet (x_xid (cl_xdr c)) (be32 (resp (prog, p, e)))), input_xdr_busy := True\<rparr>, w1)"
    using answersE [OF ans, of ?pkt "x_fd ?x" "g_world s"] enc(2) c(3) by (auto simp: request_of_packet)
  let ?c1 = "c\<lparr>cl_xdr := ?x1\<rparr>"
  let ?c2 = "?c1\<lparr>cl_xdr := arrive ?x1 (reply_packet (x_xid ?x + 1) (be32 (resp (prog, p, e)))), input_xdr_busy := True\<rparr>"
  have al: "length e mod 4 = 0" using enc(1) by (simp add: encodes_def)
  note x1 = sent_xdr_ok [OF ok enc(2) al, of p]
  have xid: "x_xid ?x1 = x_xid ?x + 1" by (simp add: sent_xdr_def)
  have send: "clnt_call_send (e_kernel E) c p proc a (g_world s) = Some (Inr (), ?c1, w1)"
    using clnt_call_send_writes [OF enc(1) ok enc(2) w1(1)] by simp
  obtain x3 where recv: "clnt_call_recv ?c2 xdr_result_int res (e_reply E) =
      Some (RPC_SUCCESS, ?c2\<lparr>cl_xdr := x3, input_xdr_busy := False\<rparr>, resp (prog, p, e))"
    and x3: "xdr_ok x3" "x_prog x3 = prog"
    using clnt_call_recv_result [OF decodes_result [where u = res] x1(1) _ x1(5), where c = ?c2 and junk = "e_reply E"] c(3)
    by (auto simp: sent_xdr_def)
  let ?c3 = "?c2\<lparr>cl_xdr := x3, input_xdr_busy := False\<rparr>"
  let ?s' = "s\<lparr>g_clients := put_client ad ?c3 (g_clients s), g_world := w1\<rparr>"
  have "clnt_call (e_kernel E) (e_wait E) c p proc a xdr_result_int res (e_reply E) (g_world s) =
      Some (RPC_SUCCESS, ?c3, resp (prog, p, e), w1)"
    using send recv by (simp add: clnt_call_def w1(3) xid)
  then have "pdsm_call E clnt p proc a res s = Some (Inr (resp (prog, p, e), ?s'))"
    using c by (simp add: pdsm_call_def)
  moreover have "clients_ok ?s'"
    using s(1) x3 by (auto simp: clients_ok_def put_client_def)
  moreover have "client_prog ?s' = client_prog s"
    using c x3 by (auto simp: client_prog_def map_of_put_client fun_eq_iff split: Option.bind_splits)
  ultimately show ?thesis using w1(2) by (intro exI [of _ ?s']) (simp add: same_rpc_def)
qed

lemma implements_call:
  assumes "answers E taken resp"
    and "\<And>ids. length ids = 16 \<Longrightarrow> encodes proc (a ids) (e ids) \<and> length (e ids) \<le> 2008"
    and "\<And>s. ok s \<Longrightarrow> length (client_IDs s) = 16 \<and> client_prog s clnt = Some prog"
    and "\<And>s. ok s \<Longrightarrow> m s = pdsm_call E clnt p proc (a (client_IDs s)) res s"
  shows "implements taken ok m (\<lambda>ses. ses_call resp (prog, p, e (ses_ids ses)) ses)"
  unfolding implements_def
proof (intro allI impI)
  fix s assume s: "clients_ok s" "ok s"
  then have l: "length (client_IDs s) = 16" "client_prog s clnt = Some prog" using assms(3) by auto
  obtain s' where "pdsm_call E clnt p proc (a (client_IDs s)) res s =
      Some (Inr (resp (prog, p, e (client_IDs s)), s'))"
    "taken (g_world s') = taken (g_world s) @ [(prog, p, e (client_IDs s))]"
    "client_IDs s' = client_IDs s" "same_rpc s s'"
    using pdsm_call_answered [OF assms(1) _ _ s(1) l(2), of proc "a (client_IDs s)"] assms(2) [OF l(1)] by blast
  then show "\<exists>s'. m s = Some (Inr (fst (ses_call resp (prog, p, e (ses_ids (session taken s))) (session taken s)), s')) \<and>
      session taken s' = snd (ses_call resp (prog, p, e (ses_ids (session taken s))) (session taken s)) \<and> same_rpc s s'"
    using assms(4) [OF s(2)] by (auto simp: ses_call_def session_def)
qed

text \<open>Handing out and taking back an identifier.\<close>

definition ses_store :: "nat \<Rightarrow> (modem_session \<Rightarrow> u32 \<times> modem_session) \<Rightarrow> modem_session \<Rightarrow> u32 \<times> modem_session" where
  "ses_store i f ses = (case f ses of (r, ses1) \<Rightarrow> (0, ses1\<lparr>ses_ids := (ses_ids ses1)[i := r]\<rparr>))"

lemma client_prog_IDs [simp]: "client_prog (s\<lparr>client_IDs := ids\<rparr>) = client_prog s"
  by (rule ext) (simp add: client_prog_def)

lemma implements_store:
  assumes "implements taken ok m f" "\<And>s. ok s \<Longrightarrow> length (client_IDs s) = 16" "i < 16"
    and "\<And>s. ok s \<Longrightarrow> m' s = do { r \<leftarrow> m s; store_id (int i) r }"
  shows "implements taken ok m' (ses_store i f)"
  unfolding implements_def
proof (intro allI impI)
  fix s assume s: "clients_ok s" "ok s"
  then obtain s1 where s1: "m s = Some (Inr (fst (f (session taken s)), s1))"
      "session taken s1 = snd (f (session taken s))" "same_rpc s s1"
    using assms(1) by (auto simp: implements_def)
  have l: "length (client_IDs s1) = 16" using s1(3) assms(2) [OF s(2)] by (simp add: same_rpc_def)
  let ?s' = "s1\<lparr>client_IDs := (client_IDs s1)[i := fst (f (session taken s))]\<rparr>"
  have "m' s = Some (Inr (0, ?s'))"
    using assms(3,4) s s1(1) l by (simp add: mem_set_def store_id_def)
  moreover have "session taken ?s' = snd (ses_store i f (session taken s))"
    using s1(2) by (simp add: session_def ses_store_def split: prod.split) auto
  moreover have "same_rpc s ?s'"
    using s1(3) by (simp add: same_rpc_def clients_ok_def)
  ultimately show "\<exists>s'. m' s = Some (Inr (fst (ses_store i f (session taken s)), s')) \<and>
      session taken s' = snd (ses_store i f (session taken s)) \<and> same_rpc s s'"
    by (auto simp: ses_store_def split: prod.split)
qed

subsection \<open>A concrete modem\<close>

text \<open>It logs the requests and answers every one with the word 77.\<close>

definition demo_modem :: "(request list) rpc_env" where
  "demo_modem = \<lparr>e_kernel = \<lparr>k_open = (\<lambda>n w. (3, w)), k_close = (\<lambda>f w. (0, w)), k_dup = (\<lambda>f w. (4, w)),
       k_read = (\<lambda>f n w. (None, w)), k_write = (\<lambda>f bs w. (int (length bs), w @ [request_of bs])),
       k_ioctl = (\<lambda>f cmd arg w. (0, w)), k_calloc = (\<lambda>w. True)\<rparr>,
     e_wait = (\<lambda>c w. Some (c\<lparr>cl_xdr := arrive (cl_xdr c) (reply_packet (x_xid (cl_xdr c)) (be32 77)),
       input_xdr_busy := True\<rparr>, w)),
     e_malloc = demo_malloc, e_reply = demo_reply, e_res = 0\<rparr>"

lemma demo_modem_answers: "answers demo_modem (\<lambda>w. w) (\<lambda>_. 77)"
  by (simp add: answers_def demo_modem_def)

definition demo_rpc :: "(request list) gps_rpc" where
  "demo_rpc = \<lparr>client_IDs = replicate 16 0, no_fix = 1, use_nmea = 1, g_clnt = None, g_svc = None,
     g_conf = gps_conf_init, g_clients = clnt_globals_zero,
     g_xprts = \<lparr>the_xprt = None, xprt_refcount = 0\<rparr>, g_xprt = xprt_zero, g_world = []\<rparr>"

end
