(* ===== verification/Nmea.thy ===== *)
theory Nmea
  imports Prelude
begin

text \<open>
  The NMEA reader of \<open>libgps/leo-gps.c\<close>: the tokenizer, the number parsers, the updates of the
  fix, the parser of a sentence and the framing of lines.

  A C pointer into a character array is the array and an offset; the dummy token points to the empty
  string, an array that holds only its terminator. Plain \<open>char\<close> is unsigned. Floating-point
  arithmetic and the clock are not verified here: \<open>'f fops\<close> names the operations the code applies
  to \<open>double\<close> and \<open>float\<close> values (\<open>fo_trunc\<close>, the conversion to \<open>int\<close>, is undefined outside
  the range of \<open>int\<close>), and \<open>clock\<close> what it asks the C library about time.
\<close>

subsection \<open>Parameters\<close>

record 'f fops =
  fo_strtod :: "u8 list \<Rightarrow> 'f"
  fo_dec :: "int \<Rightarrow> nat \<Rightarrow> 'f"
  fo_float :: "'f \<Rightarrow> 'f"
  fo_add :: "'f \<Rightarrow> 'f \<Rightarrow> 'f"
  fo_sub :: "'f \<Rightarrow> 'f \<Rightarrow> 'f"
  fo_mul :: "'f \<Rightarrow> 'f \<Rightarrow> 'f"
  fo_div :: "'f \<Rightarrow> 'f \<Rightarrow> 'f"
  fo_neg :: "'f \<Rightarrow> 'f"
  fo_floor :: "'f \<Rightarrow> 'f"
  fo_trunc :: "'f \<Rightarrow> int option"
  fo_pos :: "'f \<Rightarrow> bool"
  fo_less :: "'f \<Rightarrow> 'f \<Rightarrow> bool"

record tm =
  tm_year :: int
  tm_mon :: int
  tm_mday :: int
  tm_hour :: int
  tm_min :: int
  tm_sec :: int

record clock =
  ck_gmtime :: tm
  ck_localtime :: tm
  ck_mktime :: "tm \<Rightarrow> int"

subsection \<open>Data\<close>

abbreviation MAX_NMEA_TOKENS :: nat where "MAX_NMEA_TOKENS \<equiv> 32"
abbreviation NMEA_MAX_SIZE :: int where "NMEA_MAX_SIZE \<equiv> 255"
abbreviation GPS_MAX_SVS :: nat where "GPS_MAX_SVS \<equiv> 32"

record Token =
  t_obj :: "u8 list"
  t_p :: int
  t_end :: int

record 'f GpsLocation =
  loc_flags :: u16
  latitude :: 'f
  longitude :: 'f
  altitude :: 'f
  speed :: 'f
  bearing :: 'f
  accuracy :: 'f
  timestamp :: int

record 'f GpsSvInfo =
  prn :: int
  snr :: 'f
  elevation :: 'f
  azimuth :: 'f

record 'f GpsSvStatus =
  num_svs :: int
  sv_list :: "'f GpsSvInfo list"
  ephemeris_mask :: u32
  almanac_mask :: u32
  used_in_fix_mask :: u32

record 'f NmeaReader =
  r_pos :: int
  r_overflow :: bool
  utc_year :: int
  utc_mon :: int
  utc_day :: int
  utc_diff :: int
  fix_loc :: "'f GpsLocation"
  sv_status :: "'f GpsSvStatus"
  sv_status_changed :: bool
  fix_flags_cached :: u16
  r_in :: "u8 list"

definition GPS_LOCATION_HAS_LAT_LONG :: u16 where "GPS_LOCATION_HAS_LAT_LONG = 0x0001"
definition GPS_LOCATION_HAS_ALTITUDE :: u16 where "GPS_LOCATION_HAS_ALTITUDE = 0x0002"
definition GPS_LOCATION_HAS_SPEED :: u16 where "GPS_LOCATION_HAS_SPEED = 0x0004"
definition GPS_LOCATION_HAS_BEARING :: u16 where "GPS_LOCATION_HAS_BEARING = 0x0008"
definition GPS_LOCATION_HAS_ACCURACY :: u16 where "GPS_LOCATION_HAS_ACCURACY = 0x0010"

subsection \<open>Tokenizer\<close>

text \<open>\<open>memchr(p, ',', end - p)\<close>: the offset of the first comma, or \<open>end\<close>.\<close>

definition find_comma :: "u8 list \<Rightarrow> int \<Rightarrow> int \<Rightarrow> int option" where
  "find_comma m p e =
     do { xs \<leftarrow> mem_read m p (nat (e - p)); Some (p + int (length (takeWhile (\<lambda>c. c \<noteq> 44) xs))) }"

lemma find_comma_bounds: "find_comma m p e = Some q \<Longrightarrow> p < e \<Longrightarrow> p \<le> q \<and> q \<le> e"
proof -
  assume "find_comma m p e = Some q" "p < e"
  then obtain xs :: "u8 list" where "length xs = nat (e - p)" "q = p + int (length (takeWhile (\<lambda>c. c \<noteq> 44) xs))"
    by (auto simp: find_comma_def bind_eq_Some_conv dest: mem_read_length)
  moreover have "length (takeWhile (\<lambda>c. c \<noteq> 44) xs) \<le> length xs" by (rule length_takeWhile_le)
  ultimately show ?thesis using \<open>p < e\<close> by auto
qed

function tokens_loop :: "u8 list \<Rightarrow> int \<Rightarrow> int \<Rightarrow> Token list \<Rightarrow> Token list option" where
  "tokens_loop m p e toks =
     (if p < e then
        (case find_comma m p e of
           None \<Rightarrow> None
         | Some q \<Rightarrow>
             let toks' = (if length toks < MAX_NMEA_TOKENS
                          then toks @ [\<lparr>t_obj = m, t_p = p, t_end = q\<rparr>] else toks)
             in tokens_loop m (if q < e then q + 1 else q) e toks')
      else Some toks)"
  by pat_completeness auto
termination
  by (relation "measure (\<lambda>(m, p, e, t). nat (e - p))") (auto dest: find_comma_bounds)

declare tokens_loop.simps [simp del]

text \<open>
  The three adjustments of \<open>p\<close> and \<open>end\<close> before the loop: the optional dollar sign, the line end,
  the checksum. The tokenizer is the list of its tokens; \<open>count\<close> is its length.
\<close>

definition skip_dollar :: "u8 list \<Rightarrow> int \<Rightarrow> int \<Rightarrow> int option" where
  "skip_dollar m p e =
     (if p < e then do { c \<leftarrow> mem_get m p; Some (if c = 36 then p + 1 else p) } else Some p)"

definition skip_newline :: "u8 list \<Rightarrow> int \<Rightarrow> int \<Rightarrow> int option" where
  "skip_newline m p e =
     (if e > p then
        do { c \<leftarrow> mem_get m (e - 1);
             if c = 10 then
               if e - 1 > p then
                 do { d \<leftarrow> mem_get m (e - 1 - 1); Some (if d = 13 then e - 1 - 1 else e - 1) }
               else Some (e - 1)
             else Some e }
      else Some e)"

definition skip_checksum :: "u8 list \<Rightarrow> int \<Rightarrow> int \<Rightarrow> int option" where
  "skip_checksum m p e =
     (if e \<ge> p + 3 then do { c \<leftarrow> mem_get m (e - 3); Some (if c = 42 then e - 3 else e) } else Some e)"

definition nmea_tokenizer_init :: "u8 list \<Rightarrow> int \<Rightarrow> int \<Rightarrow> Token list option" where
  "nmea_tokenizer_init m p0 e0 =
     do { p \<leftarrow> skip_dollar m p0 e0;
          e1 \<leftarrow> skip_newline m p e0;
          e2 \<leftarrow> skip_checksum m p e1;
          tokens_loop m p e2 [] }"

definition nmea_tokenizer_get :: "Token list \<Rightarrow> int \<Rightarrow> Token" where
  "nmea_tokenizer_get t index =
     (if index < 0 \<or> index \<ge> int (length t) then \<lparr>t_obj = [0], t_p = 0, t_end = 0\<rparr>
      else t ! nat index)"

subsection \<open>Numbers\<close>

fun str2int_loop :: "u8 list \<Rightarrow> int \<Rightarrow> int \<Rightarrow> nat \<Rightarrow> int \<Rightarrow> int option" where
  "str2int_loop m p e 0 result = Some result"
| "str2int_loop m p e (Suc len) result =
     (if p \<ge> e then Some (-1)
      else do { ch \<leftarrow> mem_get m p;
                let c = uint ch - 48;
                if c < 0 \<or> 10 \<le> c then Some (-1)
                else do { a \<leftarrow> smul result 10; b \<leftarrow> sadd a c; str2int_loop m (p + 1) e len b } })"

definition str2int :: "u8 list \<Rightarrow> int \<Rightarrow> int \<Rightarrow> int option" where
  "str2int m p e = (if e - p = 0 then Some (-1) else str2int_loop m p e (nat (e - p)) 0)"

definition tok2int :: "Token \<Rightarrow> int option" where
  "tok2int t = str2int (t_obj t) (t_p t) (t_end t)"

definition str2float :: "'f fops \<Rightarrow> u8 list \<Rightarrow> int \<Rightarrow> int \<Rightarrow> 'f option" where
  "str2float F m p e =
     (if e - p = 0 then Some (fo_neg F (fo_dec F 10 1))
      else if e - p \<ge> 16 then Some (fo_dec F 0 0)
      else do { xs \<leftarrow> mem_read m p (nat (e - p)); Some (fo_strtod F (xs @ [0])) })"

definition tok2float :: "'f fops \<Rightarrow> Token \<Rightarrow> 'f option" where
  "tok2float F t = str2float F (t_obj t) (t_p t) (t_end t)"

subsection \<open>Updates of the fix\<close>

definition nmea_reader_update_utc_diff :: "clock \<Rightarrow> 'f NmeaReader \<Rightarrow> 'f NmeaReader option" where
  "nmea_reader_update_utc_diff ck r =
     do { d \<leftarrow> sadd (ck_mktime ck (ck_localtime ck)) (- ck_mktime ck (ck_gmtime ck));
          Some (r\<lparr>utc_diff := d\<rparr>) }"

definition sv_zero :: "'f fops \<Rightarrow> 'f GpsSvInfo" where
  "sv_zero F = \<lparr>prn = 0, snr = fo_dec F 0 0, elevation = fo_dec F 0 0, azimuth = fo_dec F 0 0\<rparr>"

definition reader_zero :: "'f fops \<Rightarrow> 'f NmeaReader" where
  "reader_zero F =
     (let z = fo_dec F 0 0 in
      \<lparr>r_pos = 0, r_overflow = False, utc_year = 0, utc_mon = 0, utc_day = 0, utc_diff = 0,
       fix_loc = \<lparr>loc_flags = 0, latitude = z, longitude = z, altitude = z, speed = z, bearing = z,
                  accuracy = z, timestamp = 0\<rparr>,
       sv_status = \<lparr>num_svs = 0, sv_list = replicate GPS_MAX_SVS (sv_zero F), ephemeris_mask = 0,
                    almanac_mask = 0, used_in_fix_mask = 0\<rparr>,
       sv_status_changed = False, fix_flags_cached = 0, r_in = replicate 256 0\<rparr>)"

definition nmea_reader_init :: "'f fops \<Rightarrow> clock \<Rightarrow> 'f NmeaReader option" where
  "nmea_reader_init F ck =
     nmea_reader_update_utc_diff ck
       ((reader_zero F)\<lparr>fix_flags_cached := 0, r_pos := 0, r_overflow := False,
                       utc_year := -1, utc_mon := -1, utc_day := -1\<rparr>)"

text \<open>An update returns the C result and the new reader.\<close>

definition nmea_reader_update_time ::
  "'f fops \<Rightarrow> clock \<Rightarrow> 'f NmeaReader \<Rightarrow> Token \<Rightarrow> (int \<times> 'f NmeaReader) option" where
  "nmea_reader_update_time F ck r tok =
     (if t_p tok + 6 > t_end tok then Some (-1, r)
      else
        do { let r1 = (if utc_year r < 0
                       then r\<lparr>utc_year := tm_year (ck_gmtime ck) + 1900,
                              utc_mon := tm_mon (ck_gmtime ck) + 1,
                              utc_day := tm_mday (ck_gmtime ck)\<rparr>
                       else r);
             hour \<leftarrow> str2int (t_obj tok) (t_p tok) (t_p tok + 2);
             minute \<leftarrow> str2int (t_obj tok) (t_p tok + 2) (t_p tok + 4);
             seconds \<leftarrow> str2float F (t_obj tok) (t_p tok + 4) (t_end tok);
             sec \<leftarrow> fo_trunc F seconds;
             let tm = \<lparr>tm_year = utc_year r1 - 1900, tm_mon = utc_mon r1 - 1, tm_mday = utc_day r1,
                       tm_hour = hour, tm_min = minute, tm_sec = sec\<rparr>;
             fix_time \<leftarrow> sadd (ck_mktime ck tm) (utc_diff r1);
             ms \<leftarrow> fo_trunc F (fo_mul F seconds (fo_dec F 1000 0));
             Some (0, r1\<lparr>fix_loc := (fix_loc r1)
                          \<lparr>timestamp := fix_time * 1000 + sgn ms * (\<bar>ms\<bar> mod 1000)\<rparr>\<rparr>) })"

definition nmea_reader_update_date ::
  "'f fops \<Rightarrow> clock \<Rightarrow> 'f NmeaReader \<Rightarrow> Token \<Rightarrow> Token \<Rightarrow> (int \<times> 'f NmeaReader) option" where
  "nmea_reader_update_date F ck r date time =
     (if t_p date + 6 \<noteq> t_end date then Some (-1, r)
      else
        do { day \<leftarrow> str2int (t_obj date) (t_p date) (t_p date + 2);
             mon \<leftarrow> str2int (t_obj date) (t_p date + 2) (t_p date + 4);
             y \<leftarrow> str2int (t_obj date) (t_p date + 4) (t_p date + 6);
             let year = y + 2000;
             if day < 0 \<or> mon < 0 \<or> year < 0 then Some (-1, r)
             else nmea_reader_update_time F ck (r\<lparr>utc_year := year, utc_mon := mon, utc_day := day\<rparr>) time })"

definition convert_from_hhmm :: "'f fops \<Rightarrow> Token \<Rightarrow> 'f option" where
  "convert_from_hhmm F tok =
     do { val \<leftarrow> tok2float F tok;
          degrees \<leftarrow> fo_trunc F (fo_div F (fo_floor F val) (fo_dec F 100 0));
          let minutes = fo_sub F val (fo_mul F (fo_dec F degrees 0) (fo_dec F 1000 1));
          Some (fo_add F (fo_dec F degrees 0) (fo_div F minutes (fo_dec F 600 1))) }"

definition set_flag :: "u16 \<Rightarrow> 'f GpsLocation \<Rightarrow> 'f GpsLocation" where
  "set_flag f l = l\<lparr>loc_flags := loc_flags l OR f\<rparr>"

definition nmea_reader_update_latlong ::
  "'f fops \<Rightarrow> 'f NmeaReader \<Rightarrow> Token \<Rightarrow> u8 \<Rightarrow> Token \<Rightarrow> u8 \<Rightarrow> (int \<times> 'f NmeaReader) option" where
  "nmea_reader_update_latlong F r latitude_tok latitudeHemi longitude_tok longitudeHemi =
     (if t_p latitude_tok + 6 > t_end latitude_tok then Some (-1, r)
      else
        do { lat0 \<leftarrow> convert_from_hhmm F latitude_tok;
             let lat = (if latitudeHemi = 83 then fo_neg F lat0 else lat0);
             if t_p longitude_tok + 6 > t_end longitude_tok then Some (-1, r)
             else
               do { lon0 \<leftarrow> convert_from_hhmm F longitude_tok;
                    let lon = (if longitudeHemi = 87 then fo_neg F lon0 else lon0);
                    Some (0, r\<lparr>fix_loc := (set_flag GPS_LOCATION_HAS_LAT_LONG (fix_loc r))
                                 \<lparr>latitude := lat, longitude := lon\<rparr>\<rparr>) } })"

definition nmea_reader_update_altitude ::
  "'f fops \<Rightarrow> 'f NmeaReader \<Rightarrow> Token \<Rightarrow> Token \<Rightarrow> Token \<Rightarrow> (int \<times> 'f NmeaReader) option" where
  "nmea_reader_update_altitude F r altitude_tok units geoid_height =
     (if t_p altitude_tok \<ge> t_end altitude_tok then Some (-1, r)
      else if t_p geoid_height \<ge> t_end geoid_height then Some (-1, r)
      else do { h \<leftarrow> tok2float F altitude_tok;
                n \<leftarrow> tok2float F geoid_height;
                Some (0, r\<lparr>fix_loc := (set_flag GPS_LOCATION_HAS_ALTITUDE (fix_loc r))
                             \<lparr>altitude := fo_add F h n\<rparr>\<rparr>) })"

definition nmea_reader_update_accuracy ::
  "'f fops \<Rightarrow> u8 \<Rightarrow> 'f NmeaReader \<Rightarrow> Token \<Rightarrow> (int \<times> 'f NmeaReader) option" where
  "nmea_reader_update_accuracy F precision r tok =
     (if t_p tok \<ge> t_end tok then Some (-1, r)
      else do { a \<leftarrow> tok2float F tok;
                Some (0, r\<lparr>fix_loc := (set_flag GPS_LOCATION_HAS_ACCURACY (fix_loc r))
                   \<lparr>accuracy := fo_float F (fo_mul F (fo_float F a)
                       (fo_float F (fo_dec F (uint precision) 0)))\<rparr>\<rparr>) })"

definition nmea_reader_update_bearing ::
  "'f fops \<Rightarrow> 'f NmeaReader \<Rightarrow> Token \<Rightarrow> (int \<times> 'f NmeaReader) option" where
  "nmea_reader_update_bearing F r tok =
     (if t_p tok \<ge> t_end tok then Some (-1, r)
      else do { b \<leftarrow> tok2float F tok;
                Some (0, r\<lparr>fix_loc := (set_flag GPS_LOCATION_HAS_BEARING (fix_loc r))
                             \<lparr>bearing := fo_float F b\<rparr>\<rparr>) })"

definition nmea_reader_update_speed ::
  "'f fops \<Rightarrow> 'f NmeaReader \<Rightarrow> Token \<Rightarrow> (int \<times> 'f NmeaReader) option" where
  "nmea_reader_update_speed F r tok =
     (if t_p tok \<ge> t_end tok then Some (-1, r)
      else do { v \<leftarrow> tok2float F tok;
                Some (0, r\<lparr>fix_loc := (set_flag GPS_LOCATION_HAS_SPEED (fix_loc r))
                   \<lparr>speed := fo_float F (fo_div F (fo_mul F (fo_float F v) (fo_dec F 1852 3))
                       (fo_dec F 36 1))\<rparr>\<rparr>) })"

subsection \<open>Sentences\<close>

text \<open>The branches of \<open>nmea_reader_parse\<close>, one function each; \<open>i\<close> runs over the satellites of a sentence.\<close>

fun gsv_loop ::
  "'f fops \<Rightarrow> Token list \<Rightarrow> int \<Rightarrow> int \<Rightarrow> int list \<Rightarrow> 'f NmeaReader \<Rightarrow> 'f NmeaReader option" where
  "gsv_loop F tz nsv cur [] r = Some r"
| "gsv_loop F tz nsv cur (i # is) r =
     (if num_svs (sv_status r) < nsv then
        do { s0 \<leftarrow> tok2float F (nmea_tokenizer_get tz (i * 4 + 7));
             let s = fo_float F s0;
             r1 \<leftarrow> (if fo_pos F s then
                     do { n \<leftarrow> tok2int (nmea_tokenizer_get tz (i * 4 + 4));
                          el \<leftarrow> tok2float F (nmea_tokenizer_get tz (i * 4 + 5));
                          az \<leftarrow> tok2float F (nmea_tokenizer_get tz (i * 4 + 6));
                          l \<leftarrow> mem_set (sv_list (sv_status r)) cur
                                \<lparr>prn = n, snr = s, elevation = fo_float F el, azimuth = fo_float F az\<rparr>;
                          Some (r\<lparr>sv_status := (sv_status r)
                                   \<lparr>sv_list := l, num_svs := num_svs (sv_status r) + 1\<rparr>\<rparr>) }
                   else Some r);
             next_cur \<leftarrow> sadd cur 1;
             gsv_loop F tz nsv next_cur is r1 }
      else Some r)"

definition clear_svs :: "'f fops \<Rightarrow> 'f NmeaReader \<Rightarrow> 'f NmeaReader" where
  "clear_svs F r = r\<lparr>sv_status_changed := False,
     sv_status := (sv_status r)\<lparr>num_svs := 0, sv_list := replicate GPS_MAX_SVS (sv_zero F)\<rparr>\<rparr>"

definition nmea_gsv :: "'f fops \<Rightarrow> Token list \<Rightarrow> 'f NmeaReader \<Rightarrow> 'f NmeaReader option" where
  "nmea_gsv F tz r =
     do { nsv \<leftarrow> tok2int (nmea_tokenizer_get tz 3);
          if nsv > 0 then
            do { sentence_no \<leftarrow> tok2int (nmea_tokenizer_get tz 2);
                 total_sentences \<leftarrow> tok2int (nmea_tokenizer_get tz 1);
                 let r1 = (if sentence_no = 1 then clear_svs F r else r);
                 cur \<leftarrow> smul (sentence_no - 1) 4;
                 r2 \<leftarrow> gsv_loop F tz nsv cur [0, 1, 2, 3] r1;
                 Some (if sentence_no = total_sentences then r2\<lparr>sv_status_changed := True\<rparr> else r2) }
          else Some r }"

definition tok_char :: "Token \<Rightarrow> u8 option" where
  "tok_char t = mem_get (t_obj t) (t_p t)"

definition nmea_gga ::
  "'f fops \<Rightarrow> clock \<Rightarrow> u8 \<Rightarrow> Token list \<Rightarrow> 'f NmeaReader \<Rightarrow> 'f NmeaReader option" where
  "nmea_gga F ck precision tz r =
     do { st \<leftarrow> tok_char (nmea_tokenizer_get tz 6);
          if st > 48 then
            do { (_, r1) \<leftarrow> nmea_reader_update_time F ck r (nmea_tokenizer_get tz 1);
                 lh \<leftarrow> tok_char (nmea_tokenizer_get tz 3);
                 lo \<leftarrow> tok_char (nmea_tokenizer_get tz 5);
                 (_, r2) \<leftarrow> nmea_reader_update_latlong F r1 (nmea_tokenizer_get tz 2) lh
                              (nmea_tokenizer_get tz 4) lo;
                 (_, r3) \<leftarrow> nmea_reader_update_accuracy F precision r2 (nmea_tokenizer_get tz 8);
                 (_, r4) \<leftarrow> nmea_reader_update_altitude F r3 (nmea_tokenizer_get tz 9)
                              (nmea_tokenizer_get tz 10) (nmea_tokenizer_get tz 11);
                 Some r4 }
          else Some r }"

definition nmea_rmc :: "'f fops \<Rightarrow> clock \<Rightarrow> Token list \<Rightarrow> 'f NmeaReader \<Rightarrow> 'f NmeaReader option" where
  "nmea_rmc F ck tz r =
     do { st \<leftarrow> tok_char (nmea_tokenizer_get tz 2);
          if st = 65 then
            do { (_, r1) \<leftarrow> nmea_reader_update_date F ck r (nmea_tokenizer_get tz 9)
                              (nmea_tokenizer_get tz 1);
                 lh \<leftarrow> tok_char (nmea_tokenizer_get tz 4);
                 lo \<leftarrow> tok_char (nmea_tokenizer_get tz 6);
                 (_, r2) \<leftarrow> nmea_reader_update_latlong F r1 (nmea_tokenizer_get tz 3) lh
                              (nmea_tokenizer_get tz 5) lo;
                 (_, r3) \<leftarrow> nmea_reader_update_bearing F r2 (nmea_tokenizer_get tz 8);
                 (_, r4) \<leftarrow> nmea_reader_update_speed F r3 (nmea_tokenizer_get tz 7);
                 Some r4 }
          else Some r }"

text \<open>\<open>1ul << (prn - 1)\<close> is undefined when the shift reaches the 32 bits of \<open>unsigned long\<close>.\<close>

fun gsa_loop :: "Token list \<Rightarrow> int list \<Rightarrow> u32 \<Rightarrow> u32 option" where
  "gsa_loop tz [] used = Some used"
| "gsa_loop tz (i # is) used =
     do { n \<leftarrow> tok2int (nmea_tokenizer_get tz i);
          if n > 0 then
            if n - 1 < 32 then gsa_loop tz is (used OR push_bit (nat (n - 1)) 1) else None
          else gsa_loop tz is used }"

definition set_mask :: "u32 \<Rightarrow> 'f NmeaReader \<Rightarrow> 'f NmeaReader" where
  "set_mask used r = r\<lparr>sv_status := (sv_status r)\<lparr>used_in_fix_mask := used\<rparr>\<rparr>"

definition gsa_range :: "int list" where
  "gsa_range = [3..14]"

definition nmea_gsa :: "Token list \<Rightarrow> 'f NmeaReader \<Rightarrow> 'f NmeaReader option" where
  "nmea_gsa tz r =
     do { st \<leftarrow> tok_char (nmea_tokenizer_get tz 2);
          used \<leftarrow> (if st = 51 \<or> st = 50 then gsa_loop tz gsa_range 0 else Some 0);
          Some ((set_mask used r)\<lparr>sv_status_changed := True\<rparr>) }"

text \<open>The second component is the sentence handed to \<open>update_gps_nmea\<close>, if it is.\<close>

definition nmea_reader_parse ::
  "'f fops \<Rightarrow> clock \<Rightarrow> u8 \<Rightarrow> 'f NmeaReader \<Rightarrow> ('f NmeaReader \<times> u8 list option) option" where
  "nmea_reader_parse F ck precision r =
     (if r_pos r < 9 then Some (r, None)
      else
        do { tz \<leftarrow> nmea_tokenizer_init (r_in r) 0 (r_pos r);
             let tok = nmea_tokenizer_get tz 0;
             if t_p tok + 5 > t_end tok then Some (r, None)
             else
               do { ty \<leftarrow> mem_read (t_obj tok) (t_p tok + 2) 3;
                    line \<leftarrow> mem_read (r_in r) 0 (nat (r_pos r));
                    if ty = [71, 83, 86] then do { r1 \<leftarrow> nmea_gsv F tz r; Some (r1, None) }
                    else if ty = [71, 71, 65] then do { r1 \<leftarrow> nmea_gga F ck precision tz r; Some (r1, Some line) }
                    else if ty = [82, 77, 67] then do { r1 \<leftarrow> nmea_rmc F ck tz r; Some (r1, Some line) }
                    else if ty = [71, 83, 65] then do { r1 \<leftarrow> nmea_gsa tz r; Some (r1, Some line) }
                    else Some (r, None) } })"

subsection \<open>Framing\<close>

definition nmea_reader_addc ::
  "'f fops \<Rightarrow> clock \<Rightarrow> u8 \<Rightarrow> 'f NmeaReader \<Rightarrow> u8 \<Rightarrow> ('f NmeaReader \<times> u8 list option) option" where
  "nmea_reader_addc F ck precision r c =
     (if r_overflow r then Some (r\<lparr>r_overflow := (c \<noteq> 10)\<rparr>, None)
      else if r_pos r \<ge> 256 - 1 then Some (r\<lparr>r_overflow := True, r_pos := 0\<rparr>, None)
      else
        do { m \<leftarrow> mem_set (r_in r) (r_pos r) c;
             let r1 = r\<lparr>r_in := m, r_pos := r_pos r + 1\<rparr>;
             if c = 10 then
               do { (r2, rep) \<leftarrow> nmea_reader_parse F ck precision r1; Some (r2\<lparr>r_pos := 0\<rparr>, rep) }
             else Some (r1, None) })"

text \<open>The loop of the state thread over the bytes it read; the reports are in order.\<close>

fun nmea_feed ::
  "'f fops \<Rightarrow> clock \<Rightarrow> u8 \<Rightarrow> 'f NmeaReader \<Rightarrow> u8 list \<Rightarrow> ('f NmeaReader \<times> u8 list list) option" where
  "nmea_feed F ck precision r [] = Some (r, [])"
| "nmea_feed F ck precision r (c # cs) =
     do { (r1, rep) \<leftarrow> nmea_reader_addc F ck precision r c;
          (r2, reps) \<leftarrow> nmea_feed F ck precision r1 cs;
          Some (r2, (case rep of None \<Rightarrow> reps | Some l \<Rightarrow> l # reps)) }"

subsection \<open>Lemmas: the tokenizer\<close>

text \<open>
  What the tokenizer is to compute: the fields of a sentence between its commas. A comma at the end of
  the sentence does not start another field.
\<close>

function nmea_fields :: "u8 list \<Rightarrow> u8 list list" where
  "nmea_fields [] = []"
| "nmea_fields (c # cs) =
     takeWhile (\<lambda>x. x \<noteq> 44) (c # cs) # nmea_fields (tl (dropWhile (\<lambda>x. x \<noteq> 44) (c # cs)))"
  by pat_completeness auto
termination
proof (relation "measure length", goal_cases)
  case 1
  show ?case by simp
next
  case (2 c cs)
  have "length (dropWhile (\<lambda>x. x \<noteq> 44) (c # cs)) \<le> Suc (length cs)"
    using length_dropWhile_le [of "\<lambda>x. x \<noteq> 44" "c # cs"] by simp
  then show ?case by simp
qed

definition strip_tail :: "u8 list \<Rightarrow> u8 list" where
  "strip_tail a =
     (if a \<noteq> [] \<and> last a = 10 then
        if butlast a \<noteq> [] \<and> last (butlast a) = 13 then butlast (butlast a) else butlast a
      else a)"

definition strip_checksum :: "u8 list \<Rightarrow> u8 list" where
  "strip_checksum b =
     (if 3 \<le> length b \<and> b ! (length b - 3) = 42 then take (length b - 3) b else b)"

definition strip_sentence :: "u8 list \<Rightarrow> u8 list" where
  "strip_sentence l =
     strip_checksum (strip_tail (case l of [] \<Rightarrow> [] | c # cs \<Rightarrow> if c = 36 then cs else l))"

definition seg :: "u8 list \<Rightarrow> int \<Rightarrow> int \<Rightarrow> u8 list" where
  "seg m p e = take (nat (e - p)) (drop (nat p) m)"

definition tok_text :: "Token \<Rightarrow> u8 list" where
  "tok_text t = seg (t_obj t) (t_p t) (t_end t)"

definition tok_ok :: "Token \<Rightarrow> bool" where
  "tok_ok t \<longleftrightarrow> 0 \<le> t_p t \<and> t_p t \<le> t_end t \<and> t_end t \<le> int (length (t_obj t)) \<and>
     t_p t < int (length (t_obj t))"

lemma length_seg: "0 \<le> p \<Longrightarrow> p \<le> e \<Longrightarrow> e \<le> int (length m) \<Longrightarrow> length (seg m p e) = nat (e - p)"
  by (auto simp: seg_def)

lemma seg_sub:
  "0 \<le> p \<Longrightarrow> p \<le> q \<Longrightarrow> q \<le> e \<Longrightarrow> take (nat (q - p)) (seg m p e) = seg m p q"
  "0 \<le> p \<Longrightarrow> p \<le> q \<Longrightarrow> q \<le> e \<Longrightarrow> drop (nat (q - p)) (seg m p e) = seg m q e"
proof -
  assume a: "0 \<le> p" "p \<le> q" "q \<le> e"
  then have "nat (q - p) \<le> nat (e - p)" by simp
  then show "take (nat (q - p)) (seg m p e) = seg m p q" by (simp add: seg_def min_def)
  have "nat (e - p) - nat (q - p) = nat (e - q)" "nat (q - p) + nat p = nat q" using a by auto
  then show "drop (nat (q - p)) (seg m p e) = seg m q e"
    by (simp add: seg_def drop_take)
qed

lemma nmea_fields_step:
  "xs \<noteq> [] \<Longrightarrow> nmea_fields xs =
     takeWhile (\<lambda>x. x \<noteq> 44) xs # nmea_fields (drop (Suc (length (takeWhile (\<lambda>x. x \<noteq> 44) xs))) xs)"
  by (cases xs) (auto simp: dropWhile_eq_drop tl_drop drop_Suc)

lemma tokens_loop_fields:
  assumes "0 \<le> p" "p \<le> e" "e \<le> int (length m)" "length toks \<le> 32" "\<forall>t \<in> set toks. tok_ok t"
  shows "\<exists>toks'. tokens_loop m p e toks = Some toks' \<and> (\<forall>t \<in> set toks'. tok_ok t) \<and>
     map tok_text toks' = map tok_text toks @ take (32 - length toks) (nmea_fields (seg m p e))"
  using assms
proof (induction m p e toks rule: tokens_loop.induct)
  case (1 m p e toks)
  show ?case
  proof (cases "p < e")
    case False
    then have "seg m p e = []" by (simp add: seg_def)
    with False "1.prems" show ?thesis by (simp add: tokens_loop.simps)
  next
    case True
    let ?xs = "seg m p e"
    define q where "q = p + int (length (takeWhile (\<lambda>x. x \<noteq> 44) ?xs))"
    have f: "find_comma m p e = Some q"
      using "1.prems" True by (simp add: find_comma_def mem_read_def q_def seg_def)
    have q: "p \<le> q" "q \<le> e" using find_comma_bounds [OF f True] by auto
    have ne: "?xs \<noteq> []" using length_seg [of p e m] "1.prems" True by auto
    have seg_eq: "takeWhile (\<lambda>x. x \<noteq> 44) ?xs = seg m p q"
      using seg_sub(1) [of p q e m] "1.prems" q
      by (simp add: q_def) (metis takeWhile_eq_take)
    let ?n = "if q < e then q + 1 else q"
    have "drop (Suc (length (takeWhile (\<lambda>x. x \<noteq> 44) ?xs))) ?xs = seg m ?n e"
    proof (cases "q < e")
      case True
      have "Suc (length (takeWhile (\<lambda>x. x \<noteq> 44) ?xs)) = nat (q + 1 - p)" by (simp add: q_def)
      with True q "1.prems" show ?thesis using seg_sub(2) [of p "q + 1" e m] by simp
    next
      case False
      with q have "length (takeWhile (\<lambda>x. x \<noteq> 44) ?xs) = length ?xs"
        using length_seg [of p e m] "1.prems" by (simp add: q_def)
      with False q show ?thesis by (simp add: seg_def)
    qed
    then have fs: "nmea_fields ?xs = seg m p q # nmea_fields (seg m ?n e)"
      using nmea_fields_step [OF ne] seg_eq by simp
    define toks1 where "toks1 = (if length toks < 32 then toks @ [\<lparr>t_obj = m, t_p = p, t_end = q\<rparr>] else toks)"
    have t1: "length toks1 \<le> 32" "\<forall>t \<in> set toks1. tok_ok t"
      using "1.prems" q True by (auto simp: toks1_def tok_ok_def)
    have "\<exists>toks'. tokens_loop m ?n e toks1 = Some toks' \<and> (\<forall>t \<in> set toks'. tok_ok t) \<and>
       map tok_text toks' = map tok_text toks1 @ take (32 - length toks1) (nmea_fields (seg m ?n e))"
      by (rule "1.IH" [OF True f toks1_def]) (use "1.prems" q t1 in auto)
    moreover have "tokens_loop m p e toks = tokens_loop m ?n e toks1"
      using True f by (subst tokens_loop.simps) (simp add: toks1_def Let_def)
    moreover have "map tok_text toks1 @ take (32 - length toks1) (nmea_fields (seg m ?n e)) =
        map tok_text toks @ take (32 - length toks) (nmea_fields ?xs)"
    proof (cases "length toks < 32")
      case True
      then have "32 - length toks = Suc (31 - length toks)" by simp
      with True fs show ?thesis by (simp add: toks1_def tok_text_def)
    qed (use fs in \<open>simp add: toks1_def\<close>)
    ultimately show ?thesis by simp
  qed
qed

lemma tok_ok_get: "\<forall>t \<in> set tz. tok_ok t \<Longrightarrow> tok_ok (nmea_tokenizer_get tz i)"
  by (auto simp: nmea_tokenizer_get_def tok_ok_def)

lemma seg_last:
  assumes "0 \<le> p" "p < e" "e \<le> int (length m)"
  shows "seg m p e = seg m p (e - 1) @ [m ! nat (e - 1)]"
proof -
  obtain n k where n: "nat p = n" "nat (e - p) = Suc k" "nat (e - 1) = n + k" "nat (e - 1 - p) = k"
    using assms by (metis Suc_nat_eq_nat_zadd1 add.commute diff_add_cancel diff_ge_0_iff_ge
        nat_add_distrib zle_diff1_eq add_diff_eq diff_diff_eq2 diff_right_commute)
  moreover have "n + k < length m" using assms n by linarith
  ultimately show ?thesis
    unfolding seg_def n by (simp add: take_Suc_conv_app_nth)
qed

lemma seg_Nil: "0 \<le> p \<Longrightarrow> p \<le> e \<Longrightarrow> e \<le> int (length m) \<Longrightarrow> seg m p e = [] \<longleftrightarrow> p = e"
  using length_seg [of p e m] by auto

lemma skip_dollar_seg:
  assumes "0 \<le> e" "e \<le> int (length m)"
  obtains p where "skip_dollar m 0 e = Some p" "0 \<le> p" "p \<le> e"
    "seg m p e = (case seg m 0 e of [] \<Rightarrow> [] | c # cs \<Rightarrow> if c = 36 then cs else seg m 0 e)"
proof (cases "0 < e")
  case True
  then obtain c cs where m: "m = c # cs" using assms by (cases m) auto
  have s: "seg m 0 e = c # seg m 1 e"
    using True by (simp add: seg_def m take_Cons' nat_diff_distrib)
  show thesis
    by (rule that [of "if c = 36 then 1 else 0"])
      (use True assms s in \<open>auto simp: skip_dollar_def mem_get_def m split: if_splits\<close>)
next
  case False
  with assms show thesis by (intro that [of 0]) (auto simp: skip_dollar_def seg_def)
qed

lemma skip_newline_seg:
  assumes "0 \<le> p" "p \<le> e" "e \<le> int (length m)"
  obtains e' where "skip_newline m p e = Some e'" "p \<le> e'" "e' \<le> e" "seg m p e' = strip_tail (seg m p e)"
proof (cases "p < e \<and> m ! nat (e - 1) = 10")
  case False
  then show thesis
    using assms seg_last [of p e m] seg_Nil [of p e m]
    by (intro that [of e]) (auto simp: skip_newline_def mem_get_def strip_tail_def)
next
  case True
  then have s: "seg m p e = seg m p (e - 1) @ [10]" using seg_last [of p e m] assms by simp
  show thesis
  proof (cases "p < e - 1 \<and> m ! nat (e - 1 - 1) = 13")
    case cr: True
    then have "seg m p (e - 1) = seg m p (e - 1 - 1) @ [13]" using seg_last [of p "e - 1" m] assms by simp
    with True cr s assms show thesis
      by (intro that [of "e - 1 - 1"]) (auto simp: skip_newline_def mem_get_def strip_tail_def butlast_append)
  next
    case cr: False
    have "\<not> (seg m p (e - 1) \<noteq> [] \<and> last (seg m p (e - 1)) = 13)"
      using cr True assms seg_last [of p "e - 1" m] seg_Nil [of p "e - 1" m] by auto
    with True cr s assms show thesis
      by (intro that [of "e - 1"]) (auto simp: skip_newline_def mem_get_def strip_tail_def)
  qed
qed

lemma skip_checksum_seg:
  assumes "0 \<le> p" "p \<le> e" "e \<le> int (length m)"
  obtains e' where "skip_checksum m p e = Some e'" "p \<le> e'" "e' \<le> e"
    "seg m p e' = strip_checksum (seg m p e)"
proof -
  have len: "length (seg m p e) = nat (e - p)" using length_seg assms by blast
  show thesis
  proof (cases "p + 3 \<le> e")
    case False
    with assms len show thesis
      by (intro that [of e]) (auto simp: skip_checksum_def strip_checksum_def)
  next
    case True
    have "seg m p e ! (length (seg m p e) - 3) = m ! nat (e - 3)"
    proof -
      have "nat (e - p) - 3 = nat (e - 3 - p)" "nat p + nat (e - 3 - p) = nat (e - 3)"
        "nat (e - 3 - p) < nat (e - p)" using True assms by linarith+
      then show ?thesis using len assms by (simp add: seg_def)
    qed
    moreover have "take (length (seg m p e) - 3) (seg m p e) = seg m p (e - 3)"
    proof -
      have "nat (e - p) - 3 = nat (e - 3 - p)" using True by linarith
      then show ?thesis using seg_sub(1) [of p "e - 3" e m] True assms len by simp
    qed
    ultimately show thesis
      using True assms len
      by (intro that [of "if m ! nat (e - 3) = 42 then e - 3 else e"])
        (auto simp: skip_checksum_def strip_checksum_def mem_get_def)
  qed
qed

lemma tokenizer_fields:
  assumes "0 \<le> n" "n \<le> int (length m)"
  obtains tz where "nmea_tokenizer_init m 0 n = Some tz" "\<forall>t \<in> set tz. tok_ok t"
    "map tok_text tz = take 32 (nmea_fields (strip_sentence (take (nat n) m)))"
proof -
  obtain p where p: "skip_dollar m 0 n = Some p" "0 \<le> p" "p \<le> n"
    "seg m p n = (case seg m 0 n of [] \<Rightarrow> [] | c # cs \<Rightarrow> if c = 36 then cs else seg m 0 n)"
    using skip_dollar_seg [OF assms] by blast
  obtain e1 where e1: "skip_newline m p n = Some e1" "p \<le> e1" "e1 \<le> n"
    "seg m p e1 = strip_tail (seg m p n)" using skip_newline_seg [OF p(2,3) assms(2)] by blast
  have b: "e1 \<le> int (length m)" using e1 assms by simp
  obtain e2 where e2: "skip_checksum m p e1 = Some e2" "p \<le> e2" "e2 \<le> e1"
    "seg m p e2 = strip_checksum (seg m p e1)" using skip_checksum_seg [OF p(2) e1(2) b] by blast
  have "seg m 0 n = take (nat n) m" by (simp add: seg_def)
  then have "seg m p e2 = strip_sentence (take (nat n) m)"
    using p(4) e1(4) e2(4) by (simp add: strip_sentence_def split: list.splits)
  moreover obtain tz where "tokens_loop m p e2 [] = Some tz" "\<forall>t \<in> set tz. tok_ok t"
    "map tok_text tz = take 32 (nmea_fields (seg m p e2))"
    using tokens_loop_fields [of p e2 m "[]"] p e2 b by auto
  ultimately show thesis
    using p e1 e2 by (intro that [of tz]) (auto simp: nmea_tokenizer_init_def)
qed

subsection \<open>Lemmas: numbers\<close>

text \<open>The number a string of digits denotes, read from the left, or \<open>None\<close> if it is not one.\<close>

fun dec_value :: "int \<Rightarrow> u8 list \<Rightarrow> int option" where
  "dec_value acc [] = Some acc"
| "dec_value acc (c # cs) =
     (if 48 \<le> uint c \<and> uint c < 58 then dec_value (acc * 10 + (uint c - 48)) cs else None)"

definition nmea_number :: "u8 list \<Rightarrow> int" where
  "nmea_number xs = (if xs = [] then -1 else case dec_value 0 xs of None \<Rightarrow> -1 | Some v \<Rightarrow> v)"

lemma seg_Cons:
  "0 \<le> p \<Longrightarrow> p < e \<Longrightarrow> e \<le> int (length m) \<Longrightarrow> seg m p e = m ! nat p # seg m (p + 1) e"
proof -
  assume a: "0 \<le> p" "p < e" "e \<le> int (length m)"
  then have "nat (e - p) = Suc (nat (e - (p + 1)))" "nat (p + 1) = Suc (nat p)" "nat p < length m"
    by linarith+
  then show ?thesis by (simp add: seg_def Cons_nth_drop_Suc [symmetric])
qed

lemma str2int_loop_dec:
  assumes "0 \<le> p" "e \<le> int (length m)" "e = p + int len" "0 \<le> acc" "acc < 10 ^ k" "k + len \<le> 9"
  shows "str2int_loop m p e len acc = Some (case dec_value acc (seg m p e) of None \<Rightarrow> -1 | Some v \<Rightarrow> v)"
  using assms
proof (induction len arbitrary: p acc k)
  case 0
  then show ?case by (simp add: seg_def)
next
  case (Suc len)
  let ?c = "m ! nat p"
  have s: "seg m p e = ?c # seg m (p + 1) e" using Suc.prems by (intro seg_Cons) auto
  have g: "mem_get m p = Some ?c" using Suc.prems by (simp add: mem_get_def)
  show ?case
  proof (cases "48 \<le> uint ?c \<and> uint ?c < 58")
    case False
    with s g Suc.prems show ?thesis by auto
  next
    case True
    have "(10 :: int) ^ (k + 1) \<le> 10 ^ 9" using Suc.prems by (intro power_increasing) auto
    moreover have acc: "acc * 10 + (uint ?c - 48) < 10 ^ (k + 1)" "0 \<le> acc * 10 + (uint ?c - 48)"
      using Suc.prems True by auto
    ultimately have "acc * 10 + (uint ?c - 48) < 10 ^ 9" by linarith
    then have "smul acc 10 = Some (acc * 10)"
      "sadd (acc * 10) (uint ?c - 48) = Some (acc * 10 + (uint ?c - 48))"
      using Suc.prems True acc by (auto simp: smul_def sadd_def int32_ok_def)
    moreover have "str2int_loop m (p + 1) e len (acc * 10 + (uint ?c - 48)) =
        Some (case dec_value (acc * 10 + (uint ?c - 48)) (seg m (p + 1) e) of None \<Rightarrow> -1 | Some v \<Rightarrow> v)"
      using Suc.prems acc by (intro Suc.IH [of _ _ "k + 1"]) auto
    ultimately show ?thesis using s g True Suc.prems by auto
  qed
qed

lemma tok2int_dec:
  assumes "tok_ok t" "length (tok_text t) \<le> 9"
  shows "tok2int t = Some (nmea_number (tok_text t))"
proof (cases "t_p t = t_end t")
  case True
  then show ?thesis by (simp add: tok2int_def str2int_def nmea_number_def tok_text_def seg_def)
next
  case False
  have len: "length (tok_text t) = nat (t_end t - t_p t)"
    using assms(1) by (simp add: tok_text_def length_seg tok_ok_def)
  have "str2int_loop (t_obj t) (t_p t) (t_end t) (nat (t_end t - t_p t)) 0 =
      Some (case dec_value 0 (tok_text t) of None \<Rightarrow> -1 | Some v \<Rightarrow> v)"
    unfolding tok_text_def
    by (rule str2int_loop_dec [of _ _ _ _ _ 0]) (use assms len in \<open>auto simp: tok_ok_def\<close>)
  moreover have "tok_text t \<noteq> []" using len False assms(1) by (auto simp: tok_ok_def)
  ultimately show ?thesis using False by (simp add: tok2int_def str2int_def nmea_number_def)
qed

lemma tok2float_total: "tok_ok t \<Longrightarrow> \<exists>v. tok2float F t = Some v"
  by (auto simp: tok2float_def str2float_def mem_read_def tok_ok_def)

subsection \<open>Lemmas: satellites\<close>

definition reader_ok :: "'f NmeaReader \<Rightarrow> bool" where
  "reader_ok r \<longleftrightarrow> length (r_in r) = 256 \<and> 0 \<le> r_pos r \<and> r_pos r \<le> 255 \<and>
     length (sv_list (sv_status r)) = 32"

definition short_toks :: "Token list \<Rightarrow> bool" where
  "short_toks tz \<longleftrightarrow> (\<forall>t \<in> set tz. tok_ok t \<and> length (tok_text t) \<le> 9)"

lemma tok2int_get:
  "short_toks tz \<Longrightarrow> tok2int (nmea_tokenizer_get tz i) = Some (nmea_number (tok_text (nmea_tokenizer_get tz i)))"
  by (rule tok2int_dec)
    (auto simp: short_toks_def nmea_tokenizer_get_def tok_ok_def tok_text_def seg_def)

lemma gsv_loop_ok:
  assumes "short_toks tz" "reader_ok r" and "0 \<le> cur" "cur + int (length is) \<le> 32"
  shows "\<exists>r'. gsv_loop F tz nsv cur is r = Some r' \<and> reader_ok r' \<and>
     num_svs (sv_status r') \<le> max nsv (num_svs (sv_status r))"
  using assms
proof (induction "is" arbitrary: r cur)
  case (Cons i "is")
  show ?case
  proof (cases "num_svs (sv_status r) < nsv")
    case True
    have ok: "tok_ok (nmea_tokenizer_get tz j)" for j
      using Cons.prems(1) by (intro tok_ok_get) (auto simp: short_toks_def)
    obtain s0 el az where f: "tok2float F (nmea_tokenizer_get tz (i * 4 + 7)) = Some s0"
      "tok2float F (nmea_tokenizer_get tz (i * 4 + 5)) = Some el"
      "tok2float F (nmea_tokenizer_get tz (i * 4 + 6)) = Some az"
      using tok2float_total [OF ok] by metis
    have cur: "mem_set (sv_list (sv_status r)) cur v = Some ((sv_list (sv_status r))[nat cur := v])" for v
      using Cons.prems by (auto simp: mem_set_def reader_ok_def)
    have add: "sadd cur 1 = Some (cur + 1)" using Cons.prems by (auto simp: sadd_def int32_ok_def)
    define r1 where "r1 = (if fo_pos F (fo_float F s0)
      then r\<lparr>sv_status := (sv_status r)
        \<lparr>sv_list := (sv_list (sv_status r))[nat cur :=
            \<lparr>prn = nmea_number (tok_text (nmea_tokenizer_get tz (i * 4 + 4))), snr = fo_float F s0,
             elevation = fo_float F el, azimuth = fo_float F az\<rparr>],
          num_svs := num_svs (sv_status r) + 1\<rparr>\<rparr> else r)"
    have r1: "reader_ok r1" "num_svs (sv_status r1) \<le> nsv"
      using Cons.prems True by (auto simp: r1_def reader_ok_def)
    have "gsv_loop F tz nsv cur (i # is) r = gsv_loop F tz nsv (cur + 1) is r1"
      using True f cur add tok2int_get [OF Cons.prems(1)] by (simp add: r1_def)
    moreover obtain r' where "gsv_loop F tz nsv (cur + 1) is r1 = Some r'" "reader_ok r'"
      "num_svs (sv_status r') \<le> max nsv (num_svs (sv_status r1))"
      using Cons.IH [OF Cons.prems(1) r1(1), of "cur + 1"] Cons.prems by auto
    ultimately show ?thesis using r1 by auto
  qed (use Cons.prems in auto)
qed auto

lemma gsa_loop_bits:
  assumes "\<forall>i \<in> set is. \<exists>n. tok2int (nmea_tokenizer_get tz i) = Some n \<and> n \<le> 32"
  shows "\<exists>u. gsa_loop tz is used = Some u \<and>
     (\<forall>b. bit u b \<longleftrightarrow> bit used b \<or> (\<exists>i \<in> set is. tok2int (nmea_tokenizer_get tz i) = Some (int b + 1)))"
  using assms
proof (induction "is" arbitrary: used)
  case (Cons i "is")
  then obtain n where n: "tok2int (nmea_tokenizer_get tz i) = Some n" "n \<le> 32" by auto
  show ?case
  proof (cases "0 < n")
    case True
    obtain u where "gsa_loop tz is (used OR push_bit (nat (n - 1)) 1) = Some u"
      "\<forall>b. bit u b \<longleftrightarrow> bit (used OR push_bit (nat (n - 1)) 1) b \<or>
        (\<exists>i \<in> set is. tok2int (nmea_tokenizer_get tz i) = Some (int b + 1))"
      using Cons by fastforce
    with True n show ?thesis by (auto simp: bit_or_iff bit_exp_iff)
  next
    case False
    obtain u where "gsa_loop tz is used = Some u"
      "\<forall>b. bit u b \<longleftrightarrow> bit used b \<or>
        (\<exists>i \<in> set is. tok2int (nmea_tokenizer_get tz i) = Some (int b + 1))"
      using Cons by fastforce
    with False n show ?thesis by auto
  qed
qed simp

lemma set_gsa_range: "set gsa_range = {3..14}"
  by (simp only: gsa_range_def set_upto)

lemma gsa_loop_high:
  assumes "\<And>i. tok2int (nmea_tokenizer_get tz i) = Some (f i)" "\<exists>i \<in> set is. 32 < f i"
  shows "gsa_loop tz is used = None"
  using assms(2)
proof (induction "is" arbitrary: used)
  case (Cons i "is")
  then show ?case using assms(1) by auto
qed simp

subsection \<open>Lemmas: framing\<close>

lemma feed_append:
  "nmea_feed F ck pr r (xs @ ys) =
     do { (r1, a) \<leftarrow> nmea_feed F ck pr r xs; (r2, b) \<leftarrow> nmea_feed F ck pr r1 ys; Some (r2, a @ b) }"
  by (induction xs arbitrary: r) (auto split: option.splits Option.bind_splits prod.splits)

lemma feed_body:
  assumes "10 \<notin> set cs" "\<not> r_overflow r" "length (r_in r) = 256" "0 \<le> r_pos r"
    and "r_pos r + int (length cs) \<le> 255"
  shows "nmea_feed F ck pr r cs =
     Some (r\<lparr>r_in := take (nat (r_pos r)) (r_in r) @ cs @ drop (nat (r_pos r) + length cs) (r_in r),
             r_pos := r_pos r + int (length cs)\<rparr>, [])"
  using assms
proof (induction cs arbitrary: r)
  case (Cons c cs)
  define r1 where "r1 = r\<lparr>r_in := (r_in r)[nat (r_pos r) := c], r_pos := r_pos r + 1\<rparr>"
  have add: "nmea_reader_addc F ck pr r c = Some (r1, None)"
    using Cons.prems by (auto simp: nmea_reader_addc_def mem_set_def r1_def)
  have "nmea_feed F ck pr r1 cs =
     Some (r1\<lparr>r_in := take (nat (r_pos r1)) (r_in r1) @ cs @ drop (nat (r_pos r1) + length cs) (r_in r1),
             r_pos := r_pos r1 + int (length cs)\<rparr>, [])"
    by (rule Cons.IH) (use Cons.prems in \<open>auto simp: r1_def\<close>)
  moreover have "take (nat (r_pos r1)) (r_in r1) = take (nat (r_pos r)) (r_in r) @ [c]"
    "drop (nat (r_pos r1) + length cs) (r_in r1) = drop (nat (r_pos r) + length (c # cs)) (r_in r)"
  proof -
    have p: "nat (r_pos r) < length (r_in r)" "nat (r_pos r + 1) = Suc (nat (r_pos r))"
      using Cons.prems by auto
    then show "take (nat (r_pos r1)) (r_in r1) = take (nat (r_pos r)) (r_in r) @ [c]"
      by (simp add: r1_def take_Suc_conv_app_nth)
    show "drop (nat (r_pos r1) + length cs) (r_in r1) = drop (nat (r_pos r) + length (c # cs)) (r_in r)"
      using p by (simp add: r1_def)
  qed
  ultimately show ?case using add by (simp add: r1_def)
qed simp

lemma feed_skip:
  "r_overflow r \<Longrightarrow> 10 \<notin> set cs \<Longrightarrow> nmea_feed F ck pr r cs = Some (r, [])"
proof (induction cs)
  case (Cons c cs)
  then have "nmea_reader_addc F ck pr r c = Some (r, None)" by (auto simp: nmea_reader_addc_def)
  with Cons show ?case by simp
qed simp

lemma feed_overflow:
  assumes "10 \<notin> set cs" "\<not> r_overflow r" "length (r_in r) = 256" "r_pos r = 0" "length cs = 255"
  shows "\<exists>m. length m = 256 \<and> nmea_feed F ck pr r (cs @ [c]) =
     Some (r\<lparr>r_in := m, r_overflow := True, r_pos := 0\<rparr>, [])"
  using feed_body [OF assms(1-3), of F ck pr] assms(2-5)
  by (intro exI [of _ "cs @ drop 255 (r_in r)"]) (simp add: feed_append nmea_reader_addc_def)

lemma parse_report:
  "nmea_reader_parse F ck pr r = Some (r', Some l) \<Longrightarrow> l = take (nat (r_pos r)) (r_in r)"
  by (auto simp: nmea_reader_parse_def Let_def mem_read_def split: if_splits Option.bind_splits)

subsection \<open>Properties\<close>

text \<open>Concrete parameters for evaluating the reader: fixed values in place of floats and of the clock.\<close>

definition demo_fops :: "int fops" where
  "demo_fops = \<lparr>fo_strtod = (\<lambda>s. nmea_number (butlast s)), fo_dec = (\<lambda>m k. m div 10 ^ k),
     fo_float = (\<lambda>x. x), fo_add = (+), fo_sub = (-), fo_mul = (*), fo_div = (div), fo_neg = uminus,
     fo_floor = (\<lambda>x. x), fo_trunc = Some, fo_pos = (\<lambda>x. 0 < x), fo_less = (<)\<rparr>"

definition demo_clock :: clock where
  "demo_clock = (let t = \<lparr>tm_year = 113, tm_mon = 5, tm_mday = 1, tm_hour = 0, tm_min = 0, tm_sec = 0\<rparr>
     in \<lparr>ck_gmtime = t, ck_localtime = t, ck_mktime = (\<lambda>t. 0)\<rparr>)"

definition demo_reader :: "int NmeaReader" where
  "demo_reader = reader_zero demo_fops"

lemma demo_reader_ok: "reader_ok demo_reader" "r_pos demo_reader = 0" "\<not> r_overflow demo_reader"
  "length (r_in demo_reader) = 256"
  by (simp_all add: demo_reader_def reader_zero_def reader_ok_def Let_def)

text \<open>
  C21: the tokenizer is free of undefined behaviour on every line in the buffer and finds the first 32
  fields between the commas of the sentence, without the dollar sign, the line end and the checksum;
  every token lies inside the buffer.
\<close>

theorem nmea_tokenizer_correct:
  assumes "0 \<le> n" "n \<le> int (length m)"
  shows "\<exists>tz. nmea_tokenizer_init m 0 n = Some tz \<and> (\<forall>t \<in> set tz. tok_ok t) \<and>
     map tok_text tz = take MAX_NMEA_TOKENS (nmea_fields (strip_sentence (take (nat n) m)))"
  using tokenizer_fields [OF assms] by metis

theorem nmea_tokenizer_correct_witness:
  "\<exists>tz. nmea_tokenizer_init [36, 65, 44, 66, 44, 44, 67, 42, 48, 48, 13, 10] 0 12 = Some tz \<and>
     (\<forall>t \<in> set tz. tok_ok t) \<and> map tok_text tz = [[65], [66], [], [67]]"
  using nmea_tokenizer_correct [of 12 "[36, 65, 44, 66, 44, 44, 67, 42, 48, 48, 13, 10]"]
  by (simp add: strip_sentence_def strip_tail_def strip_checksum_def)

text \<open>
  A token of at most nine characters is read as the number its digits denote, and as \<open>-1\<close> when
  it is empty or has a character that is not a digit.
\<close>

theorem tok2int_correct:
  assumes "tok_ok t" "length (tok_text t) \<le> 9"
  shows "tok2int t = Some (nmea_number (tok_text t))"
  using assms by (rule tok2int_dec)

theorem tok2int_correct_witness:
  "tok2int \<lparr>t_obj = [49, 50, 51, 44], t_p = 0, t_end = 3\<rparr> = Some 123"
  by (subst tok2int_correct) (simp_all add: tok_ok_def tok_text_def seg_def nmea_number_def)

text \<open>
  C22: a satellites-in-view sentence numbered 1 to 8 with numbers of at most nine digits stays inside
  the list of satellites and keeps the reader well-formed, and the number of satellites does not pass
  the number the sentence announces (unless it was larger before).
\<close>

theorem nmea_gsv_safe:
  assumes "short_toks tz" "reader_ok r"
    and k: "1 \<le> nmea_number (tok_text (nmea_tokenizer_get tz 2))"
      "nmea_number (tok_text (nmea_tokenizer_get tz 2)) \<le> 8"
  shows "\<exists>r'. nmea_gsv F tz r = Some r' \<and> reader_ok r' \<and>
     num_svs (sv_status r') \<le> max (nmea_number (tok_text (nmea_tokenizer_get tz 3))) (num_svs (sv_status r))"
proof (cases "0 < nmea_number (tok_text (nmea_tokenizer_get tz 3))")
  case True
  let ?k = "nmea_number (tok_text (nmea_tokenizer_get tz 2))"
  let ?n = "nmea_number (tok_text (nmea_tokenizer_get tz 3))"
  define r1 where "r1 = (if ?k = 1 then clear_svs F r else r)"
  have r1: "reader_ok r1" "num_svs (sv_status r1) \<le> max 0 (num_svs (sv_status r))"
    using assms(2) by (auto simp: r1_def clear_svs_def reader_ok_def)
  have mul: "smul (?k - 1) 4 = Some ((?k - 1) * 4)" using k by (simp add: smul_def int32_ok_def)
  obtain r2 where "gsv_loop F tz ?n ((?k - 1) * 4) [0, 1, 2, 3] r1 = Some r2" "reader_ok r2"
    "num_svs (sv_status r2) \<le> max ?n (num_svs (sv_status r1))"
    using gsv_loop_ok [OF assms(1) r1(1), of "(?k - 1) * 4" "[0, 1, 2, 3]" F ?n] k by auto
  with True mul r1 show ?thesis
    by (auto simp: nmea_gsv_def tok2int_get [OF assms(1)] r1_def [symmetric] reader_ok_def
        simp del: gsv_loop.simps split del: if_split split: if_splits)
next
  case False
  with assms(2) show ?thesis by (simp add: nmea_gsv_def tok2int_get [OF assms(1)])
qed

definition gsv_toks :: "Token list" where
  "gsv_toks = map (\<lambda>t. \<lparr>t_obj = t @ [44], t_p = 0, t_end = int (length t)\<rparr>)
     [[71, 80, 71, 83, 86], [51], [50], [49, 50], [49, 55], [54, 48], [49, 50, 48], [52, 49]]"

lemma gsv_toks_short: "short_toks gsv_toks"
  by (simp add: short_toks_def gsv_toks_def tok_ok_def tok_text_def seg_def)

theorem nmea_gsv_safe_witness:
  "\<exists>r'. nmea_gsv demo_fops gsv_toks demo_reader = Some r' \<and> reader_ok r' \<and>
     num_svs (sv_status r') \<le> max (nmea_number (tok_text (nmea_tokenizer_get gsv_toks 3)))
       (num_svs (sv_status demo_reader))"
  by (rule nmea_gsv_safe [OF gsv_toks_short demo_reader_ok(1)])
    (simp_all add: gsv_toks_def nmea_tokenizer_get_def tok_text_def seg_def nmea_number_def)

text \<open>
  A satellites-in-view sentence numbered 9 or higher (or not numbered at all) that announces more
  satellites than are stored and whose first satellite has a signal writes outside the list of
  satellites: the number is not checked.
\<close>

theorem nmea_gsv_overrun:
  assumes "short_toks tz" "reader_ok r"
    and k: "nmea_number (tok_text (nmea_tokenizer_get tz 2)) \<le> 0 \<or>
      9 \<le> nmea_number (tok_text (nmea_tokenizer_get tz 2))"
    and n: "0 < nmea_number (tok_text (nmea_tokenizer_get tz 3))"
      "num_svs (sv_status r) < nmea_number (tok_text (nmea_tokenizer_get tz 3))"
    and s: "tok2float F (nmea_tokenizer_get tz 7) = Some s0" "fo_pos F (fo_float F s0)"
  shows "nmea_gsv F tz r = None"
proof -
  let ?k = "nmea_number (tok_text (nmea_tokenizer_get tz 2))"
  let ?n = "nmea_number (tok_text (nmea_tokenizer_get tz 3))"
  have "mem_set (sv_list (sv_status r)) ((?k - 1) * 4) v = None" for v
    using k assms(2) by (auto simp: mem_set_def reader_ok_def)
  then have loop: "gsv_loop F tz ?n ((?k - 1) * 4) [0, 1, 2, 3] r = None"
    using n s by (simp add: tok2int_get [OF assms(1)] bind_eq_None_conv)
  have "?k \<noteq> 1" using k by auto
  then show ?thesis
    using n loop
    by (simp add: nmea_gsv_def tok2int_get [OF assms(1)] smul_def del: gsv_loop.simps)
qed

definition gsv_toks_9 :: "Token list" where
  "gsv_toks_9 = gsv_toks[2 := \<lparr>t_obj = [57, 44], t_p = 0, t_end = 1\<rparr>]"

theorem nmea_gsv_overrun_witness: "nmea_gsv demo_fops gsv_toks_9 demo_reader = None"
proof (rule nmea_gsv_overrun [where ?s0.0 = 41])
  show "short_toks gsv_toks_9"
    by (simp add: short_toks_def gsv_toks_9_def gsv_toks_def tok_ok_def tok_text_def seg_def)
  show "reader_ok demo_reader" by (rule demo_reader_ok)
qed (simp_all add: gsv_toks_9_def gsv_toks_def nmea_tokenizer_get_def tok_text_def
    seg_def nmea_number_def tok2float_def str2float_def mem_read_def demo_fops_def demo_reader_def
    reader_zero_def Let_def)

text \<open>
  An active-satellites sentence of a fix sets bit \<open>n - 1\<close> of the mask of used satellites exactly
  for the satellites \<open>n\<close> it lists, when all of them are at most 32; a satellite above 32, as other
  navigation systems number them, makes the shift undefined.
\<close>

theorem nmea_gsa_mask:
  assumes "short_toks tz" "tok_char (nmea_tokenizer_get tz 2) = Some st" "st = 50 \<or> st = 51"
  defines "num \<equiv> \<lambda>i. nmea_number (tok_text (nmea_tokenizer_get tz i))"
  shows "((\<forall>i \<in> {3..14}. num i \<le> 32) \<longrightarrow>
       (\<exists>r'. nmea_gsa tz r = Some r' \<and> sv_status_changed r' \<and>
          (\<forall>b. bit (used_in_fix_mask (sv_status r')) b \<longleftrightarrow> (\<exists>i \<in> {3..14}. num i = int b + 1)))) \<and>
     ((\<exists>i \<in> {3..14}. 32 < num i) \<longrightarrow> nmea_gsa tz r = None)"
proof (intro conjI impI)
  have tok: "tok2int (nmea_tokenizer_get tz i) = Some (num i)" for i
    using tok2int_get [OF assms(1)] by (simp add: num_def)
  assume "\<forall>i \<in> {3..14}. num i \<le> 32"
  then have "\<forall>i \<in> set gsa_range. \<exists>n. tok2int (nmea_tokenizer_get tz i) = Some n \<and> n \<le> 32"
    using tok by (simp add: set_gsa_range)
  from gsa_loop_bits [OF this, of 0] obtain u where "gsa_loop tz gsa_range 0 = Some u"
    "\<forall>b. bit u b \<longleftrightarrow> (\<exists>i \<in> {3..14}. num i = int b + 1)" by (auto simp: tok set_gsa_range)
  with assms(2,3) show "\<exists>r'. nmea_gsa tz r = Some r' \<and> sv_status_changed r' \<and>
      (\<forall>b. bit (used_in_fix_mask (sv_status r')) b \<longleftrightarrow> (\<exists>i \<in> {3..14}. num i = int b + 1))"
    by (auto simp: nmea_gsa_def set_mask_def)
next
  have tok: "tok2int (nmea_tokenizer_get tz i) = Some (num i)" for i
    using tok2int_get [OF assms(1)] by (simp add: num_def)
  assume "\<exists>i \<in> {3..14}. 32 < num i"
  then have "\<exists>i \<in> set gsa_range. 32 < num i" by (simp add: set_gsa_range)
  then have "gsa_loop tz gsa_range 0 = None" by (rule gsa_loop_high [OF tok])
  with assms(2,3) show "nmea_gsa tz r = None" by (auto simp: nmea_gsa_def)
qed

definition gsa_toks :: "Token list" where
  "gsa_toks = map (\<lambda>t. \<lparr>t_obj = t @ [44], t_p = 0, t_end = int (length t)\<rparr>)
     [[71, 80, 71, 83, 65], [65], [51], [49, 55], [50]]"

lemma gsa_toks_numbers:
  "nmea_number (tok_text (nmea_tokenizer_get gsa_toks i)) = (if i = 3 then 17 else if i = 4 then 2 else - 1)"
  if "i \<in> {3..14}"
proof (cases "i < 5")
  case True
  with that have "i = 3 \<or> i = 4" by auto
  then show ?thesis
    by (auto simp: gsa_toks_def nmea_tokenizer_get_def tok_text_def seg_def nmea_number_def)
next
  case False
  with that show ?thesis
    by (simp add: gsa_toks_def nmea_tokenizer_get_def tok_text_def seg_def nmea_number_def)
qed

theorem nmea_gsa_mask_witness:
  "\<exists>r'. nmea_gsa gsa_toks demo_reader = Some r' \<and> sv_status_changed r' \<and>
     bit (used_in_fix_mask (sv_status r')) 16 \<and> bit (used_in_fix_mask (sv_status r')) 1 \<and>
     \<not> bit (used_in_fix_mask (sv_status r')) 2"
proof -
  have short: "short_toks gsa_toks"
    by (simp add: short_toks_def gsa_toks_def tok_ok_def tok_text_def seg_def)
  have st: "tok_char (nmea_tokenizer_get gsa_toks 2) = Some 51"
    by (simp add: gsa_toks_def tok_char_def nmea_tokenizer_get_def mem_get_def)
  let ?num = "\<lambda>i. nmea_number (tok_text (nmea_tokenizer_get gsa_toks i))"
  have n: "?num 3 = 17" "?num 4 = 2" "\<And>i. i \<in> {3..14} \<Longrightarrow> ?num i \<le> 32 \<and> ?num i \<noteq> 3"
    by (simp_all add: gsa_toks_numbers)
  then obtain r' where r': "nmea_gsa gsa_toks demo_reader = Some r'" "sv_status_changed r'"
      "\<And>b. bit (used_in_fix_mask (sv_status r')) b \<longleftrightarrow> (\<exists>i \<in> {3..14}. ?num i = int b + 1)"
    using nmea_gsa_mask [OF short st, of demo_reader] by auto
  have "\<exists>i \<in> {3..14}. ?num i = int 16 + 1" using n(1) by (intro bexI [of _ 3]) simp_all
  moreover have "\<exists>i \<in> {3..14}. ?num i = int 1 + 1" using n(2) by (intro bexI [of _ 4]) simp_all
  moreover have "\<not> (\<exists>i \<in> {3..14}. ?num i = int 2 + 1)" using n(3) by auto
  ultimately show ?thesis using r' by blast
qed

text \<open>
  C20: a line of at most 254 characters that arrives at the start of the buffer is handed to the parser
  as it is, once, when its line end arrives; afterwards the buffer is at its start again, and a
  sentence that is reported is reported unchanged.
\<close>

theorem nmea_line_parsed:
  assumes "reader_ok r" "r_pos r = 0" "\<not> r_overflow r" "10 \<notin> set cs" "length cs \<le> 254"
  shows "\<exists>m. take (length cs + 1) m = cs @ [10] \<and> length m = 256 \<and>
     nmea_feed F ck pr r (cs @ [10]) =
       do { (r2, rep) \<leftarrow> nmea_reader_parse F ck pr (r\<lparr>r_in := m, r_pos := int (length cs) + 1\<rparr>);
            Some (r2\<lparr>r_pos := 0\<rparr>, case rep of None \<Rightarrow> [] | Some l \<Rightarrow> [cs @ [10]]) }"
proof -
  let ?ma = "cs @ drop (length cs) (r_in r)"
  let ?m = "cs @ [10] @ drop (Suc (length cs)) (r_in r)"
  have len: "length (r_in r) = 256" using assms(1) by (simp add: reader_ok_def)
  have body: "nmea_feed F ck pr r cs = Some (r\<lparr>r_in := ?ma, r_pos := int (length cs)\<rparr>, [])"
    using feed_body [OF assms(4,3) len] assms(2,5) by simp
  have "mem_set ?ma (int (length cs)) 10 = Some ?m"
    using len assms(5) by (simp add: mem_set_def upd_conv_take_nth_drop drop_Suc tl_drop)
  then have add: "nmea_reader_addc F ck pr (r\<lparr>r_in := ?ma, r_pos := int (length cs)\<rparr>) 10 =
      do { (r2, rep) \<leftarrow> nmea_reader_parse F ck pr (r\<lparr>r_in := ?m, r_pos := int (length cs) + 1\<rparr>);
           Some (r2\<lparr>r_pos := 0\<rparr>, rep) }"
    using assms(3,5) by (simp add: nmea_reader_addc_def)
  have m: "take (nat (int (length cs) + 1)) ?m = cs @ [10]"
    by (simp add: nat_add_distrib)
  have rep: "l = cs @ [10]"
    if "nmea_reader_parse F ck pr (r\<lparr>r_in := ?m, r_pos := int (length cs) + 1\<rparr>) = Some (r2, Some l)" for r2 l
    using parse_report [OF that] m by simp
  have "nmea_feed F ck pr r (cs @ [10]) =
      do { (r2, rep) \<leftarrow> nmea_reader_parse F ck pr (r\<lparr>r_in := ?m, r_pos := int (length cs) + 1\<rparr>);
           Some (r2\<lparr>r_pos := 0\<rparr>, case rep of None \<Rightarrow> [] | Some l \<Rightarrow> [l]) }"
    by (simp add: feed_append body add split: Option.bind_split option.split prod.split)
  also have "\<dots> = do { (r2, rep) \<leftarrow> nmea_reader_parse F ck pr (r\<lparr>r_in := ?m, r_pos := int (length cs) + 1\<rparr>);
           Some (r2\<lparr>r_pos := 0\<rparr>, case rep of None \<Rightarrow> [] | Some l \<Rightarrow> [cs @ [10]]) }"
    using rep by (auto split: Option.bind_split option.split prod.split)
  finally show ?thesis using len assms(5) by (intro exI [of _ ?m]) simp
qed

theorem nmea_line_parsed_witness:
  "\<exists>m. take (length [36 :: u8, 71, 80] + 1) m = [36, 71, 80] @ [10] \<and> length m = 256 \<and>
     nmea_feed demo_fops demo_clock 5 demo_reader ([36, 71, 80] @ [10]) =
       do { (r2, rep) \<leftarrow> nmea_reader_parse demo_fops demo_clock 5
              (demo_reader\<lparr>r_in := m, r_pos := int (length [36 :: u8, 71, 80]) + 1\<rparr>);
            Some (r2\<lparr>r_pos := 0\<rparr>, case rep of None \<Rightarrow> [] | Some l \<Rightarrow> [[36, 71, 80] @ [10]]) }"
  by (rule nmea_line_parsed) (simp_all add: demo_reader_ok)

text \<open>
  A line of 256 or more characters is dropped whole: nothing is parsed or reported, and the reader
  is ready for the next line.
\<close>

theorem nmea_overlong_dropped:
  assumes "reader_ok r" "r_pos r = 0" "\<not> r_overflow r" "10 \<notin> set cs" "256 \<le> length cs"
  shows "\<exists>m. length m = 256 \<and>
     nmea_feed F ck pr r (cs @ [10]) = Some (r\<lparr>r_in := m, r_overflow := False, r_pos := 0\<rparr>, [])"
proof -
  obtain c ds where cs: "cs = take 255 cs @ [c] @ ds"
    using assms(5) id_take_nth_drop [of 255 cs] by auto
  have "10 \<notin> set (take 255 cs)" using assms(4) by (meson in_set_takeD)
  moreover have "10 \<notin> set ds" using assms(4) arg_cong [OF cs, of set] by auto
  moreover have "length (r_in r) = 256" using assms(1) by (simp add: reader_ok_def)
  ultimately obtain m where m: "length m = 256" "nmea_feed F ck pr r (take 255 cs @ [c]) =
      Some (r\<lparr>r_in := m, r_overflow := True, r_pos := 0\<rparr>, [])"
    using feed_overflow [of "take 255 cs" r F ck pr c] assms by auto
  have "nmea_feed F ck pr (r\<lparr>r_in := m, r_overflow := True, r_pos := 0\<rparr>) (ds @ [10]) =
      Some (r\<lparr>r_in := m, r_overflow := False, r_pos := 0\<rparr>, [])"
    using \<open>10 \<notin> set ds\<close> by (simp add: feed_append feed_skip nmea_reader_addc_def)
  then have "nmea_feed F ck pr r ((take 255 cs @ [c]) @ ds @ [10]) =
      Some (r\<lparr>r_in := m, r_overflow := False, r_pos := 0\<rparr>, [])"
    using m by (simp only: feed_append [of F ck pr r "take 255 cs @ [c]" "ds @ [10]"]) simp
  moreover have "cs @ [10] = (take 255 cs @ [c]) @ ds @ [10]" using cs by simp
  ultimately show ?thesis using m by metis
qed

theorem nmea_overlong_dropped_witness:
  "\<exists>m. length m = 256 \<and> nmea_feed demo_fops demo_clock 5 demo_reader (replicate 300 65 @ [10]) =
     Some (demo_reader\<lparr>r_in := m, r_overflow := False, r_pos := 0\<rparr>, [])"
  by (rule nmea_overlong_dropped) (simp_all add: demo_reader_ok)

text \<open>
  A line of exactly 255 characters takes the line after it along: its line end is the character
  that overflows the buffer and is not recognised, so the next line is skipped up to its own end.
\<close>

theorem nmea_line_255_loses_next:
  assumes "reader_ok r" "r_pos r = 0" "\<not> r_overflow r" "10 \<notin> set cs" "length cs = 255" "10 \<notin> set ds"
  shows "\<exists>m. length m = 256 \<and> nmea_feed F ck pr r ((cs @ [10]) @ ds @ [10]) =
     Some (r\<lparr>r_in := m, r_overflow := False, r_pos := 0\<rparr>, [])"
proof -
  have "length (r_in r) = 256" using assms(1) by (simp add: reader_ok_def)
  then obtain m where m: "length m = 256" "nmea_feed F ck pr r (cs @ [10]) =
      Some (r\<lparr>r_in := m, r_overflow := True, r_pos := 0\<rparr>, [])"
    using feed_overflow [of cs r F ck pr 10] assms by auto
  have "nmea_feed F ck pr (r\<lparr>r_in := m, r_overflow := True, r_pos := 0\<rparr>) (ds @ [10]) =
      Some (r\<lparr>r_in := m, r_overflow := False, r_pos := 0\<rparr>, [])"
    using assms(6) by (simp add: feed_append feed_skip nmea_reader_addc_def)
  then show ?thesis using m by (simp only: feed_append [of F ck pr r "cs @ [10]" "ds @ [10]"]) auto
qed

theorem nmea_line_255_loses_next_witness:
  "\<exists>m. length m = 256 \<and>
     nmea_feed demo_fops demo_clock 5 demo_reader ((replicate 255 65 @ [10]) @ [36, 71] @ [10]) =
     Some (demo_reader\<lparr>r_in := m, r_overflow := False, r_pos := 0\<rparr>, [])"
  by (rule nmea_line_255_loses_next) (simp_all add: demo_reader_ok)

end
