(* ===== verification/Gps_Events.thy ===== *)
theory Gps_Events
  imports Gps_Calls Nmea
begin

text \<open>
  The events the modem sends to the library, \<open>dispatch\<close> and the functions below it in
  \<open>libgps/leo-gps-rpc.c\<close>. An event is a remote call of the modem: \<open>dispatch\<close> runs as the dispatch
  function of the entries that \<open>init_leo\<close> registers and reads the words of the message directly
  from the input buffer.

  What the functions report to the GPS library (a location, the satellites, the end of a position
  request, the wish for a download) is a list of \<open>hal_event\<close>s. The uninitialised local
  structures are parameters. \<open>use_nmea\<close> is 1 in the code as built; the other branch is kept.
\<close>

datatype 'f hal_event =
    LocationEvent "'f GpsLocation"
  | SvStatusEvent "'f GpsSvStatus"
  | PositionDone
  | DownloadRequest

record 'f locals =
  l_fix :: "'f GpsLocation"
  l_ret :: "'f GpsSvStatus"

text \<open>\<open>ntohl(data[i])\<close>, and the conversions of a word to floating point.\<close>

definition u2f :: "'f fops \<Rightarrow> u32 \<Rightarrow> 'f" where
  "u2f F w = fo_float F (fo_dec F (uint w) 0)"

definition fdiv :: "'f fops \<Rightarrow> 'f \<Rightarrow> 'f \<Rightarrow> 'f" where
  "fdiv F a b = fo_float F (fo_div F a b)"

text \<open>The satellites of a position event, \<open>n\<close> of them from \<open>i\<close> on.\<close>

fun pd_svs ::
  "'f fops \<Rightarrow> (nat \<Rightarrow> u32 option) \<Rightarrow> nat \<Rightarrow> nat \<Rightarrow> 'f GpsSvInfo list \<Rightarrow> 'f GpsSvInfo list option" where
  "pd_svs F data i 0 svs = Some svs"
| "pd_svs F data i (Suc n) svs =
     do { p \<leftarrow> data (83 + 3 * i);
          e \<leftarrow> data (83 + 3 * i + 1);
          a \<leftarrow> data (83 + 3 * i + 2);
          svs1 \<leftarrow> mem_set svs (int i)
            \<lparr>prn = sint p, snr = u2f F (a mod 100), elevation = u2f F e,
             azimuth = fdiv F (u2f F a) (fo_dec F 100 0)\<rparr>;
          pd_svs F data (Suc i) n svs1 }"

text \<open>\<open>int64Part\<close> of the union of two 32-bit halves.\<close>

definition int64Part :: "u32 \<Rightarrow> u32 \<Rightarrow> int" where
  "int64Part lowPart highPart = sint highPart * 2 ^ 32 + uint lowPart"

text \<open>
  The block of a position event. The first component of the result tells whether the function
  returns from it.
\<close>

definition pd_position ::
  "'f fops \<Rightarrow> 'f GpsSvStatus \<Rightarrow> (nat \<Rightarrow> u32 option) \<Rightarrow> 'f GpsLocation \<Rightarrow> 'w gps_rpc
   \<Rightarrow> (bool \<times> 'f GpsLocation \<times> 'w gps_rpc \<times> 'f hal_event list) option" where
  "pd_position F ret data loc s =
     (if use_nmea s \<noteq> 0 then Some (True, loc, s, [])
      else
        do { n \<leftarrow> data 82;
             let num = n AND 0x1F;
             svs \<leftarrow> pd_svs F data 0 (unat num) (sv_list ret);
             used \<leftarrow> data 77;
             let ev = SvStatusEvent (ret\<lparr>num_svs := uint num, sv_list := svs, used_in_fix_mask := used\<rparr>);
             ts \<leftarrow> data 8;
             if ts = 0 then Some (True, loc\<lparr>timestamp := 0\<rparr>, s, [ev])
             else
               do { let loc1 = loc\<lparr>timestamp := (uint ts + 315964800 - 15) * 1000,
                                   loc_flags := loc_flags loc OR GPS_LOCATION_HAS_LAT_LONG\<rparr>;
                    h \<leftarrow> data 75;
                    let loc2 = (if h = 0 then loc1
                      else loc1\<lparr>loc_flags := loc_flags loc1 OR GPS_LOCATION_HAS_ACCURACY,
                                accuracy := fo_float F (fo_mul F
                                  (fdiv F (fdiv F (u2f F h) (fo_dec F 10 0)) (fo_dec F 2 0))
                                  (u2f F (ucast (MEASUREMENT_PRECISION (g_conf s)))))\<rparr>);
                    lat_l \<leftarrow> data 61;
                    lat_h \<leftarrow> data 60;
                    lon_l \<leftarrow> data 63;
                    lon_h \<leftarrow> data 62;
                    let scale = fo_dec F 100000000 0;
                    Some (False,
                      loc2\<lparr>latitude := fo_div F (fo_dec F (int64Part lat_l lat_h) 0) scale,
                           longitude := fo_div F (fo_dec F (int64Part lon_l lon_h) 0) scale\<rparr>,
                      s\<lparr>no_fix := 0\<rparr>, [ev]) } })"

definition pd_velocity ::
  "'f fops \<Rightarrow> (nat \<Rightarrow> u32 option) \<Rightarrow> 'f GpsLocation \<Rightarrow> 'f GpsLocation option" where
  "pd_velocity F data loc =
     do { v \<leftarrow> data 66;
          b \<leftarrow> data 67;
          Some (loc\<lparr>loc_flags := loc_flags loc OR (GPS_LOCATION_HAS_SPEED OR GPS_LOCATION_HAS_BEARING),
                    speed := fdiv F (fdiv F (u2f F v) (fo_dec F 10 0)) (fo_dec F 36 1),
                    bearing := fdiv F (u2f F b) (fo_dec F 10 0)\<rparr>) }"

definition pd_height ::
  "'f fops \<Rightarrow> (nat \<Rightarrow> u32 option) \<Rightarrow> 'f GpsLocation \<Rightarrow> 'f GpsLocation option" where
  "pd_height F data loc =
     do { w \<leftarrow> data 64;
          let alt = fo_dec F (uint w) 0;
          let ten = fo_dec F 10 0;
          Some (loc\<lparr>loc_flags := loc_flags loc OR GPS_LOCATION_HAS_ALTITUDE,
                    altitude := (if fo_less F (fo_div F alt ten) (fo_dec F 1000000 0) then fo_div F alt ten
                                 else fo_div F (fo_sub F alt (fo_dec F 4294967295 0)) ten)\<rparr>) }"

definition pd_end :: "u32 \<Rightarrow> 'f GpsLocation \<Rightarrow> 'f hal_event list" where
  "pd_end event loc =
     (if loc_flags loc \<noteq> 0 then [LocationEvent loc] else []) @
     (if event AND 0x8 \<noteq> 0 then [PositionDone] else [])"

definition dispatch_pdsm_pd ::
  "'f fops \<Rightarrow> 'f locals \<Rightarrow> (nat \<Rightarrow> u32 option) \<Rightarrow> 'w gps_rpc \<Rightarrow> ('w gps_rpc \<times> 'f hal_event list) option" where
  "dispatch_pdsm_pd F L data s0 =
     do { event \<leftarrow> data 2;
          let s = (if event AND 0x8000 \<noteq> 0 then s0\<lparr>no_fix := 1\<rparr> else s0);
          let loc = (l_fix L)\<lparr>loc_flags := 0\<rparr>;
          (stop, loc1, s1, ev1) \<leftarrow> (if event AND 0x1 \<noteq> 0 then pd_position F (l_ret L) data loc s
                                    else Some (False, loc, s, []));
          if stop \<or> (event AND 0x2 \<noteq> 0 \<and> use_nmea s1 \<noteq> 0) then Some (s1, ev1)
          else
            do { loc2 \<leftarrow> (if event AND 0x2 \<noteq> 0 then pd_velocity F data loc1 else Some loc1);
                 if event AND 0x4 \<noteq> 0 \<and> use_nmea s1 \<noteq> 0 then Some (s1, ev1)
                 else
                   do { loc3 \<leftarrow> (if event AND 0x4 \<noteq> 0 then pd_height F data loc2 else Some loc2);
                        Some (s1, ev1 @ pd_end event loc3) } } }"

text \<open>The satellites of a status event; their number is not bounded by the code.\<close>

fun ext_svs ::
  "'f fops \<Rightarrow> (nat \<Rightarrow> u32 option) \<Rightarrow> nat \<Rightarrow> nat \<Rightarrow> 'f GpsSvInfo list \<Rightarrow> 'f GpsSvInfo list option" where
  "ext_svs F data i 0 svs = Some svs"
| "ext_svs F data i (Suc n) svs =
     do { p \<leftarrow> data (101 + 12 * i + 1);
          e \<leftarrow> data (101 + 12 * i + 5);
          a \<leftarrow> data (101 + 12 * i + 4);
          r \<leftarrow> data (101 + 12 * i + 2);
          svs1 \<leftarrow> mem_set svs (int i)
            \<lparr>prn = sint p, snr = fdiv F (u2f F r) (fo_dec F 10 0), elevation = u2f F e, azimuth = u2f F a\<rparr>;
          ext_svs F data (Suc i) n svs1 }"

definition dispatch_pdsm_ext ::
  "'f fops \<Rightarrow> 'f locals \<Rightarrow> (nat \<Rightarrow> u32 option) \<Rightarrow> 'w gps_rpc \<Rightarrow> ('w gps_rpc \<times> 'f hal_event list) option" where
  "dispatch_pdsm_ext F L data s =
     (if use_nmea s \<noteq> 0 then Some (s, [])
      else
        let s1 = s\<lparr>no_fix := no_fix s + 1\<rparr> in
        if no_fix s1 < 2 then Some (s1, [])
        else
          do { n \<leftarrow> data 8;
               svs \<leftarrow> ext_svs F data 0 (nat (sint n)) (sv_list (l_ret L));
               Some (s1, [SvStatusEvent ((l_ret L)\<lparr>num_svs := sint n, sv_list := svs,
                                                  used_in_fix_mask := 0\<rparr>)]) })"

text \<open>\<open>"xtra.bin"\<close>; eight bytes at offset \<open>0x50\<close> are compared.\<close>

definition xtra_bin :: "u8 list" where
  "xtra_bin = [120, 116, 114, 97, 46, 98, 105, 110]"

definition dispatch_pdsm_xtra_req :: "u8 list \<Rightarrow> int \<Rightarrow> 'f hal_event list option" where
  "dispatch_pdsm_xtra_req m base =
     do { url \<leftarrow> mem_read m (base + 0x50) 8;
          Some (if url = xtra_bin then [DownloadRequest] else []) }"

definition dispatch_pdsm ::
  "'f fops \<Rightarrow> 'f locals \<Rightarrow> u8 list \<Rightarrow> 'w gps_rpc \<Rightarrow> ('w gps_rpc \<times> 'f hal_event list) option" where
  "dispatch_pdsm F L m s =
     do { procid \<leftarrow> load32 m 5;
          let data = (\<lambda>i. load32 m (10 + i));
          if procid = 1 then dispatch_pdsm_pd F L data s
          else if procid = 4 then dispatch_pdsm_ext F L data s
          else if procid = 5 then do { ev \<leftarrow> dispatch_pdsm_xtra_req m 40; Some (s, ev) }
          else Some (s, []) }"

definition dispatch_atl :: "u8 list \<Rightarrow> 'w gps_rpc \<Rightarrow> ('w gps_rpc \<times> 'f hal_event list) option" where
  "dispatch_atl m s = Some (s, [])"

text \<open>The dispatch function; the world it runs in is the state of the library and what was reported.\<close>

definition dispatch ::
  "'w kernel \<Rightarrow> 'f fops \<Rightarrow> 'f locals \<Rightarrow> ('w gps_rpc \<times> 'f hal_event list) dispatch_fn" where
  "dispatch K F L req svc sw =
     do { let (s, evs) = sw;
          x \<leftarrow> sv_xdr svc;
          svid \<leftarrow> load32 (in_msg x) 3;
          (s1, ev1) \<leftarrow> (if svid = 0x3100005b then dispatch_pdsm F L (in_msg x) s
                        else if svid = 0x3100001d then dispatch_atl (in_msg x) s
                        else Some (s, []));
          (_, svc1, w1) \<leftarrow> svc_sendreply K svc xdr_int 0 (g_world s1);
          Some (svc1, (s1\<lparr>g_world := w1\<rparr>, evs @ ev1)) }"

subsection \<open>Lemmas: events while NMEA is in use\<close>

definition word_at :: "u8 list \<Rightarrow> nat \<Rightarrow> u32" where
  "word_at m i = of_be32 (take 4 (drop (4 * i) m))"

lemma load32_word_at: "length m = 2048 \<Longrightarrow> i < 512 \<Longrightarrow> load32 m i = Some (word_at m i)"
  by (simp add: load32_def mem_read_def word_at_def nat_mult_distrib)

text \<open>
  What a message reports: the end of a position request, unless the same event carries a position,
  velocity or height, and a download request. And what it does to \<open>no_fix\<close>.
\<close>

definition is_pd_event :: "u8 list \<Rightarrow> bool" where
  "is_pd_event m \<longleftrightarrow> word_at m 3 = 0x3100005b \<and> word_at m 5 = 1"

definition nmea_events :: "u8 list \<Rightarrow> 'f hal_event list" where
  "nmea_events m =
     (if is_pd_event m \<and> word_at m 12 AND 0x8 \<noteq> 0 \<and> word_at m 12 AND 0x1 = 0 \<and>
         word_at m 12 AND 0x2 = 0 \<and> word_at m 12 AND 0x4 = 0 then [PositionDone]
      else if word_at m 3 = 0x3100005b \<and> word_at m 5 = 5 \<and> take 8 (drop 120 m) = xtra_bin
      then [DownloadRequest] else [])"

definition nmea_no_fix :: "u8 list \<Rightarrow> u32 \<Rightarrow> u32" where
  "nmea_no_fix m n = (if is_pd_event m \<and> word_at m 12 AND 0x8000 \<noteq> 0 then 1 else n)"

lemma pd_nmea:
  assumes "use_nmea s \<noteq> 0" "data 2 = Some event"
  shows "dispatch_pdsm_pd F L data s = Some (if event AND 0x8000 \<noteq> 0 then s\<lparr>no_fix := 1\<rparr> else s,
     if event AND 0x8 \<noteq> 0 \<and> event AND 0x1 = 0 \<and> event AND 0x2 = 0 \<and> event AND 0x4 = 0
     then [PositionDone] else [])"
  using assms by (auto simp: dispatch_pdsm_pd_def pd_position_def pd_end_def Let_def)

lemma dispatch_pdsm_nmea:
  assumes "use_nmea s \<noteq> 0" "length m = 2048" "word_at m 3 = 0x3100005b"
  shows "dispatch_pdsm F L m s = Some (s\<lparr>no_fix := nmea_no_fix m (no_fix s)\<rparr>, nmea_events m)"
proof -
  have url: "mem_read m 120 8 = Some (take 8 (drop 120 m))"
    using assms(2) by (simp add: mem_read_def)
  have "dispatch_pdsm_pd F L (\<lambda>i. load32 m (10 + i)) s =
      Some (if word_at m 12 AND 0x8000 \<noteq> 0 then s\<lparr>no_fix := 1\<rparr> else s,
        if word_at m 12 AND 0x8 \<noteq> 0 \<and> word_at m 12 AND 0x1 = 0 \<and> word_at m 12 AND 0x2 = 0 \<and> word_at m 12 AND 0x4 = 0
        then [PositionDone] else [])"
    using assms(1,2) by (intro pd_nmea) (simp_all add: load32_word_at)
  with assms url show ?thesis
    by (auto simp: dispatch_pdsm_def dispatch_pdsm_ext_def dispatch_pdsm_xtra_req_def load32_word_at
        nmea_events_def nmea_no_fix_def is_pd_event_def Let_def)
qed

lemma dispatch_nmea:
  assumes "use_nmea s \<noteq> 0" "sv_active svc \<noteq> 0" "sv_xdr svc = Some x" "xdr_ok x"
    "load32 (in_msg x) 0 = Some xid"
    and "k_write K (x_fd x) (reply_packet xid (be32 0)) (g_world s) = (rc, w1)"
  shows "\<exists>y. x_fd y = x_fd x \<and> dispatch K F L req svc (s, evs) =
     Some (svc\<lparr>sv_xdr := Some y\<rparr>, (s\<lparr>no_fix := nmea_no_fix (in_msg x) (no_fix s), g_world := w1\<rparr>, evs @ nmea_events (in_msg x)))"
proof -
  have len: "length (in_msg x) = 2048" using assms(4) by (simp add: xdr_ok_def)
  have "(if word_at (in_msg x) 3 = 0x3100005b then dispatch_pdsm F L (in_msg x) s
      else if word_at (in_msg x) 3 = 0x3100001d then dispatch_atl (in_msg x) s else Some (s, [])) =
      Some (s\<lparr>no_fix := nmea_no_fix (in_msg x) (no_fix s)\<rparr>, nmea_events (in_msg x))"
    using dispatch_pdsm_nmea [OF assms(1) len]
    by (auto simp: dispatch_atl_def nmea_events_def nmea_no_fix_def is_pd_event_def)
  moreover obtain y where "x_fd y = x_fd x" "svc_sendreply K svc xdr_int 0 (g_world s) = Some (True, svc\<lparr>sv_xdr := Some y\<rparr>, w1)"
    using svc_sendreply_entry [OF wd_int.xdr_codec_axioms assms(2,3,4,5), of 0 K "g_world s"] assms(6)
    by (auto simp: reply_packet_def)
  ultimately show ?thesis
    using assms(3) len by (intro exI [of _ y]) (simp add: dispatch_def load32_word_at)
qed

subsection \<open>Properties\<close>

text \<open>
  Every call packet that arrives for an entry of the library is handled without undefined
  behaviour and acknowledged with exactly one reply that carries the identifier of the call and the
  result zero. While NMEA is in use it reports nothing but the end of a position request (only when the event has no
  position, velocity or height) and download requests, and changes nothing but \<open>no_fix\<close>.
\<close>

theorem event_acknowledged:
  assumes x: "sv_xdr svc = Some (arrive x (be32s (call_words xid p v proc cred verf) @ args))" "xdr_ok x"
    and pkt: "length args \<le> 2008" "p = sv_prog svc" "v = x_vers x"
    and disp: "call (sv_dispatch svc) = dispatch K F L" "pid \<noteq> 0" and nmea: "use_nmea s \<noteq> 0"
    and ack: "k_write K (x_fd x) (reply_packet xid (be32 0)) (g_world s) = (rc, w')"
  shows "\<exists>svc'. svc_dispatch call pid svc (s, evs) =
     Some (svc', (s\<lparr>no_fix := nmea_no_fix (in_msg (arrive x (be32s (call_words xid p v proc cred verf) @ args))) (no_fix s),
                    g_world := w'\<rparr>,
                  evs @ nmea_events (in_msg (arrive x (be32s (call_words xid p v proc cred verf) @ args)))))"
proof -
  let ?y0 = "arrive x (be32s (call_words xid p v proc cred verf) @ args)"
  let ?y = "?y0\<lparr>in_next := 40, x_op := XDR_DECODE\<rparr>"
  let ?svc = "svc\<lparr>sv_xdr := Some ?y, sv_active := pid\<rparr>"
  note y = arrive_args [OF x(2) pkt(1) refl, of xid p v proc cred verf]
  obtain z where "dispatch K F L \<lparr>rq_prog = p, rq_vers = v, rq_proc = proc\<rparr> ?svc (s, evs) =
      Some (?svc\<lparr>sv_xdr := Some z\<rparr>, (s\<lparr>no_fix := nmea_no_fix (in_msg ?y) (no_fix s), g_world := w'\<rparr>, evs @ nmea_events (in_msg ?y)))"
    using dispatch_nmea [OF nmea, of ?svc ?y xid K rc w' F L "\<lparr>rq_prog = p, rq_vers = v, rq_proc = proc\<rparr>" evs]
      y(1,4,5) disp(2) ack by auto
  with svc_dispatch_arrive [OF x pkt, of call pid "(s, evs)"] disp(1) show ?thesis by simp
qed

text \<open>An event that reports the end of a position request, in a message of thirteen words.\<close>

definition demo_done :: "u8 list" where
  "demo_done = be32s [0, 0, 8]"

definition demo_handle :: xdr_s_type where
  "demo_handle = xdr_zero\<lparr>x_prog := 0x3100005b, x_vers := 0x10001, x_fd := 3\<rparr>"

definition demo_callback :: registered_server where
  "demo_callback = \<lparr>sv_xdr = Some (arrive demo_handle
       (be32s (call_words 5 0x3100005b 0x10001 1 no_auth no_auth) @ demo_done)),
     sv_prog = 0x3100005b, sv_vers = 0x10001, sv_active = 0, sv_dispatch = 7\<rparr>"

definition demo_locals :: "int locals" where
  "demo_locals = \<lparr>l_fix = fix_loc demo_reader, l_ret = sv_status demo_reader\<rparr>"

lemma demo_done_words:
  "nmea_events (in_msg (arrive demo_handle (be32s (call_words 5 0x3100005b 0x10001 1 no_auth no_auth) @ demo_done)))
     = [PositionDone]"
proof -
  let ?ws = "call_words 5 0x3100005b 0x10001 1 no_auth no_auth @ [0, 0, 8]"
  let ?m = "in_msg (arrive demo_handle (be32s ?ws @ []))"
  have ok: "xdr_ok demo_handle" using xdr_ok_zero by (simp add: demo_handle_def)
  have "length (in_msg (arrive demo_handle (be32s ?ws @ []))) = 2048"
    using xdr_ok_arrive [OF ok, of "be32s ?ws @ []"] by (simp add: xdr_ok_def)
  then have w: "i < 13 \<Longrightarrow> word_at ?m i = ?ws ! i" for i
    using load32_word_at [of ?m i] load_header [of i ?ws demo_handle "[]"] ok by simp
  have "word_at ?m 3 = 0x3100005b" "word_at ?m 5 = 1" "word_at ?m 12 = 8"
    using w [of 3] w [of 5] w [of 12] by (simp_all add: call_words_def auth_words_def)
  then show ?thesis
    by (simp add: nmea_events_def is_pd_event_def demo_done_def)
qed

theorem event_acknowledged_witness:
  "\<exists>svc' s'. svc_dispatch (\<lambda>_. dispatch (e_kernel demo_modem) demo_fops demo_locals) 1 demo_callback (demo_rpc, []) =
     Some (svc', (s', [PositionDone])) \<and> g_world s' = [request_of (reply_packet 5 (be32 0))]"
proof -
  have ok: "xdr_ok demo_handle" using xdr_ok_zero by (simp add: demo_handle_def)
  let ?call = "\<lambda>_ :: nat. dispatch (e_kernel demo_modem) demo_fops demo_locals"
  let ?w = "[request_of (reply_packet 5 (be32 0))]"
  have 1: "sv_xdr demo_callback = Some (arrive demo_handle
      (be32s (call_words 5 0x3100005b 0x10001 1 no_auth no_auth) @ demo_done))"
    "0x3100005b = sv_prog demo_callback" by (simp_all add: demo_callback_def)
  have 2: "length demo_done \<le> 2008" by (simp add: demo_done_def)
  have 3: "0x10001 = x_vers demo_handle" by (simp add: demo_handle_def)
  have 4: "use_nmea demo_rpc \<noteq> 0" by (simp add: demo_rpc_def)
  have 5: "k_write (e_kernel demo_modem) (x_fd demo_handle) (reply_packet 5 (be32 0)) (g_world demo_rpc) = (28, ?w)"
    by (simp add: demo_modem_def demo_rpc_def)
  have 6: "?call (sv_dispatch demo_callback) = dispatch (e_kernel demo_modem) demo_fops demo_locals" "(1 :: int) \<noteq> 0"
    by simp_all
  obtain svc' where "svc_dispatch ?call 1 demo_callback (demo_rpc, []) = Some (svc',
      (demo_rpc\<lparr>no_fix := nmea_no_fix (in_msg (arrive demo_handle
         (be32s (call_words 5 0x3100005b 0x10001 1 no_auth no_auth) @ demo_done))) (no_fix demo_rpc), g_world := ?w\<rparr>,
       [] @ [PositionDone]))"
    using event_acknowledged [OF 1(1) ok 2 1(2) 3 6 4 5, of "[]"] unfolding demo_done_words by blast
  then show ?thesis by (intro exI conjI) (simp, simp)
qed

end
