(* ===== verification/Gps_Rpc.thy ===== *)
theory Gps_Rpc
  imports Gps_Calls
begin

text \<open>
  Start and end of the session with the modem: \<open>init_leo\<close>, \<open>init_gps_rpc\<close> and
  \<open>cleanup_gps_rpc_clients\<close> of \<open>libgps/leo-gps-rpc.c\<close>.

  \<open>init_env\<close> holds what the initialisation meets outside: the blocks the allocator returns for
  the two clients and the transport, the address of \<open>dispatch\<close>, indeterminate values, and the
  configuration file.
\<close>

record init_env =
  i_clnt :: "nat option"
  i_atl :: "nat option"
  i_xprt :: "nat option"
  i_active :: int
  i_dispatch :: nat
  i_conf :: "string option"
  i_str :: string

text \<open>Calls in sequence, their results ignored; \<open>exit\<close> ends the sequence.\<close>

fun run_calls :: "('w gps_rpc \<Rightarrow> (u32, 'w) rpc_result) list \<Rightarrow> 'w gps_rpc \<Rightarrow> (int + 'w gps_rpc) option" where
  "run_calls [] s = Some (Inr s)"
| "run_calls (m # ms) s =
     do { r \<leftarrow> m s;
          case r of Inl e \<Rightarrow> Some (Inl e) | Inr (_, s1) \<Rightarrow> run_calls ms s1 }"

definition register_callbacks ::
  "'w kernel \<Rightarrow> int \<Rightarrow> nat \<Rightarrow> SVCXPRT \<Rightarrow> 'w \<Rightarrow> (SVCXPRT \<times> 'w) option" where
  "register_callbacks K junk disp svc w =
     do { (_, svc1, w1) \<leftarrow> svc_register K junk svc 0x3100005b 0x00010001 disp w;
          (_, svc2, w2) \<leftarrow> svc_register K junk svc1 0x3100005b 0 disp w1;
          (_, svc3, w3) \<leftarrow> svc_register K junk svc2 0x3100001d 0x00010001 disp w2;
          (_, svc4, w4) \<leftarrow> svc_register K junk svc3 0x3100001d 0 disp w3;
          Some (svc4, w4) }"

text \<open>The calls of \<open>init_leo\<close> on the two clients.\<close>

definition init_calls ::
  "'w rpc_env \<Rightarrow> nat option \<Rightarrow> nat option \<Rightarrow> ('w gps_rpc \<Rightarrow> (u32, 'w) rpc_result) list" where
  "init_calls E clnt clnt_atl =
     [pdsm_client_init E clnt 2,
      pdsm_client_pd_reg E clnt 2 0 0 0 0xF3F0FFFF 0,
      pdsm_client_pa_reg E clnt 2 0 2 0 0x7FFEFE0 0,
      pdsm_client_ext_status_reg E clnt 2 0 1 0 4 0,
      pdsm_client_act E clnt 2,
      pdsm_client_init E clnt 0xb,
      pdsm_client_xtra_reg E clnt 0xb 0 3 0 7 0,
      pdsm_client_act E clnt 0xb,
      pdsm_atl_l2_proxy_reg E clnt_atl 1 0 0,
      pdsm_atl_dns_proxy_reg E clnt_atl 1 0,
      pdsm_client_init E clnt 4,
      pdsm_client_lcs_reg E clnt 4 0 7 0 0x3F0 0,
      pdsm_client_act E clnt 4]"

text \<open>The configuration is read once, under \<open>!CHECKED[0]\<close>.\<close>

definition init_conf :: "'w rpc_env \<Rightarrow> init_env \<Rightarrow> 'w gps_rpc \<Rightarrow> (int + 'w gps_rpc) option" where
  "init_conf E I s =
     do { done \<leftarrow> mem_get (CHECKED (g_conf s)) 0;
          if done \<noteq> 0 then Some (Inr s)
          else
            do { (_, cf) \<leftarrow> parse_gps_conf (i_conf I) (i_str I) (g_conf s);
                 let s1 = s\<lparr>g_conf := cf\<rparr>;
                 r \<leftarrow> (if XTRA_AUTO_DOWNLOAD_ENABLED cf \<noteq> 0
                       then run_calls [gps_xtra_set_auto_params E] s1 else Some (Inr s1));
                 case r of
                   Inl e \<Rightarrow> Some (Inl e)
                 | Inr s2 \<Rightarrow>
                     do { ch \<leftarrow> mem_set (CHECKED (g_conf s2)) 0 1;
                          Some (Inr (s2\<lparr>g_conf := (g_conf s2)\<lparr>CHECKED := ch\<rparr>\<rparr>)) } } }"

text \<open>
  Registering on a null transport dereferences it, so the code's later test of \<open>svc\<close> never
  sees null; the test of \<open>clnt\<close> comes before its first use, and \<open>clnt_atl\<close> is not tested.
\<close>

definition init_leo :: "'w rpc_env \<Rightarrow> init_env \<Rightarrow> 'w gps_rpc \<Rightarrow> (int, 'w) rpc_result" where
  "init_leo E I s =
     do { (clnt, g1, w1) \<leftarrow> clnt_create (e_kernel E) (i_clnt I) 0x3000005B 0x00010001 (g_clients s) (g_world s);
          (clnt_atl, g2, w2) \<leftarrow> clnt_create (e_kernel E) (i_atl I) 0x3000001D 0x00010001 g1 w1;
          let svc = svcrtr_create (g_xprts s) (i_xprt I);
          _ \<leftarrow> svc;
          let xp = (if the_xprt (g_xprts s) = None then xprt_zero else g_xprt s);
          (xp1, w3) \<leftarrow> register_callbacks (e_kernel E) (i_active I) (i_dispatch I) xp w2;
          let s1 = s\<lparr>g_clnt := clnt, g_svc := svc, g_clients := g2,
                     g_xprts := xprt_register svc (g_xprts s), g_xprt := xp1, g_world := w3\<rparr>;
          if clnt = None then Some (Inr (- 1, s1))
          else
            do { r \<leftarrow> run_calls (init_calls E clnt clnt_atl) s1;
                 case r of
                   Inl e \<Rightarrow> Some (Inl e)
                 | Inr s2 \<Rightarrow>
                     do { r2 \<leftarrow> init_conf E I s2;
                          case r2 of Inl e \<Rightarrow> Some (Inl e) | Inr s3 \<Rightarrow> Some (Inr (0, s3)) } } }"

definition init_gps_rpc :: "'w rpc_env \<Rightarrow> init_env \<Rightarrow> 'w gps_rpc \<Rightarrow> (int, 'w) rpc_result" where
  "init_gps_rpc E I s =
     do { r \<leftarrow> init_leo E I s;
          case r of Inl e \<Rightarrow> Some (Inl e) | Inr (_, s1) \<Rightarrow> Some (Inr (0, s1)) }"

definition unregister_callbacks :: "'w kernel \<Rightarrow> SVCXPRT \<Rightarrow> 'w \<Rightarrow> (SVCXPRT \<times> 'w) option" where
  "unregister_callbacks K svc w =
     do { (svc1, w1) \<leftarrow> svc_unregister K svc 0x3100005b 0x00010001 w;
          (svc2, w2) \<leftarrow> svc_unregister K svc1 0x3100005b 0 w1;
          (svc3, w3) \<leftarrow> svc_unregister K svc2 0x3100001d 0x00010001 w2;
          svc_unregister K svc3 0x3100001d 0 w3 }"

definition cleanup_calls :: "'w rpc_env \<Rightarrow> nat option \<Rightarrow> ('w gps_rpc \<Rightarrow> (u32, 'w) rpc_result) list" where
  "cleanup_calls E clnt =
     [pdsm_client_deact E clnt 2, pdsm_client_deact E clnt 0xb, pdsm_client_deact E clnt 4,
      pdsm_client_release E clnt 2, pdsm_client_release E clnt 0xb, pdsm_client_release E clnt 4]"

text \<open>\<open>_clnt\<close> and \<open>_svc\<close> keep their values; \<open>svc_destroy\<close> does nothing.\<close>

definition cleanup_gps_rpc_clients :: "'w rpc_env \<Rightarrow> 'w gps_rpc \<Rightarrow> (int + 'w gps_rpc) option" where
  "cleanup_gps_rpc_clients E s =
     do { r \<leftarrow> run_calls (cleanup_calls E (g_clnt s)) s;
          case r of
            Inl e \<Rightarrow> Some (Inl e)
          | Inr s1 \<Rightarrow>
              do { _ \<leftarrow> g_svc s1;
                   (xp1, w1) \<leftarrow> unregister_callbacks (e_kernel E) (g_xprt s1) (g_world s1);
                   let (xg, freed) = xprt_unregister (g_svc s1) (g_xprts s1);
                   a \<leftarrow> g_clnt s1;
                   c \<leftarrow> map_of (clients (g_clients s1)) a;
                   (g2, w2) \<leftarrow> clnt_destroy (e_kernel E) (Some (a, c)) (g_clients s1) w1;
                   Some (Inr (s1\<lparr>g_xprt := xp1, g_xprts := xg, g_clients := g2, g_world := w2\<rparr>)) } }"

subsection \<open>The session as the modem sees it\<close>

definition ses_run :: "(modem_session \<Rightarrow> u32 \<times> modem_session) list \<Rightarrow> modem_session \<Rightarrow> modem_session" where
  "ses_run fs ses = fold (\<lambda>f ses. snd (f ses)) fs ses"

abbreviation PDSM :: u32 where "PDSM \<equiv> 0x3000005B"
abbreviation ATL :: u32 where "ATL \<equiv> 0x3000001D"

definition ses_request ::
  "(request \<Rightarrow> u32) \<Rightarrow> u32 \<Rightarrow> u32 \<Rightarrow> (u32 list \<Rightarrow> u32 list) \<Rightarrow> modem_session \<Rightarrow> u32 \<times> modem_session" where
  "ses_request resp prog p args ses = ses_call resp (prog, p, be32s (args (ses_ids ses))) ses"

text \<open>The specification of the initialisation: three identifiers are obtained, registered for their
  events and activated, and the two proxies are registered.\<close>

definition init_session :: "(request \<Rightarrow> u32) \<Rightarrow> (modem_session \<Rightarrow> u32 \<times> modem_session) list" where
  "init_session resp =
     [ses_store 2 (ses_request resp PDSM 2 (\<lambda>_. [2])),
      ses_request resp PDSM 4 (\<lambda>ids. [ids ! 2, 0, 0, 0, 0xF3F0FFFF, 0]),
      ses_request resp PDSM 5 (\<lambda>ids. [ids ! 2, 0, 2, 0, 0x7FFEFE0, 0]),
      ses_request resp PDSM 8 (\<lambda>ids. [ids ! 2, 0, 1, 0, 4, 0]),
      ses_request resp PDSM 9 (\<lambda>ids. [ids ! 2]),
      ses_store 11 (ses_request resp PDSM 2 (\<lambda>_. [11])),
      ses_request resp PDSM 7 (\<lambda>ids. [ids ! 11, 0, 3, 0, 7, 0]),
      ses_request resp PDSM 9 (\<lambda>ids. [ids ! 11]),
      ses_request resp ATL 3 (\<lambda>_. [1, 0, 0]),
      ses_request resp ATL 6 (\<lambda>_. [1, 0]),
      ses_store 4 (ses_request resp PDSM 2 (\<lambda>_. [4])),
      ses_request resp PDSM 6 (\<lambda>ids. [ids ! 4, 0, 7, 0, 0x3F0, 0]),
      ses_request resp PDSM 9 (\<lambda>ids. [ids ! 4])]"

definition cleanup_session :: "(request \<Rightarrow> u32) \<Rightarrow> (modem_session \<Rightarrow> u32 \<times> modem_session) list" where
  "cleanup_session resp =
     [ses_request resp PDSM 10 (\<lambda>ids. [ids ! 2]), ses_request resp PDSM 10 (\<lambda>ids. [ids ! 11]),
      ses_request resp PDSM 10 (\<lambda>ids. [ids ! 4]),
      ses_store 2 (ses_request resp PDSM 3 (\<lambda>ids. [ids ! 2])),
      ses_store 11 (ses_request resp PDSM 3 (\<lambda>ids. [ids ! 11])),
      ses_store 4 (ses_request resp PDSM 3 (\<lambda>ids. [ids ! 4]))]"

lemma run_calls_implement:
  assumes "list_all2 (implements taken ok) ms fs" "clients_ok s" "ok s"
    and "\<And>s s'. ok s \<Longrightarrow> same_rpc s s' \<Longrightarrow> ok s'"
  shows "\<exists>s'. run_calls ms s = Some (Inr s') \<and> session taken s' = ses_run fs (session taken s) \<and> same_rpc s s'"
  using assms(1-3)
proof (induction ms fs arbitrary: s rule: list_all2_induct)
  case Nil
  then show ?case by (simp add: ses_run_def same_rpc_refl)
next
  case (Cons m ms f fs)
  then obtain s1 where s1: "m s = Some (Inr (fst (f (session taken s)), s1))"
      "session taken s1 = snd (f (session taken s))" "same_rpc s s1"
    by (auto simp: implements_def)
  moreover have "clients_ok s1" "ok s1" using s1(3) Cons.prems assms(4) by (auto simp: same_rpc_def)
  ultimately obtain s2 where "run_calls ms s1 = Some (Inr s2)"
      "session taken s2 = ses_run fs (session taken s1)" "same_rpc s1 s2"
    using Cons.IH by blast
  with s1 show ?case by (auto simp: ses_run_def intro: same_rpc_trans)
qed

definition ready :: "nat option \<Rightarrow> nat option \<Rightarrow> 'w gps_rpc \<Rightarrow> bool" where
  "ready clnt atl s \<longleftrightarrow> length (client_IDs s) = 16 \<and> client_prog s clnt = Some PDSM \<and>
     client_prog s atl = Some ATL"

lemma ready_same: "ready clnt atl s \<Longrightarrow> same_rpc s s' \<Longrightarrow> ready clnt atl s'"
  by (simp add: ready_def same_rpc_def)

lemma implements_words:
  assumes "answers E taken resp"
    and "\<And>ids. length (args ids) \<le> 100"
    and "\<And>s. ok s \<Longrightarrow> length (client_IDs s) = 16 \<and> client_prog s clnt = Some prog"
    and "\<And>s. ok s \<Longrightarrow> m s = pdsm_call E clnt p xdr_args (args (client_IDs s)) res s"
  shows "implements taken ok m (ses_request resp prog p args)"
proof -
  have "implements taken ok m (\<lambda>ses. ses_call resp (prog, p, be32s (args (ses_ids ses))) ses)"
    using assms(2) by (intro implements_call [OF assms(1) _ assms(3,4)])
      (auto simp: encodes_args intro: order_trans [where y = 100])
  then show ?thesis by (simp add: ses_request_def [abs_def])
qed

lemma list_all2_Cons2I: "P x y \<Longrightarrow> list_all2 P xs ys \<Longrightarrow> list_all2 P (x # xs) (y # ys)"
  by simp

lemma init_calls_implement:
  assumes "answers E taken resp"
  shows "list_all2 (implements taken (ready clnt atl)) (init_calls E clnt atl) (init_session resp)"
  unfolding init_calls_def init_session_def
  by (intro list_all2_Cons2I list.rel_intros(1) implements_store [where i = 2] implements_store [where i = 11]
      implements_store [where i = 4] implements_words [OF assms, where res = "e_res E"])
    (auto simp: ready_def mem_get_def pdsm_client_init_def pdsm_client_pd_reg_def pdsm_client_pa_reg_def
      pdsm_client_ext_status_reg_def pdsm_client_act_def pdsm_client_xtra_reg_def pdsm_atl_l2_proxy_reg_def
      pdsm_atl_dns_proxy_reg_def pdsm_client_lcs_reg_def)

lemma cleanup_calls_implement:
  assumes "answers E taken resp"
  shows "list_all2 (implements taken (\<lambda>s. length (client_IDs s) = 16 \<and> client_prog s clnt = Some PDSM))
     (cleanup_calls E clnt) (cleanup_session resp)"
  unfolding cleanup_calls_def cleanup_session_def
  by (intro list_all2_Cons2I list.rel_intros(1) implements_store [where i = 2] implements_store [where i = 11]
      implements_store [where i = 4] implements_words [OF assms, where res = "e_res E"])
    (auto simp: mem_get_def pdsm_client_deact_def pdsm_client_release_def)

text \<open>The session that results, written out.\<close>

definition init_requests :: "u32 \<Rightarrow> u32 \<Rightarrow> u32 \<Rightarrow> request list" where
  "init_requests i2 i11 i4 =
     [(PDSM, 2, be32s [2]), (PDSM, 4, be32s [i2, 0, 0, 0, 0xF3F0FFFF, 0]),
      (PDSM, 5, be32s [i2, 0, 2, 0, 0x7FFEFE0, 0]), (PDSM, 8, be32s [i2, 0, 1, 0, 4, 0]),
      (PDSM, 9, be32s [i2]),
      (PDSM, 2, be32s [11]), (PDSM, 7, be32s [i11, 0, 3, 0, 7, 0]), (PDSM, 9, be32s [i11]),
      (ATL, 3, be32s [1, 0, 0]), (ATL, 6, be32s [1, 0]),
      (PDSM, 2, be32s [4]), (PDSM, 6, be32s [i4, 0, 7, 0, 0x3F0, 0]), (PDSM, 9, be32s [i4])]"

lemma init_session_run:
  fixes resp :: "request \<Rightarrow> u32"
  assumes "length (ses_ids ses) = 16"
  defines "i2 \<equiv> resp (PDSM, 2, be32s [2])" and "i11 \<equiv> resp (PDSM, 2, be32s [11])"
    and "i4 \<equiv> resp (PDSM, 2, be32s [4])"
  shows "ses_run (init_session resp) ses =
     \<lparr>ses_ids = (ses_ids ses)[2 := i2, 11 := i11, 4 := i4], ses_log = ses_log ses @ init_requests i2 i11 i4\<rparr>"
  using assms(1)
  by (cases ses) (simp add: ses_run_def init_session_def ses_store_def ses_request_def ses_call_def
      init_requests_def i2_def i11_def i4_def del: be32s_simps)

lemma register_callback:
  assumes "is_callback prog" "k_calloc K w"
  shows "\<exists>b xp'. svc_register K junk xp prog vers disp w = Some (b, xp', w)"
  using assms by (auto simp: svc_register_def split: option.split)

lemma register_callbacks_Some:
  assumes "k_calloc K w"
  shows "\<exists>xp'. register_callbacks K junk disp xp w = Some (xp', w)"
proof -
  have cb: "is_callback 0x3100005b" "is_callback 0x3100001d" by (simp_all add: is_callback_def)
  note reg = register_callback [OF cb(1) assms, of junk _ _ disp] register_callback [OF cb(2) assms, of junk _ _ disp]
  from reg(1) obtain b1 x1 where 1: "svc_register K junk xp 0x3100005b 0x00010001 disp w = Some (b1, x1, w)" by blast
  from reg(1) obtain b2 x2 where 2: "svc_register K junk x1 0x3100005b 0 disp w = Some (b2, x2, w)" by blast
  from reg(2) obtain b3 x3 where 3: "svc_register K junk x2 0x3100001d 0x00010001 disp w = Some (b3, x3, w)" by blast
  from reg(2) obtain b4 x4 where 4: "svc_register K junk x3 0x3100001d 0 disp w = Some (b4, x4, w)" by blast
  from 1 2 3 4 show ?thesis by (simp add: register_callbacks_def)
qed

lemma clnt_create_added:
  assumes "clnt_create K addr prog vers g w = Some (Some a, g', w')"
  shows "addr = Some a \<and> (\<exists>c. clients g' = (a, c) # clients g \<and> xdr_ok (cl_xdr c) \<and> x_prog (cl_xdr c) = prog)"
  using assms xdr_ok_zero
  by (auto simp: clnt_create_def xdr_init_common_def Let_def
      split: option.splits Option.bind_splits if_splits prod.splits)

lemma auto_params_answered:
  assumes "answers E taken resp" "clients_ok s" "length (client_IDs s) = 16" "client_prog s (g_clnt s) = Some PDSM"
  shows "\<exists>s'. run_calls [gps_xtra_set_auto_params E] s = Some (Inr s') \<and>
     taken (g_world s') = taken (g_world s) @
       [(PDSM, 0x1C, be32s [0, client_IDs s ! 11, 0, ucast (XTRA_AUTO_DOWNLOAD_ENABLED (g_conf s)),
          ucast (XTRA_DOWNLOAD_INTERVAL (g_conf s))])] \<and> client_IDs s' = client_IDs s \<and> same_rpc s s'"
proof -
  have c: "ucast (ucast (v :: u8) :: u16) = (ucast v :: u32)" for v
    by (rule bit_word_eqI) (auto simp: bit_simps dest: bit_imp_le_length)
  show ?thesis
    using pdsm_call_answered [OF assms(1) encodes_auto [of 0 "client_IDs s ! 11" 0
        "XTRA_AUTO_DOWNLOAD_ENABLED (g_conf s)" "ucast (XTRA_DOWNLOAD_INTERVAL (g_conf s))"] _ assms(2,4),
        where p = "0x1C" and res = "- 1"] assms(3)
    by (auto simp: gps_xtra_set_auto_params_def pdsm_xtra_set_auto_download_params_def mem_get_def c
        simp del: be32s_simps)
qed

subsection \<open>Properties\<close>

text \<open>
  C7: with a modem that answers, the initialisation of the library carries out the specified session:
  after the two clients have been created it sends exactly the thirteen requests of the specification
  in their order, stores the three identifiers the modem hands out, reads the configuration and, if that enables the automatic
  download, sends the download parameters; it then marks the configuration as read.
\<close>

theorem init_leo_session:
  assumes ans: "answers E taken resp"
    and clnt: "clnt_create (e_kernel E) (i_clnt I) PDSM 0x00010001 (g_clients s) (g_world s) = Some (Some a, g1, w1)"
      "clnt_create (e_kernel E) (i_atl I) ATL 0x00010001 g1 w1 = Some (Some b, g2, w2)"
    and env: "a \<noteq> b" "taken w2 = taken (g_world s)" "k_calloc (e_kernel E) w2"
      "svcrtr_create (g_xprts s) (i_xprt I) = Some t"
    and s: "clients_ok s" "length (client_IDs s) = 16"
    and conf: "mem_get (CHECKED (g_conf s)) 0 = Some 0" "CHECKED cf \<noteq> []"
      "parse_gps_conf (i_conf I) (i_str I) (g_conf s) = Some (rc, cf)"
  defines "i2 \<equiv> resp (PDSM, 2, be32s [2])" and "i11 \<equiv> resp (PDSM, 2, be32s [11])"
    and "i4 \<equiv> resp (PDSM, 2, be32s [4])"
  shows "\<exists>s'. init_leo E I s = Some (Inr (0, s')) \<and>
     taken (g_world s') = taken (g_world s) @ init_requests i2 i11 i4 @
       (if XTRA_AUTO_DOWNLOAD_ENABLED cf = 0 then []
        else [(PDSM, 0x1C, be32s [0, i11, 0, ucast (XTRA_AUTO_DOWNLOAD_ENABLED cf), ucast (XTRA_DOWNLOAD_INTERVAL cf)])]) \<and>
     client_IDs s' = (client_IDs s)[2 := i2, 11 := i11, 4 := i4] \<and>
     g_conf s' = cf\<lparr>CHECKED := (CHECKED cf)[0 := 1]\<rparr> \<and> g_clnt s' = Some a"
proof -
  obtain c1 c2 where c: "clients g2 = (b, c2) # (a, c1) # clients (g_clients s)" "xdr_ok (cl_xdr c1)" "xdr_ok (cl_xdr c2)"
      "x_prog (cl_xdr c1) = PDSM" "x_prog (cl_xdr c2) = ATL"
    using clnt_create_added [OF clnt(1)] clnt_create_added [OF clnt(2)] by auto
  obtain xp1 where xp1: "register_callbacks (e_kernel E) (i_active I) (i_dispatch I)
      (if the_xprt (g_xprts s) = None then xprt_zero else g_xprt s) w2 = Some (xp1, w2)"
    using register_callbacks_Some [OF env(3)] by blast
  define s1 where "s1 = s\<lparr>g_clnt := Some a, g_svc := Some t, g_clients := g2,
      g_xprts := xprt_register (Some t) (g_xprts s), g_xprt := xp1, g_world := w2\<rparr>"
  have ok1: "clients_ok s1" "ready (Some a) (Some b) s1"
    using s c env(1) by (auto simp: s1_def clients_ok_def ready_def client_prog_def)
  obtain s2 where s2: "run_calls (init_calls E (Some a) (Some b)) s1 = Some (Inr s2)"
      "session taken s2 = ses_run (init_session resp) (session taken s1)" "same_rpc s1 s2"
    using run_calls_implement [OF init_calls_implement [OF ans] ok1] ready_same by blast
  have ses2: "client_IDs s2 = (client_IDs s)[2 := i2, 11 := i11, 4 := i4]"
    "taken (g_world s2) = taken (g_world s) @ init_requests i2 i11 i4"
    using s2(2) s env(2) init_session_run [of "session taken s1" resp]
    by (simp_all add: session_def s1_def i2_def i11_def i4_def del: be32s_simps)
  have same2: "g_conf s2 = g_conf s" "g_clnt s2 = Some a" "clients_ok s2" "ready (Some a) (Some b) s2"
    using s2(3) ready_same [OF ok1(2) s2(3)] by (auto simp: same_rpc_def s1_def)
  let ?s3 = "s2\<lparr>g_conf := cf\<rparr>"
  have ok3: "clients_ok ?s3" "length (client_IDs ?s3) = 16" "client_prog ?s3 (g_clnt ?s3) = Some PDSM"
    using same2 by (auto simp: clients_ok_def ready_def client_prog_def)
  have idx: "client_IDs s2 ! 11 = i11" using s(2) ses2(1) by simp
  have start: "init_leo E I s = (do { r2 \<leftarrow> init_conf E I s2;
      case r2 of Inl e \<Rightarrow> Some (Inl e) | Inr s3 \<Rightarrow> Some (Inr (0, s3)) })"
    using clnt env(4) xp1 s2(1) by (simp add: init_leo_def s1_def)
  have conf2: "init_conf E I s2 = (do {
      r \<leftarrow> (if XTRA_AUTO_DOWNLOAD_ENABLED cf \<noteq> 0 then run_calls [gps_xtra_set_auto_params E] ?s3 else Some (Inr ?s3));
      case r of Inl e \<Rightarrow> Some (Inl e) | Inr s2 \<Rightarrow>
        do { ch \<leftarrow> mem_set (CHECKED (g_conf s2)) 0 1; Some (Inr (s2\<lparr>g_conf := (g_conf s2)\<lparr>CHECKED := ch\<rparr>\<rparr>)) } })"
    using conf(1,3) same2(1) by (simp add: init_conf_def)
  have set0: "mem_set (CHECKED cf) 0 1 = Some ((CHECKED cf)[0 := 1])"
    using conf(2) by (simp add: mem_set_def)
  show ?thesis
  proof (cases "XTRA_AUTO_DOWNLOAD_ENABLED cf = 0")
    case True
    then show ?thesis using start conf2 set0 ses2 same2(2) by simp
  next
    case False
    obtain s4 where "run_calls [gps_xtra_set_auto_params E] ?s3 = Some (Inr s4)" "same_rpc ?s3 s4"
        "client_IDs s4 = client_IDs s2" "taken (g_world s4) = taken (g_world s2) @
          [(PDSM, 0x1C, be32s [0, i11, 0, ucast (XTRA_AUTO_DOWNLOAD_ENABLED cf), ucast (XTRA_DOWNLOAD_INTERVAL cf)])]"
      using auto_params_answered [OF ans ok3] idx by (auto simp del: be32s_simps)
    with False start conf2 set0 ses2 same2(2) show ?thesis
      by (simp add: same_rpc_def del: be32s_simps run_calls.simps)
  qed
qed

definition demo_init :: init_env where
  "demo_init = \<lparr>i_clnt = Some 1, i_atl = Some 2, i_xprt = Some 3, i_active = 0, i_dispatch = 7,
     i_conf = None, i_str = replicate 256 NUL\<rparr>"

theorem init_leo_session_witness:
  "\<exists>s'. init_leo demo_modem demo_init demo_rpc = Some (Inr (0, s')) \<and>
     g_world s' = init_requests 77 77 77 \<and> client_IDs s' = (replicate 16 0)[2 := 77, 11 := 77, 4 := 77] \<and>
     g_conf s' = gps_conf_init\<lparr>CHECKED := [1, 0, 0, 0]\<rparr> \<and> g_clnt s' = Some 1"
proof -
  obtain g1 where 1: "clnt_create (e_kernel demo_modem) (i_clnt demo_init) PDSM 0x00010001
      (g_clients demo_rpc) (g_world demo_rpc) = Some (Some 1, g1, [])"
    by (simp add: clnt_create_def xdr_init_common_def r_open_def FD_SET_def demo_modem_def demo_init_def
        demo_rpc_def Let_def)
  obtain g2 where 2: "clnt_create (e_kernel demo_modem) (i_atl demo_init) ATL 0x00010001 g1 [] = Some (Some 2, g2, [])"
    by (simp add: clnt_create_def xdr_init_common_def r_open_def FD_SET_def demo_modem_def demo_init_def Let_def)
  have 3: "k_calloc (e_kernel demo_modem) []" "svcrtr_create (g_xprts demo_rpc) (i_xprt demo_init) = Some 3"
    "clients_ok demo_rpc" "length (client_IDs demo_rpc) = 16" "mem_get (CHECKED (g_conf demo_rpc)) 0 = Some 0"
    "parse_gps_conf (i_conf demo_init) (i_str demo_init) (g_conf demo_rpc) = Some (1, gps_conf_init)"
    "CHECKED gps_conf_init \<noteq> []"
    by (simp_all add: demo_modem_def demo_rpc_def demo_init_def svcrtr_create_def clients_ok_def
        clnt_globals_zero_def gps_conf_init_def mem_get_def parse_gps_conf_def)
  show ?thesis
    using init_leo_session [OF demo_modem_answers 1 2 _ _ 3(1,2,3,4,5,7,6)]
    by (auto simp: demo_rpc_def gps_conf_init_def)
qed

end
