(* ===== verification/Gps_Xtra.thy ===== *)
theory Gps_Xtra
  imports Gps_Rpc
begin

text \<open>
  The injection of satellite orbit data, \<open>gps_xtra_inject_xtra_data\<close> of \<open>libgps/leo-gps.c\<close>: the data is
  cut into blocks of 400 bytes, each sent to the modem by \<open>gps_xtra_set_data\<close>. The counters keep
  their widths: part numbers are 8 bits wide and the offset into the data 16 bits.
\<close>

abbreviation XTRA_BLOCK_SIZE :: int where "XTRA_BLOCK_SIZE \<equiv> 400"
abbreviation EINVAL :: int where "EINVAL \<equiv> 22"

definition xtra_total_parts :: "int \<Rightarrow> u8" where
  "xtra_total_parts len =
     (let tot = (word_of_int (len div XTRA_BLOCK_SIZE) :: u8) in
      if uint tot mod XTRA_BLOCK_SIZE \<noteq> 0 then tot + 1 else tot)"

definition xtra_part_len :: "int \<Rightarrow> u16 \<Rightarrow> u32" where
  "xtra_part_len len len_injected =
     (if XTRA_BLOCK_SIZE > len - uint len_injected then word_of_int (len - uint len_injected)
      else word_of_int XTRA_BLOCK_SIZE)"

lemma next_part: "part < tot \<Longrightarrow> unat tot - unat (part + 1) < unat tot - unat (part :: u8)"
proof -
  assume "part < tot"
  then have "unat part < unat tot" by (simp add: word_less_nat_alt)
  moreover have "unat tot < 256" using unsigned_less [of tot, where ?'a = nat] by simp
  ultimately have "unat (part + 1) = unat part + 1" by (simp add: unat_word_ariths)
  with \<open>unat part < unat tot\<close> show ?thesis by simp
qed

text \<open>The loop from \<open>part\<close> on; a pointer into the data is the rest of the data.\<close>

function xtra_loop ::
  "'w rpc_env \<Rightarrow> u8 list \<Rightarrow> int \<Rightarrow> u8 \<Rightarrow> u8 \<Rightarrow> u16 \<Rightarrow> int \<Rightarrow> 'w gps_rpc \<Rightarrow> (int, 'w) rpc_result" where
  "xtra_loop E data len total_parts part len_injected ret_val s =
     (if part \<le> total_parts then
        let part_len = xtra_part_len len len_injected;
            xtra_data_ptr = drop (unat len_injected) data in
        do { r \<leftarrow> gps_xtra_set_data E (Some xtra_data_ptr) part_len part total_parts s;
             case r of
               Inl e \<Rightarrow> Some (Inl e)
             | Inr (res, s1) \<Rightarrow>
                 if part < total_parts then
                   if sint res = - 1 then Some (Inr (EINVAL, s1))
                   else xtra_loop E data len total_parts (part + 1) (len_injected + ucast part_len) ret_val s1
                 else Some (Inr (sint res, s1)) }
      else Some (Inr (ret_val, s)))"
  by pat_completeness auto
termination
  by (relation "measure (\<lambda>(E, data, len, tot, part, inj, ret, s). unat tot - unat part)")
    (auto intro: next_part)

declare xtra_loop.simps [simp del]

text \<open>\<open>init\<close> tells whether the state of the library is initialised.\<close>

definition gps_xtra_inject_xtra_data ::
  "'w rpc_env \<Rightarrow> bool \<Rightarrow> u8 list \<Rightarrow> int \<Rightarrow> 'w gps_rpc \<Rightarrow> (int, 'w) rpc_result" where
  "gps_xtra_inject_xtra_data E init data len s =
     (if \<not> init then Some (Inr (0, s))
      else xtra_loop E data len (xtra_total_parts len) 1 0 (- 1) s)"

subsection \<open>The requests of an injection\<close>

definition xtra_block :: "u8 list \<Rightarrow> nat \<Rightarrow> u8 list" where
  "xtra_block data k = take 400 (drop (400 * k) data)"

definition xtra_request :: "u8 list \<Rightarrow> u32 \<Rightarrow> nat \<Rightarrow> nat \<Rightarrow> request" where
  "xtra_request data client_id tot k =
     (let b = xtra_block data k in
      (PDSM, 0x1A, be32s [0, client_id, 0, of_nat (length b), of_nat (length b)] @ b @ pad4 (length b) @
         be32s [of_nat (k + 1), of_nat tot, 1]))"

lemma xtra_blocks_concat: "length data \<le> 400 * n \<Longrightarrow> concat (map (xtra_block data) [0..<n]) = data"
proof -
  have "concat (map (xtra_block data) [0..<n]) = take (400 * n) data" for n
  proof (induction n)
    case (Suc n)
    have "400 * Suc n = 400 * n + 400" by simp
    then have "take (400 * Suc n) data = take (400 * n) data @ take 400 (drop (400 * n) data)"
      by (simp only: take_add)
    with Suc show ?case by (simp add: xtra_block_def)
  qed simp
  then show "length data \<le> 400 * n \<Longrightarrow> concat (map (xtra_block data) [0..<n]) = data" by simp
qed

lemma set_data_answered:
  fixes part tot :: u8
  assumes "answers E taken resp" "clients_ok s" "length (client_IDs s) = 16" "client_prog s (g_clnt s) = Some PDSM"
    and "unat len \<le> length b" "unat len \<le> 1900"
  defines "req \<equiv> (PDSM, 0x1A, be32s [0, client_IDs s ! 11, 0, len, len] @ take (unat len) b @ pad4 (unat len) @
     be32s [ucast part, ucast tot, 1])"
  shows "\<exists>s'. gps_xtra_set_data E (Some b) len part tot s = Some (Inr (resp req, s')) \<and>
     taken (g_world s') = taken (g_world s) @ [req] \<and> client_IDs s' = client_IDs s \<and> same_rpc s s'"
proof -
  let ?e = "be32s [0, client_IDs s ! 11, 0, len, len] @ take (unat len) b @ pad4 (unat len) @
     be32s [ucast part, ucast tot, 1]"
  have "length (pad4 (unat len)) \<le> 3" by (rule length_pad4)
  then have "length ?e \<le> 2008" using assms(5,6) by simp
  from pdsm_call_answered [OF assms(1) encodes_data [OF assms(5,6)] this assms(2,4), where p = "0x1A" and res = "- 1"]
  show ?thesis
    unfolding req_def using assms(3)
    by (simp only: gps_xtra_set_data_def pdsm_xtra_set_data_def mem_get_def) simp
qed

lemma xtra_block_length: "length (xtra_block data k) = min 400 (length data - 400 * k)"
  by (simp add: xtra_block_def)

lemma xtra_part_len_block:
  assumes "400 * k \<le> length data" "length data < 65536"
  shows "xtra_part_len (int (length data)) (of_nat (400 * k)) = of_nat (length (xtra_block data k))"
    "unat (xtra_part_len (int (length data)) (of_nat (400 * k))) = length (xtra_block data k)"
proof -
  have u: "uint (of_nat (400 * k) :: u16) = int (400 * k)"
    using assms by (simp add: uint_nat unat_of_nat del: of_nat_mult)
  define r where "r = length data - 400 * k"
  have r: "int (length data) - int (400 * k) = int r" using assms by (simp add: r_def)
  have "xtra_part_len (int (length data)) (of_nat (400 * k)) = of_nat (min 400 r)"
    unfolding xtra_part_len_def u r by (cases "r < 400") simp_all
  then show *: "xtra_part_len (int (length data)) (of_nat (400 * k)) = of_nat (length (xtra_block data k))"
    by (simp only: xtra_block_length r_def)
  show "unat (xtra_part_len (int (length data)) (of_nat (400 * k))) = length (xtra_block data k)"
    unfolding * by (simp add: unat_of_nat xtra_block_length)
qed

lemma xtra_step_answered:
  assumes ans: "answers E taken resp" and s: "clients_ok s" "length (client_IDs s) = 16" "client_prog s (g_clnt s) = Some PDSM"
    and k: "400 * k \<le> length data" "length data < 65536" "k + 1 \<le> N" "N < 256"
  shows "\<exists>s'. gps_xtra_set_data E (Some (drop (unat (of_nat (400 * k) :: u16)) data))
       (xtra_part_len (int (length data)) (of_nat (400 * k))) (of_nat (k + 1)) (of_nat N) s =
       Some (Inr (resp (xtra_request data (client_IDs s ! 11) N k), s')) \<and>
     taken (g_world s') = taken (g_world s) @ [xtra_request data (client_IDs s ! 11) N k] \<and>
     client_IDs s' = client_IDs s \<and> same_rpc s s'"
proof -
  have off: "unat (of_nat (400 * k) :: u16) = 400 * k" using k by (simp add: unat_of_nat del: of_nat_mult)
  note pl = xtra_part_len_block [OF k(1,2)]
  have le: "length (xtra_block data k) \<le> length (drop (400 * k) data)" "length (xtra_block data k) \<le> 1900"
    by (simp_all add: xtra_block_length)
  have tk: "take (length (xtra_block data k)) (drop (400 * k) data) = xtra_block data k"
    by (simp add: xtra_block_def min_def)
  have "ucast (of_nat (k + 1) :: u8) = (of_nat (k + 1) :: u32)" "ucast (of_nat N :: u8) = (of_nat N :: u32)"
    using k by (simp_all add: unsigned_of_nat take_bit_nat_eq_self del: of_nat_Suc of_nat_add)
  then show ?thesis
    using set_data_answered [OF ans s, of "xtra_part_len (int (length data)) (of_nat (400 * k))" "drop (400 * k) data"
        "of_nat (k + 1)" "of_nat N"] le
    unfolding pl(2) off tk xtra_request_def Let_def by (simp only: pl(1))
qed

lemma sint_not_minus_1: "w \<noteq> - 1 \<Longrightarrow> sint w \<noteq> - 1"
proof
  assume "w \<noteq> - 1" "sint w = - 1"
  from this(2) have "of_int (sint w) = (- 1 :: 'a word)" by simp
  with \<open>w \<noteq> - 1\<close> show False by simp
qed

lemma xtra_loop_answered:
  assumes ans: "answers E taken resp" and nerr: "\<And>req. resp req \<noteq> - 1"
    and n: "length data < 65536" and N: "N = length data div 400 + 1"
  shows "k < N \<Longrightarrow> clients_ok s \<Longrightarrow> length (client_IDs s) = 16 \<Longrightarrow> client_prog s (g_clnt s) = Some PDSM \<Longrightarrow>
     \<exists>s'. xtra_loop E data (int (length data)) (of_nat N) (of_nat (k + 1)) (of_nat (400 * k)) ret s =
       Some (Inr (sint (resp (xtra_request data (client_IDs s ! 11) N (N - 1))), s')) \<and>
     taken (g_world s') = taken (g_world s) @ map (xtra_request data (client_IDs s ! 11) N) [k..<N] \<and> same_rpc s s'"
proof (induction "N - k" arbitrary: k s)
  case 0
  then show ?case by simp
next
  case (Suc d)
  have bounds: "400 * k \<le> length data" "k + 1 \<le> N" "N < 256" using Suc.prems(1) n N by auto
  obtain s1 where s1: "gps_xtra_set_data E (Some (drop (unat (of_nat (400 * k) :: u16)) data))
       (xtra_part_len (int (length data)) (of_nat (400 * k))) (of_nat (k + 1)) (of_nat N) s =
       Some (Inr (resp (xtra_request data (client_IDs s ! 11) N k), s1))"
     "taken (g_world s1) = taken (g_world s) @ [xtra_request data (client_IDs s ! 11) N k]"
     "client_IDs s1 = client_IDs s" "same_rpc s s1"
    using xtra_step_answered [OF ans Suc.prems(2-4) bounds(1) n bounds(2,3)] by blast
  have le: "(of_nat (k + 1) :: u8) \<le> of_nat N" and less: "(of_nat (k + 1) :: u8) < of_nat N \<longleftrightarrow> k + 1 < N"
    using bounds by (simp_all add: word_le_nat_alt word_less_nat_alt unat_of_nat del: of_nat_Suc of_nat_add)
  show ?case
  proof (cases "k + 1 < N")
    case False
    then have "N = Suc k" using bounds by simp
    with le less s1 show ?thesis
      by (subst xtra_loop.simps) (simp del: of_nat_Suc of_nat_add)
  next
    case True
    have next_off: "of_nat (400 * k) + ucast (xtra_part_len (int (length data)) (of_nat (400 * k))) = (of_nat (400 * (k + 1)) :: u16)"
    proof -
      have "length (xtra_block data k) = 400" using True N by (simp add: xtra_block_length)
      with xtra_part_len_block(1) [OF bounds(1) n]
      have "ucast (xtra_part_len (int (length data)) (of_nat (400 * k))) = (400 :: u16)" by simp
      then show ?thesis by simp
    qed
    have "d = N - Suc k" using Suc.hyps(2) by simp
    then obtain s2 where s2: "xtra_loop E data (int (length data)) (of_nat N) (of_nat (Suc k + 1)) (of_nat (400 * Suc k)) ret s1 =
        Some (Inr (sint (resp (xtra_request data (client_IDs s ! 11) N (N - 1))), s2))"
      "taken (g_world s2) = taken (g_world s1) @ map (xtra_request data (client_IDs s ! 11) N) [Suc k..<N]" "same_rpc s1 s2"
      using Suc.hyps(1) [of "Suc k" s1] True s1(3,4) Suc.prems by (auto simp: same_rpc_def)
    have "of_nat (k + 1) + 1 = (of_nat (Suc k + 1) :: u8)" by simp
    then have "xtra_loop E data (int (length data)) (of_nat N) (of_nat (k + 1)) (of_nat (400 * k)) ret s =
        Some (Inr (sint (resp (xtra_request data (client_IDs s ! 11) N (N - 1))), s2))"
      using le less True s1(1) s2(1) next_off sint_not_minus_1 [OF nerr]
      by (subst xtra_loop.simps) (simp only: Let_def if_True Option.bind.bind_lunit sum.case prod.case Suc_eq_plus1 if_False)
    moreover have "[k..<N] = k # [Suc k..<N]" using True by (simp add: upt_conv_Cons)
    ultimately show ?thesis
      using s1(2,4) s2(2,3) by (auto intro: same_rpc_trans)
  qed
qed

subsection \<open>Properties\<close>

text \<open>
  C28: data of at least 400 and less than 65536 bytes is injected completely: with a modem that
  answers, the parts of the requests are consecutive blocks that together are the data, numbered from
  one and with the number of parts, and the result is the answer to the last part.
\<close>

theorem xtra_data_injected:
  assumes "answers E taken resp" "\<And>req. resp req \<noteq> - 1"
    and "clients_ok s" "length (client_IDs s) = 16" "client_prog s (g_clnt s) = Some PDSM"
    and "400 \<le> length data" "length data < 65536"
  defines "N \<equiv> length data div 400 + 1"
  shows "\<exists>s'. gps_xtra_inject_xtra_data E True data (int (length data)) s =
       Some (Inr (sint (resp (xtra_request data (client_IDs s ! 11) N (N - 1))), s')) \<and>
     taken (g_world s') = taken (g_world s) @ map (xtra_request data (client_IDs s ! 11) N) [0..<N] \<and>
     concat (map (xtra_block data) [0..<N]) = data"
proof -
  have tot: "xtra_total_parts (int (length data)) = of_nat N"
  proof -
    define q where "q = length data div 400"
    have q: "0 < q" "q < 255" using assms(6,7) by (auto simp: q_def)
    have "uint (of_nat q :: u8) = int q" using q by (simp add: uint_nat unat_of_nat)
    moreover have "int (length data) div 400 = int q" by (simp add: q_def zdiv_int)
    moreover have "int q mod 400 \<noteq> 0" using q by simp
    ultimately show ?thesis by (simp add: xtra_total_parts_def N_def q_def [symmetric])
  qed
  have "\<exists>s'. xtra_loop E data (int (length data)) (of_nat N) (of_nat (0 + 1)) (of_nat (400 * 0)) (- 1) s =
       Some (Inr (sint (resp (xtra_request data (client_IDs s ! 11) N (N - 1))), s')) \<and>
     taken (g_world s') = taken (g_world s) @ map (xtra_request data (client_IDs s ! 11) N) [0..<N] \<and> same_rpc s s'"
    using assms(3-5) by (intro xtra_loop_answered [OF assms(1,2,7)]) (auto simp: N_def)
  moreover have "concat (map (xtra_block data) [0..<N]) = data"
    by (rule xtra_blocks_concat) (simp add: N_def)
  ultimately show ?thesis
    by (auto simp: gps_xtra_inject_xtra_data_def tot)
qed

definition demo_ready :: "(request list) gps_rpc" where
  "demo_ready = demo_rpc\<lparr>g_clnt := Some 1, g_clients := demo_clients\<rparr>"

theorem xtra_data_injected_witness:
  "\<exists>s'. gps_xtra_inject_xtra_data demo_modem True (replicate 500 7) 500 demo_ready = Some (Inr (77, s')) \<and>
     g_world s' = [xtra_request (replicate 500 7) 0 2 0, xtra_request (replicate 500 7) 0 2 1]"
proof -
  have ok: "clients_ok demo_ready" "length (client_IDs demo_ready) = 16" "client_prog demo_ready (g_clnt demo_ready) = Some PDSM"
    using xdr_ok_zero
    by (simp_all add: demo_ready_def demo_rpc_def clients_ok_def client_prog_def demo_clients_def demo_client_def)
  have "client_IDs demo_ready ! 11 = 0" "g_world demo_ready = []" by (simp_all add: demo_ready_def demo_rpc_def)
  moreover have "[0..<500 div 400 + 1] = [0, 1 :: nat]" by (simp add: upt_rec)
  ultimately show ?thesis
    using xtra_data_injected [OF demo_modem_answers _ ok, of "replicate 500 7"] by (auto simp flip: numeral_2_eq_2)
qed

text \<open>Data shorter than one block is not sent at all, and the result is an error.\<close>

lemma xtra_short_data:
  assumes "0 \<le> len" "len < 400"
  shows "gps_xtra_inject_xtra_data E True data len s = Some (Inr (- 1, s))"
  using assms by (simp add: gps_xtra_inject_xtra_data_def xtra_total_parts_def xtra_loop.simps)

end
