(* ===== verification/Gps_Hal.thy ===== *)
theory Gps_Hal
  imports Gps_Xtra Gps_Events
begin

text \<open>
  The GPS library proper, \<open>libgps/leo-gps.c\<close> from the commands of the state thread on: the reports
  to the framework, the state thread, the timer thread, the thread that asks the modem for positions,
  and the functions of the interfaces.

  The sequential parts are functions on \<open>gps_state\<close>, which holds the fields of \<open>GpsState\<close> and the
  two flags \<open>started\<close> and \<open>active\<close>. The step relation \<open>hal_act\<close> interleaves the threads: each step
  is what a thread does between two points where it can be interrupted with an effect on the others, and its label
  says which thread moves and what comes from outside (the arguments of a call, the bytes that were read, an event of the modem).
  A condition variable without a waiter forgets a signal, and a waiting thread may wake up without one; such a wake-up has a
  label of its own. \<open>hal_step\<close> is a step with any label, \<open>hal_run\<close> a run with given labels.
\<close>

subsection \<open>State\<close>

datatype gps_init_state = STATE_QUIT | STATE_INIT | STATE_START
datatype gps_cmd = CMD_QUIT | CMD_START | CMD_STOP

datatype 'f report =
    LocationCb "'f GpsLocation"
  | StatusCb int
  | SvStatusCb "'f GpsSvStatus"
  | NmeaCb "u8 list"
  | DownloadCb

text \<open>Which of the callback pointers of the framework are set.\<close>

record gps_callbacks =
  location_cb :: bool
  status_cb :: bool
  sv_status_cb :: bool
  nmea_cb :: bool

record 'f gps_state =
  h_init :: gps_init_state
  h_fd :: int
  h_callbacks :: gps_callbacks
  h_download_cb :: bool
  h_agps :: bool
  h_status :: int
  h_fix_freq :: int
  h_control :: "int \<times> int"
  h_reader :: "'f NmeaReader"
  h_started :: bool
  h_active :: bool
  h_reports :: "'f report list"

definition GPS_STATUS_SESSION_BEGIN :: int where "GPS_STATUS_SESSION_BEGIN = 1"
definition GPS_STATUS_SESSION_END :: int where "GPS_STATUS_SESSION_END = 2"
definition GPS_STATUS_ENGINE_ON :: int where "GPS_STATUS_ENGINE_ON = 3"
definition GPS_STATUS_ENGINE_OFF :: int where "GPS_STATUS_ENGINE_OFF = 4"

subsection \<open>Reports\<close>

definition report_if :: "bool \<Rightarrow> 'f report \<Rightarrow> 'f gps_state \<Rightarrow> 'f gps_state" where
  "report_if b r s = (if b then s\<lparr>h_reports := h_reports s @ [r]\<rparr> else s)"

definition update_gps_location :: "'f GpsLocation \<Rightarrow> 'f gps_state \<Rightarrow> 'f gps_state" where
  "update_gps_location location s = report_if (location_cb (h_callbacks s)) (LocationCb location) s"

definition update_gps_status :: "int \<Rightarrow> 'f gps_state \<Rightarrow> 'f gps_state" where
  "update_gps_status val s = report_if (status_cb (h_callbacks s)) (StatusCb val) (s\<lparr>h_status := val\<rparr>)"

definition update_gps_svstatus :: "'f GpsSvStatus \<Rightarrow> 'f gps_state \<Rightarrow> 'f gps_state" where
  "update_gps_svstatus svstatus s = report_if (sv_status_cb (h_callbacks s)) (SvStatusCb svstatus) s"

definition update_gps_nmea :: "u8 list \<Rightarrow> 'f gps_state \<Rightarrow> 'f gps_state" where
  "update_gps_nmea nmea s = report_if (nmea_cb (h_callbacks s)) (NmeaCb nmea) s"

definition xtra_download_request :: "'f gps_state \<Rightarrow> 'f gps_state" where
  "xtra_download_request s = report_if (h_download_cb s) DownloadCb s"

subsection \<open>The timer thread\<close>

definition timer_begin :: "'f fops \<Rightarrow> 'f NmeaReader \<Rightarrow> 'f NmeaReader" where
  "timer_begin F r =
     r\<lparr>fix_loc := (fix_loc r)\<lparr>loc_flags := 0\<rparr>, fix_flags_cached := 0, sv_status_changed := False,
       sv_status := (sv_status r)\<lparr>num_svs := 0, sv_list := replicate GPS_MAX_SVS (sv_zero F)\<rparr>\<rparr>"

text \<open>One round under the lock: the location and the satellites that are due are reported.\<close>

definition timer_location :: "'f gps_state \<Rightarrow> 'f gps_state" where
  "timer_location s =
     (let r = h_reader s in
      if loc_flags (fix_loc r) AND GPS_LOCATION_HAS_LAT_LONG \<noteq> 0 then
        let flags = (if fix_flags_cached r > 0 then loc_flags (fix_loc r) OR fix_flags_cached r
                     else loc_flags (fix_loc r));
            loc = (fix_loc r)\<lparr>loc_flags := flags\<rparr>
        in (update_gps_location loc s)
             \<lparr>h_reader := r\<lparr>fix_flags_cached := flags, fix_loc := loc\<lparr>loc_flags := 0\<rparr>\<rparr>\<rparr>
      else s)"

definition timer_svs :: "'f gps_state \<Rightarrow> 'f gps_state" where
  "timer_svs s =
     (let r = h_reader s in
      if sv_status_changed r
      then (update_gps_svstatus (sv_status r) s)\<lparr>h_reader := r\<lparr>sv_status_changed := False\<rparr>\<rparr>
      else s)"

definition timer_round :: "'f gps_state \<Rightarrow> 'f gps_state" where
  "timer_round s = timer_svs (timer_location s)"

text \<open>The argument of \<open>usleep\<close>: computed in \<open>int\<close>, stored as 64 bits, passed as 32 bits.\<close>

definition timer_sleep :: "'f gps_state \<Rightarrow> u32 option" where
  "timer_sleep s =
     do { a \<leftarrow> smul (h_fix_freq s) 1000000;
          b \<leftarrow> sadd a (- 500000);
          Some (ucast (word_of_int b :: u64)) }"

subsection \<open>Interface functions without a part in the threads\<close>

definition gps_set_position_mode :: "int \<Rightarrow> 'f gps_state \<Rightarrow> int \<times> 'f gps_state" where
  "gps_set_position_mode fix_frequency s =
     (if h_init s = STATE_QUIT then (0, s)
      else let freq = (if fix_frequency = 0 then 1
                       else if fix_frequency > 1800 then 1800 else fix_frequency)
           in (0, s\<lparr>h_fix_freq := freq\<rparr>))"

definition gps_xtra_init :: "bool \<Rightarrow> 'f gps_state \<Rightarrow> int \<times> 'f gps_state" where
  "gps_xtra_init download_cb s = (0, s\<lparr>h_download_cb := download_cb\<rparr>)"

definition agps_init :: "'f gps_state \<Rightarrow> 'f gps_state" where
  "agps_init s = s\<lparr>h_agps := True\<rparr>"

definition agps_data_conn_open :: "string \<Rightarrow> int" where "agps_data_conn_open apn = 0"
definition agps_data_conn_closed :: int where "agps_data_conn_closed = 0"
definition agps_data_conn_failed :: int where "agps_data_conn_failed = 0"
definition agps_set_server :: "int \<Rightarrow> string \<Rightarrow> int \<Rightarrow> int" where "agps_set_server type hostname port = 0"
definition gps_inject_location :: "'f \<Rightarrow> 'f \<Rightarrow> 'f \<Rightarrow> int" where "gps_inject_location lat lon acc = 0"
definition gps_delete_aiding_data :: "u16 \<Rightarrow> 'f gps_state \<Rightarrow> 'f gps_state" where
  "gps_delete_aiding_data flags s = s"

definition gps_inject_time ::
  "'w rpc_env \<Rightarrow> int \<Rightarrow> int \<Rightarrow> int \<Rightarrow> u32 \<Rightarrow> 'f gps_state \<Rightarrow> 'w gps_rpc \<Rightarrow> (int, 'w) rpc_result" where
  "gps_inject_time E elapsed time timeReference uncert s rpc =
     (if h_init s = STATE_QUIT then Some (Inr (0, rpc))
      else do { r \<leftarrow> gps_xtra_inject_time_info E elapsed time timeReference uncert rpc;
                Some (case r of Inl e \<Rightarrow> Inl e | Inr (res, rpc1) \<Rightarrow> Inr (sint res, rpc1)) })"

datatype gps_extension = XtraInterface | AGpsInterface

definition gps_get_extension :: "string \<Rightarrow> gps_extension option" where
  "gps_get_extension name =
     (if name = ''gps-xtra'' then Some XtraInterface
      else if name = ''agps'' then Some AGpsInterface else None)"

subsection \<open>Threads\<close>

text \<open>
  Where each thread stands. The state thread: not created, before its first instruction, in
  \<open>epoll_wait\<close>, joining the timer thread, gone. The position thread: at the outer and the inner loop
  test, between the request and the wait for its end, in that wait, before and in the wait for a
  start, gone. A timer thread: before its initialisation, before a round, asleep. The framework's
  thread: outside the library or joining the threads in \<open>gps_state_done\<close>.
\<close>

datatype st_pc = StNone | StBegin | StRun | StJoin | StExit
datatype pos_pc = PosNone | PosOuter | PosInner | PosAsked | PosWaitReady | PosIdle | PosWaitStart | PosExit
datatype tmr_pc = TmrBegin | TmrRound | TmrSleep
datatype api_pc = ApiIdle | ApiJoin

record ('f, 'w) hal =
  d_state :: "'f gps_state"
  d_rpc :: "'w gps_rpc"
  d_pipe :: "gps_cmd list"
  d_st :: st_pc
  d_pos :: pos_pc
  d_tmr_thread :: nat
  d_timers :: "(nat \<times> tmr_pc) list"
  d_api :: api_pc

definition upd_state :: "('f gps_state \<Rightarrow> 'f gps_state) \<Rightarrow> ('f, 'w) hal \<Rightarrow> ('f, 'w) hal" where
  "upd_state f d = d\<lparr>d_state := f (d_state d)\<rparr>"

text \<open>\<open>pthread_cond_signal\<close> on \<open>get_pos_ready_cond\<close> and \<open>get_position_cond\<close>.\<close>

definition signal_ready :: "('f, 'w) hal \<Rightarrow> ('f, 'w) hal" where
  "signal_ready d = (if d_pos d = PosWaitReady then d\<lparr>d_pos := PosInner\<rparr> else d)"

definition signal_position :: "('f, 'w) hal \<Rightarrow> ('f, 'w) hal" where
  "signal_position d = (if d_pos d = PosWaitStart then d\<lparr>d_pos := PosOuter\<rparr> else d)"

definition pdsm_pd_callback :: "('f, 'w) hal \<Rightarrow> ('f, 'w) hal" where
  "pdsm_pd_callback d = signal_ready d"

definition gps_state_start :: "('f, 'w) hal \<Rightarrow> ('f, 'w) hal" where
  "gps_state_start d =
     (upd_state (update_gps_status GPS_STATUS_SESSION_BEGIN) d)\<lparr>d_pipe := d_pipe d @ [CMD_START]\<rparr>"

definition gps_state_stop :: "('f, 'w) hal \<Rightarrow> ('f, 'w) hal" where
  "gps_state_stop d =
     (upd_state (update_gps_status GPS_STATUS_SESSION_END) d)\<lparr>d_pipe := d_pipe d @ [CMD_STOP]\<rparr>"

text \<open>\<open>gps_state_done\<close> up to the joins, and after them.\<close>

definition gps_state_done :: "('f, 'w) hal \<Rightarrow> ('f, 'w) hal" where
  "gps_state_done d =
     (upd_state (update_gps_status GPS_STATUS_ENGINE_OFF) d)\<lparr>d_pipe := d_pipe d @ [CMD_QUIT], d_api := ApiJoin\<rparr>"

definition gps_state_done_joined :: "('f, 'w) hal \<Rightarrow> ('f, 'w) hal" where
  "gps_state_done_joined d =
     (upd_state (\<lambda>s. s\<lparr>h_control := (- 1, - 1), h_fd := - 1, h_init := STATE_QUIT\<rparr>) d)\<lparr>d_pipe := [], d_api := ApiIdle\<rparr>"

definition gps_start :: "('f, 'w) hal \<Rightarrow> int \<times> ('f, 'w) hal" where
  "gps_start d = (if h_init (d_state d) = STATE_QUIT then (- 1, d) else (0, gps_state_start d))"

definition gps_stop :: "('f, 'w) hal \<Rightarrow> int \<times> ('f, 'w) hal" where
  "gps_stop d = (if h_init (d_state d) = STATE_QUIT then (- 1, d) else (0, gps_state_stop d))"

definition gps_cleanup :: "('f, 'w) hal \<Rightarrow> ('f, 'w) hal" where
  "gps_cleanup d =
     (if get_cleanup_value (g_conf (d_rpc d)) \<noteq> 0 \<and> h_init (d_state d) \<noteq> STATE_QUIT
      then gps_state_done d else d)"

definition gps_cleanup_joined :: "'w rpc_env \<Rightarrow> ('f, 'w) hal \<Rightarrow> (int + ('f, 'w) hal) option" where
  "gps_cleanup_joined E d =
     do { r \<leftarrow> cleanup_gps_rpc_clients E (d_rpc d);
          Some (case r of Inl e \<Rightarrow> Inl e | Inr rpc \<Rightarrow> Inr ((gps_state_done_joined d)\<lparr>d_rpc := rpc\<rparr>)) }"

text \<open>
  What the system calls of \<open>gps_state_init\<close> return. When one fails, the error path joins a thread that
  was never created, which is undefined; \<open>init_gps_rpc\<close> returns 0 whenever it returns.
\<close>

record hal_env =
  he_smd :: int
  he_sem :: bool
  he_pair :: "(int \<times> int) option"
  he_thread :: bool
  he_pos :: bool

definition gps_state_init ::
  "'w rpc_env \<Rightarrow> init_env \<Rightarrow> hal_env \<Rightarrow> ('f, 'w) hal \<Rightarrow> (int + ('f, 'w) hal) option" where
  "gps_state_init E I H d =
     do { let s1 = (update_gps_status GPS_STATUS_ENGINE_ON (d_state d))
                     \<lparr>h_init := STATE_INIT, h_fix_freq := - 1, h_fd := he_smd H, h_active := True\<rparr>;
          if \<not> he_sem H then None
          else
            do { ctl \<leftarrow> he_pair H;
                 if \<not> he_thread H \<or> \<not> he_pos H then None
                 else
                   do { r \<leftarrow> init_gps_rpc E I (d_rpc d);
                        case r of
                          Inl e \<Rightarrow> Some (Inl e)
                        | Inr (rc, rpc) \<Rightarrow>
                            if rc \<noteq> 0 then None
                            else Some (Inr (d\<lparr>d_state := s1\<lparr>h_control := ctl\<rparr>, d_rpc := rpc, d_pipe := [],
                                              d_st := StBegin, d_pos := PosOuter\<rparr>)) } } }"

definition gps_init ::
  "'w rpc_env \<Rightarrow> init_env \<Rightarrow> hal_env \<Rightarrow> gps_callbacks \<Rightarrow> ('f, 'w) hal \<Rightarrow> (int + ('f, 'w) hal) option" where
  "gps_init E I H cbs d =
     do { r \<leftarrow> (if h_init (d_state d) = STATE_QUIT then gps_state_init E I H d else Some (Inr d));
          Some (case r of Inl e \<Rightarrow> Inl e
                | Inr d1 \<Rightarrow> Inr (upd_state (\<lambda>s. s\<lparr>h_callbacks := cbs\<rparr>) d1)) }"

text \<open>
  A command in the state thread. \<open>created\<close> tells whether \<open>pthread_create\<close> succeeds; the new timer
  thread gets a fresh identifier.
\<close>

definition state_cmd :: "bool \<Rightarrow> gps_cmd \<Rightarrow> ('f, 'w) hal \<Rightarrow> ('f, 'w) hal" where
  "state_cmd created cmd d =
     (case cmd of
        CMD_QUIT \<Rightarrow>
          (signal_position (signal_ready (upd_state (\<lambda>s. s\<lparr>h_active := False\<rparr>) d)))\<lparr>d_st := StExit\<rparr>
      | CMD_START \<Rightarrow>
          if h_started (d_state d) then d
          else
            let d1 = signal_position (upd_state (\<lambda>s. s\<lparr>h_started := True, h_init := STATE_START\<rparr>) d) in
            if created then d1\<lparr>d_tmr_thread := d_tmr_thread d + 1,
                              d_timers := (d_tmr_thread d + 1, TmrBegin) # d_timers d\<rparr>
            else (upd_state (\<lambda>s. s\<lparr>h_started := False, h_init := STATE_INIT\<rparr>) d1)\<lparr>d_st := StExit\<rparr>
      | CMD_STOP \<Rightarrow>
          if h_started (d_state d)
          then (signal_ready (upd_state (\<lambda>s. s\<lparr>h_started := False, h_init := STATE_INIT\<rparr>) d))\<lparr>d_st := StJoin\<rparr>
          else d)"

text \<open>Bytes from the modem's NMEA channel in the state thread.\<close>

definition state_bytes ::
  "'f fops \<Rightarrow> clock \<Rightarrow> u8 list \<Rightarrow> ('f, 'w) hal \<Rightarrow> ('f, 'w) hal option" where
  "state_bytes F ck bs d =
     do { (r, ls) \<leftarrow> nmea_feed F ck (get_precision_value (g_conf (d_rpc d))) (h_reader (d_state d)) bs;
          Some (upd_state (\<lambda>s. fold update_gps_nmea ls (s\<lparr>h_reader := r\<rparr>)) d) }"

definition set_timer :: "nat \<Rightarrow> tmr_pc \<Rightarrow> ('f, 'w) hal \<Rightarrow> ('f, 'w) hal" where
  "set_timer i pc d = d\<lparr>d_timers := map (\<lambda>p. if fst p = i then (i, pc) else p) (d_timers d)\<rparr>"

definition end_timer :: "nat \<Rightarrow> ('f, 'w) hal \<Rightarrow> ('f, 'w) hal" where
  "end_timer i d = d\<lparr>d_timers := filter (\<lambda>p. fst p \<noteq> i) (d_timers d)\<rparr>"

text \<open>What an event of the modem does to the library, in the thread that runs \<open>dispatch\<close>.\<close>

definition hal_on_event :: "'f hal_event \<Rightarrow> ('f, 'w) hal \<Rightarrow> ('f, 'w) hal" where
  "hal_on_event e d =
     (case e of
        LocationEvent l \<Rightarrow> upd_state (update_gps_location l) d
      | SvStatusEvent sv \<Rightarrow> upd_state (update_gps_svstatus sv) d
      | PositionDone \<Rightarrow> pdsm_pd_callback d
      | DownloadRequest \<Rightarrow> upd_state xtra_download_request d)"

subsection \<open>Registration with epoll\<close>

text \<open>
  The state thread first registers its descriptors. The kernel calls are arguments: \<open>ctl\<close> is \<open>epoll_ctl\<close> with result and
  \<open>errno\<close>, \<open>nonblock\<close> the pair of \<open>fcntl\<close> calls. An interrupted call is repeated, for as long as it takes.
\<close>

datatype epoll_op = EPOLL_CTL_ADD | EPOLL_CTL_DEL

definition EINTR_code :: int where "EINTR_code = 4"

type_synonym 'w epoll = "epoll_op \<Rightarrow> int \<Rightarrow> 'w \<Rightarrow> int \<times> int \<times> 'w"

partial_function (option) epoll_retry :: "'w epoll \<Rightarrow> epoll_op \<Rightarrow> int \<Rightarrow> 'w \<Rightarrow> (int \<times> 'w) option" where
  "epoll_retry ctl opn fd w =
     (let (ret, err, w1) = ctl opn fd w in
      if ret < 0 \<and> err = EINTR_code then epoll_retry ctl opn fd w1 else Some (ret, w1))"

definition epoll_register :: "'w epoll \<Rightarrow> (int \<Rightarrow> 'w \<Rightarrow> 'w) \<Rightarrow> int \<Rightarrow> 'w \<Rightarrow> (int \<times> 'w) option" where
  "epoll_register ctl nonblock fd w = epoll_retry ctl EPOLL_CTL_ADD fd (nonblock fd w)"

definition epoll_deregister :: "'w epoll \<Rightarrow> int \<Rightarrow> 'w \<Rightarrow> (int \<times> 'w) option" where
  "epoll_deregister ctl fd w = epoll_retry ctl EPOLL_CTL_DEL fd w"

definition state_thread_begin :: "'w epoll \<Rightarrow> (int \<Rightarrow> 'w \<Rightarrow> 'w) \<Rightarrow> int \<Rightarrow> int \<Rightarrow> 'w \<Rightarrow> 'w option" where
  "state_thread_begin ctl nonblock control_fd gps_fd w =
     do { (_, w1) \<leftarrow> epoll_register ctl nonblock control_fd w;
          if gps_fd > - 1 then do { (_, w2) \<leftarrow> epoll_register ctl nonblock gps_fd w1; Some w2 } else Some w1 }"

definition interrupted :: "int \<times> int \<times> 'w \<Rightarrow> bool" where
  "interrupted r \<longleftrightarrow> fst r < 0 \<and> fst (snd r) = EINTR_code"

lemma epoll_retry_returns:
  assumes "\<And>i. i < n \<Longrightarrow> interrupted (ctl opn fd (((\<lambda>v. snd (snd (ctl opn fd v))) ^^ i) w))"
    and "ctl opn fd (((\<lambda>v. snd (snd (ctl opn fd v))) ^^ n) w) = (ret, err, w1)" "\<not> interrupted (ret, err, w1)"
  shows "epoll_retry ctl opn fd w = Some (ret, w1)"
  using assms
proof (induction n arbitrary: w)
  case 0
  then show ?case by (subst epoll_retry.simps) (auto simp: interrupted_def)
next
  case (Suc n)
  obtain r e v where v: "ctl opn fd w = (r, e, v)" by (metis prod_cases3)
  have "epoll_retry ctl opn fd v = Some (ret, w1)"
  proof (rule Suc.IH)
    show "interrupted (ctl opn fd (((\<lambda>v. snd (snd (ctl opn fd v))) ^^ i) v))" if "i < n" for i
      using Suc.prems(1) [of "Suc i"] that v by (simp add: funpow_Suc_right del: funpow.simps)
    show "ctl opn fd (((\<lambda>v. snd (snd (ctl opn fd v))) ^^ n) v) = (ret, err, w1)"
      using Suc.prems(2) v by (simp add: funpow_Suc_right del: funpow.simps)
  qed (rule Suc.prems(3))
  moreover have "interrupted (r, e, v)" using Suc.prems(1) [of 0] v by simp
  ultimately show ?case using v by (subst epoll_retry.simps) (simp add: interrupted_def)
qed

subsection \<open>Steps\<close>

text \<open>
  The events that \<open>dispatch\<close> can report: a location or the satellites only when the library does not take them from the NMEA
  channel.
\<close>

definition reportable :: "'w gps_rpc \<Rightarrow> 'f hal_event \<Rightarrow> bool" where
  "reportable s e \<longleftrightarrow> use_nmea s = 0 \<or> (case e of PositionDone \<Rightarrow> True | DownloadRequest \<Rightarrow> True | _ \<Rightarrow> False)"

lemma dispatch_reportable:
  assumes "dispatch_pdsm F L m s = Some (s', evs)" "e \<in> set evs"
  shows "reportable s e"
  using assms
  by (auto simp: dispatch_pdsm_def dispatch_pdsm_pd_def dispatch_pdsm_ext_def dispatch_pdsm_xtra_req_def pd_position_def pd_end_def
      reportable_def Let_def split: if_splits Option.bind_splits)

datatype 'f hal_action =
    ApiInit init_env hal_env gps_callbacks
  | ApiStart | ApiStop
  | ApiMode int
  | ApiXtra "u8 list" int
  | ApiTime int int int u32
  | ApiXtraInit bool
  | ApiAgpsInit
  | ApiCleanup | ApiJoined
  | StBegins
  | StCmd bool
  | StBytes "u8 list"
  | StHangup | StJoined
  | TmrBegins nat | TmrRounds nat | TmrAgain nat | TmrEnds nat
  | PosLoop | PosAsk | PosNoAsk | PosWaits | PosWaitsStart
  | SpuriousReady | SpuriousStart
  | ModemEvent "'f hal_event"

inductive hal_act ::
  "'w rpc_env \<Rightarrow> 'f fops \<Rightarrow> clock \<Rightarrow> 'f hal_action \<Rightarrow> ('f, 'w) hal \<Rightarrow> ('f, 'w) hal \<Rightarrow> bool"
  for E F ck where
  api_init: "\<lbrakk>d_api d = ApiIdle; gps_init E I H cbs d = Some (Inr d')\<rbrakk> \<Longrightarrow> hal_act E F ck (ApiInit I H cbs) d d'"
| api_start: "\<lbrakk>d_api d = ApiIdle; gps_start d = (rc, d')\<rbrakk> \<Longrightarrow> hal_act E F ck ApiStart d d'"
| api_stop: "\<lbrakk>d_api d = ApiIdle; gps_stop d = (rc, d')\<rbrakk> \<Longrightarrow> hal_act E F ck ApiStop d d'"
| api_mode: "\<lbrakk>d_api d = ApiIdle; gps_set_position_mode freq (d_state d) = (rc, s)\<rbrakk> \<Longrightarrow>
    hal_act E F ck (ApiMode freq) d (d\<lparr>d_state := s\<rparr>)"
| api_xtra: "\<lbrakk>d_api d = ApiIdle;
      gps_xtra_inject_xtra_data E (h_init (d_state d) \<noteq> STATE_QUIT) data len (d_rpc d) = Some (Inr (rc, rpc))\<rbrakk> \<Longrightarrow>
    hal_act E F ck (ApiXtra data len) d (d\<lparr>d_rpc := rpc\<rparr>)"
| api_time: "\<lbrakk>d_api d = ApiIdle;
      gps_inject_time E elapsed time timeReference uncert (d_state d) (d_rpc d) = Some (Inr (rc, rpc))\<rbrakk> \<Longrightarrow>
    hal_act E F ck (ApiTime elapsed time timeReference uncert) d (d\<lparr>d_rpc := rpc\<rparr>)"
| api_xtra_init: "\<lbrakk>d_api d = ApiIdle; gps_xtra_init cb (d_state d) = (rc, s)\<rbrakk> \<Longrightarrow>
    hal_act E F ck (ApiXtraInit cb) d (d\<lparr>d_state := s\<rparr>)"
| api_agps_init: "d_api d = ApiIdle \<Longrightarrow> hal_act E F ck ApiAgpsInit d (upd_state agps_init d)"
| api_cleanup: "d_api d = ApiIdle \<Longrightarrow> hal_act E F ck ApiCleanup d (gps_cleanup d)"
| api_joined: "\<lbrakk>d_api d = ApiJoin; d_st d = StExit; d_pos d = PosExit; gps_cleanup_joined E d = Some (Inr d')\<rbrakk> \<Longrightarrow>
    hal_act E F ck ApiJoined d d'"
| st_begin: "\<lbrakk>d_st d = StBegin; nmea_reader_init F ck = Some r\<rbrakk> \<Longrightarrow>
    hal_act E F ck StBegins d ((upd_state (\<lambda>s. s\<lparr>h_reader := r\<rparr>) d)\<lparr>d_st := StRun\<rparr>)"
| st_cmd: "\<lbrakk>d_st d = StRun; d_pipe d = cmd # cmds\<rbrakk> \<Longrightarrow>
    hal_act E F ck (StCmd created) d (state_cmd created cmd (d\<lparr>d_pipe := cmds\<rparr>))"
| st_bytes: "\<lbrakk>d_st d = StRun; length bs \<le> 512; state_bytes F ck bs d = Some d'\<rbrakk> \<Longrightarrow> hal_act E F ck (StBytes bs) d d'"
| st_hangup: "d_st d = StRun \<Longrightarrow> hal_act E F ck StHangup d (d\<lparr>d_st := StExit\<rparr>)"
| st_joined: "\<lbrakk>d_st d = StJoin; d_tmr_thread d \<notin> fst ` set (d_timers d);
      exit_gps_rpc E (d_rpc d) = Some (Inr (rc, rpc))\<rbrakk> \<Longrightarrow>
    hal_act E F ck StJoined d (d\<lparr>d_rpc := rpc, d_st := StRun\<rparr>)"
| tmr_begin: "(i, TmrBegin) \<in> set (d_timers d) \<Longrightarrow>
    hal_act E F ck (TmrBegins i) d (set_timer i TmrRound (upd_state (\<lambda>s. s\<lparr>h_reader := timer_begin F (h_reader s)\<rparr>) d))"
| tmr_round: "(i, TmrRound) \<in> set (d_timers d) \<Longrightarrow>
    hal_act E F ck (TmrRounds i) d (set_timer i TmrSleep (upd_state timer_round d))"
| tmr_again: "\<lbrakk>(i, TmrSleep) \<in> set (d_timers d); h_init (d_state d) = STATE_START\<rbrakk> \<Longrightarrow>
    hal_act E F ck (TmrAgain i) d (set_timer i TmrRound d)"
| tmr_end: "\<lbrakk>(i, TmrSleep) \<in> set (d_timers d); h_init (d_state d) \<noteq> STATE_START\<rbrakk> \<Longrightarrow>
    hal_act E F ck (TmrEnds i) d (end_timer i d)"
| pos_outer: "d_pos d = PosOuter \<Longrightarrow>
    hal_act E F ck PosLoop d (d\<lparr>d_pos := (if h_active (d_state d) then PosInner else PosExit)\<rparr>)"
| pos_ask: "\<lbrakk>d_pos d = PosInner; h_started (d_state d); gps_get_position E (d_rpc d) = Some (Inr (rc, rpc))\<rbrakk> \<Longrightarrow>
    hal_act E F ck PosAsk d (d\<lparr>d_rpc := rpc, d_pos := PosAsked\<rparr>)"
| pos_idle: "\<lbrakk>d_pos d = PosInner; \<not> h_started (d_state d)\<rbrakk> \<Longrightarrow> hal_act E F ck PosNoAsk d (d\<lparr>d_pos := PosIdle\<rparr>)"
| pos_wait_ready: "d_pos d = PosAsked \<Longrightarrow> hal_act E F ck PosWaits d (d\<lparr>d_pos := PosWaitReady\<rparr>)"
| pos_wait_start: "d_pos d = PosIdle \<Longrightarrow> hal_act E F ck PosWaitsStart d (d\<lparr>d_pos := PosWaitStart\<rparr>)"
| pos_spurious: "hal_act E F ck SpuriousReady d (signal_ready d)"
| pos_spurious_start: "hal_act E F ck SpuriousStart d (signal_position d)"
| modem_event: "reportable (d_rpc d) e \<Longrightarrow> hal_act E F ck (ModemEvent e) d (hal_on_event e d)"

definition hal_step :: "'w rpc_env \<Rightarrow> 'f fops \<Rightarrow> clock \<Rightarrow> ('f, 'w) hal \<Rightarrow> ('f, 'w) hal \<Rightarrow> bool" where
  "hal_step E F ck d d' \<longleftrightarrow> (\<exists>a. hal_act E F ck a d d')"

text \<open>A run with given labels.\<close>

fun hal_run :: "'w rpc_env \<Rightarrow> 'f fops \<Rightarrow> clock \<Rightarrow> 'f hal_action list \<Rightarrow> ('f, 'w) hal \<Rightarrow> ('f, 'w) hal \<Rightarrow> bool" where
  "hal_run E F ck [] d d' \<longleftrightarrow> d' = d"
| "hal_run E F ck (a # as) d d' \<longleftrightarrow> (\<exists>d1. hal_act E F ck a d d1 \<and> hal_run E F ck as d1 d')"

lemma hal_stepI: "hal_act E F ck a d d' \<Longrightarrow> hal_step E F ck d d'"
  by (auto simp: hal_step_def)

lemma hal_run_append [simp]: "hal_run E F ck (as @ bs) d d' \<longleftrightarrow> (\<exists>d1. hal_run E F ck as d d1 \<and> hal_run E F ck bs d1 d')"
  by (induction as arbitrary: d) auto

lemma hal_run_steps: "hal_run E F ck as d d' \<Longrightarrow> steps (hal_step E F ck) d d'"
proof (induction as arbitrary: d)
  case (Cons a as)
  then obtain d1 where "hal_act E F ck a d d1" "steps (hal_step E F ck) d1 d'" by auto
  then show ?case using steps_trans [OF steps_one [of "hal_step E F ck"]] hal_stepI by metis
qed (simp add: steps_refl)

text \<open>A step is determined by its label: all that is not in the label is a function of the state.\<close>

inductive_simps hal_act_simps:
  "hal_act E F ck (ApiInit I H cbs) d d'" "hal_act E F ck ApiStart d d'" "hal_act E F ck ApiStop d d'"
  "hal_act E F ck (ApiMode freq) d d'" "hal_act E F ck (ApiXtra data len) d d'" "hal_act E F ck (ApiTime elapsed time ref uncert) d d'"
  "hal_act E F ck (ApiXtraInit cb) d d'" "hal_act E F ck ApiAgpsInit d d'" "hal_act E F ck ApiCleanup d d'" "hal_act E F ck ApiJoined d d'"
  "hal_act E F ck StBegins d d'" "hal_act E F ck (StCmd created) d d'" "hal_act E F ck (StBytes bs) d d'"
  "hal_act E F ck StHangup d d'" "hal_act E F ck StJoined d d'"
  "hal_act E F ck (TmrBegins i) d d'" "hal_act E F ck (TmrRounds i) d d'" "hal_act E F ck (TmrAgain i) d d'" "hal_act E F ck (TmrEnds i) d d'"
  "hal_act E F ck PosLoop d d'" "hal_act E F ck PosAsk d d'" "hal_act E F ck PosNoAsk d d'" "hal_act E F ck PosWaits d d'"
  "hal_act E F ck PosWaitsStart d d'" "hal_act E F ck SpuriousReady d d'" "hal_act E F ck SpuriousStart d d'"
  "hal_act E F ck (ModemEvent e) d d'"

lemma hal_act_determined: "hal_act E F ck a d d1 \<Longrightarrow> hal_act E F ck a d d2 \<Longrightarrow> d2 = d1"
  by (cases a) (auto simp: hal_act_simps)

lemma hal_run_determined: "hal_run E F ck as d d1 \<Longrightarrow> hal_run E F ck as d d2 \<Longrightarrow> d2 = d1"
proof (induction as arbitrary: d)
  case (Cons a as)
  then show ?case using hal_act_determined by (metis hal_run.simps(2))
qed simp

subsection \<open>Lemmas: what the operations leave alone\<close>

lemma update_select [simp]:
  "h_init (update_gps_location l s) = h_init s"
  "h_started (update_gps_location l s) = h_started s"
  "h_active (update_gps_location l s) = h_active s"
  "h_reader (update_gps_location l s) = h_reader s"
  "h_init (update_gps_status v s) = h_init s"
  "h_started (update_gps_status v s) = h_started s"
  "h_active (update_gps_status v s) = h_active s"
  "h_reader (update_gps_status v s) = h_reader s"
  "h_init (update_gps_svstatus sv s) = h_init s"
  "h_started (update_gps_svstatus sv s) = h_started s"
  "h_active (update_gps_svstatus sv s) = h_active s"
  "h_reader (update_gps_svstatus sv s) = h_reader s"
  "h_init (update_gps_nmea n s) = h_init s"
  "h_started (update_gps_nmea n s) = h_started s"
  "h_active (update_gps_nmea n s) = h_active s"
  "h_reader (update_gps_nmea n s) = h_reader s"
  "h_init (xtra_download_request s) = h_init s"
  "h_started (xtra_download_request s) = h_started s"
  by (simp_all add: xtra_download_request_def update_gps_location_def update_gps_status_def update_gps_svstatus_def
      update_gps_nmea_def report_if_def)

lemma fold_nmea_select [simp]:
  "h_init (fold update_gps_nmea ls s) = h_init s" "h_started (fold update_gps_nmea ls s) = h_started s"
  "h_active (fold update_gps_nmea ls s) = h_active s"
  by (induction ls arbitrary: s) simp_all

lemma timer_round_select [simp]:
  "h_init (timer_round s) = h_init s" "h_started (timer_round s) = h_started s"
  "h_active (timer_round s) = h_active s"
  by (simp_all add: timer_round_def timer_svs_def timer_location_def Let_def)

lemma hal_select [simp]:
  "d_state (signal_ready d) = d_state d"
  "d_st (signal_ready d) = d_st d"
  "d_tmr_thread (signal_ready d) = d_tmr_thread d"
  "d_pipe (signal_ready d) = d_pipe d"
  "d_api (signal_ready d) = d_api d"
  "d_rpc (signal_ready d) = d_rpc d"
  "d_state (signal_position d) = d_state d"
  "d_st (signal_position d) = d_st d"
  "d_tmr_thread (signal_position d) = d_tmr_thread d"
  "d_pipe (signal_position d) = d_pipe d"
  "d_api (signal_position d) = d_api d"
  "d_rpc (signal_position d) = d_rpc d"
  "d_state (set_timer i pc d) = d_state d"
  "d_st (set_timer i pc d) = d_st d"
  "d_tmr_thread (set_timer i pc d) = d_tmr_thread d"
  "d_pipe (set_timer i pc d) = d_pipe d"
  "d_api (set_timer i pc d) = d_api d"
  "d_rpc (set_timer i pc d) = d_rpc d"
  "d_state (end_timer i d) = d_state d"
  "d_st (end_timer i d) = d_st d"
  "d_tmr_thread (end_timer i d) = d_tmr_thread d"
  "d_pipe (end_timer i d) = d_pipe d"
  "d_api (end_timer i d) = d_api d"
  "d_rpc (end_timer i d) = d_rpc d"
  "d_timers (signal_ready d) = d_timers d"
  "d_timers (signal_position d) = d_timers d"
  "d_pos (set_timer i pc d) = d_pos d"
  "d_pos (end_timer i d) = d_pos d"
  "d_st (upd_state g d) = d_st d"
  "d_pos (upd_state g d) = d_pos d"
  "d_tmr_thread (upd_state g d) = d_tmr_thread d"
  "d_pipe (upd_state g d) = d_pipe d"
  "d_api (upd_state g d) = d_api d"
  "d_rpc (upd_state g d) = d_rpc d"
  "d_timers (upd_state g d) = d_timers d"
  "d_state (upd_state g d) = g (d_state d)"
  by (simp_all add: signal_ready_def signal_position_def set_timer_def end_timer_def upd_state_def)

lemma timers_select [simp]:
  "length (d_timers (set_timer i pc d)) = length (d_timers d)"
  "d_timers (set_timer i pc d) = [] \<longleftrightarrow> d_timers d = []"
  by (simp_all add: set_timer_def)

lemma timers_same [simp]:
  "(\<forall>p \<in> set (d_timers (set_timer i pc d)). fst p = t) \<longleftrightarrow> (\<forall>p \<in> set (d_timers d). fst p = t)"
proof -
  have "map fst (d_timers (set_timer i pc d)) = map fst (d_timers d)" by (simp add: set_timer_def)
  then have "fst ` set (d_timers (set_timer i pc d)) = fst ` set (d_timers d)" by (metis set_map)
  then show ?thesis by (metis (mono_tags, lifting) image_iff)
qed

lemma end_timer_same:
  "\<forall>p \<in> set (d_timers d). fst p = t \<Longrightarrow> \<forall>p \<in> set (d_timers (end_timer i d)). fst p = t"
  by (simp add: end_timer_def)

lemma end_timer_length: "length (d_timers (end_timer i d)) \<le> length (d_timers d)"
  "d_timers (end_timer i d) \<noteq> [] \<Longrightarrow> d_timers d \<noteq> []"
  by (auto simp: end_timer_def)

lemma gps_state_init_Inr:
  assumes "gps_state_init E I H d = Some (Inr d')"
  shows "d_st d' = StBegin" "d_pos d' = PosOuter" "d_timers d' = d_timers d" "d_tmr_thread d' = d_tmr_thread d"
    "h_started (d_state d') = h_started (d_state d)" "h_init (d_state d') = STATE_INIT" "d_api d' = d_api d"
    "h_active (d_state d')"
  using assms by (auto simp: gps_state_init_def Let_def split: if_splits Option.bind_splits sum.splits prod.splits)

lemma gps_init_cases:
  assumes "gps_init E I H cbs d = Some (Inr d')"
  obtains (new) d1 where "h_init (d_state d) = STATE_QUIT" "gps_state_init E I H d = Some (Inr d1)"
      "d' = upd_state (\<lambda>s. s\<lparr>h_callbacks := cbs\<rparr>) d1"
  | (old) "h_init (d_state d) \<noteq> STATE_QUIT" "d' = upd_state (\<lambda>s. s\<lparr>h_callbacks := cbs\<rparr>) d"
  using assms by (auto simp: gps_init_def split: if_splits Option.bind_splits sum.splits)

lemma gps_cleanup_joined_Inr:
  assumes "gps_cleanup_joined E d = Some (Inr d')"
  shows "\<exists>rpc. d' = (gps_state_done_joined d)\<lparr>d_rpc := rpc\<rparr>"
  using assms by (auto simp: gps_cleanup_joined_def split: Option.bind_splits sum.splits)

lemma state_bytes_Some:
  assumes "state_bytes F ck bs d = Some d'"
  shows "\<exists>r ls. d' = upd_state (\<lambda>s. fold update_gps_nmea ls (s\<lparr>h_reader := r\<rparr>)) d"
  using assms by (auto simp: state_bytes_def split: Option.bind_splits prod.splits)

subsection \<open>Invariant: the timer thread\<close>

definition hal_start :: "('f, 'w) hal \<Rightarrow> bool" where
  "hal_start d \<longleftrightarrow> h_init (d_state d) = STATE_QUIT \<and> \<not> h_started (d_state d) \<and> d_st d = StNone \<and>
     d_pos d = PosNone \<and> d_timers d = [] \<and> d_api d = ApiIdle"

definition hal_inv :: "('f, 'w) hal \<Rightarrow> bool" where
  "hal_inv d \<longleftrightarrow>
     (\<forall>p \<in> set (d_timers d). fst p = d_tmr_thread d) \<and> length (d_timers d) \<le> 1 \<and>
     (d_timers d \<noteq> [] \<longrightarrow> h_started (d_state d) \<or> d_st d = StJoin) \<and>
     (d_st d = StJoin \<longrightarrow> \<not> h_started (d_state d) \<and> h_init (d_state d) = STATE_INIT) \<and>
     (h_init (d_state d) = STATE_QUIT \<longrightarrow> d_st d = StNone \<or> d_st d = StExit)"

lemma hal_inv_cmd:
  assumes "hal_inv d" "d_st d = StRun"
  shows "hal_inv (state_cmd created cmd (d\<lparr>d_pipe := cmds\<rparr>))"
  using assms
  by (cases cmd) (auto simp: state_cmd_def hal_inv_def Let_def)

lemma hal_inv_act: "hal_act E F ck a d d' \<Longrightarrow> hal_inv d \<Longrightarrow> hal_inv d'"
proof (induction rule: hal_act.induct)
  case (api_init d I H cbs d')
  from api_init(2) show ?case
  proof (cases rule: gps_init_cases)
    case (new d1)
    with gps_state_init_Inr [OF new(2)] api_init(3) show ?thesis by (auto simp: hal_inv_def)
  next
    case old
    with api_init(3) show ?thesis by (simp add: hal_inv_def)
  qed
next
  case (api_joined d d')
  obtain rpc where "d' = (gps_state_done_joined d)\<lparr>d_rpc := rpc\<rparr>"
    using gps_cleanup_joined_Inr [OF api_joined(4)] by blast
  with api_joined(2,5) show ?case by (simp add: hal_inv_def gps_state_done_joined_def)
next
  case (st_cmd d cmd cmds created)
  then show ?case by (intro hal_inv_cmd)
next
  case (st_bytes d bs d')
  obtain r ls where "d' = upd_state (\<lambda>s. fold update_gps_nmea ls (s\<lparr>h_reader := r\<rparr>)) d"
    using state_bytes_Some [OF st_bytes(3)] by blast
  with st_bytes(4) show ?case by (simp add: hal_inv_def)
next
  case (tmr_end i d)
  then show ?case
    using end_timer_length [of i d] end_timer_same [of d "d_tmr_thread d" i] by (simp add: hal_inv_def)
next
  case (st_joined d rc rpc)
  have "d_timers d = []"
  proof (rule ccontr)
    assume "d_timers d \<noteq> []"
    then have "hd (d_timers d) \<in> set (d_timers d)" by simp
    with st_joined(2,4) show False by (force simp: hal_inv_def)
  qed
  with st_joined show ?case by (simp add: hal_inv_def)
next
  case (api_mode d freq rc s)
  then show ?case by (auto simp: hal_inv_def gps_set_position_mode_def Let_def split: if_splits)
next
  case (modem_event d e)
  then show ?case by (cases e) (simp_all add: hal_inv_def hal_on_event_def pdsm_pd_callback_def)
next
  case (api_xtra_init d cb rc s)
  then show ?case by (auto simp: hal_inv_def gps_xtra_init_def)
qed (simp_all add: hal_inv_def agps_init_def gps_start_def gps_stop_def gps_state_start_def gps_state_stop_def gps_cleanup_def
    gps_state_done_def pdsm_pd_callback_def split: if_splits, auto)

interpretation hal_timer: invariant_system hal_start "hal_step E F ck" hal_inv for E F ck
proof (unfold_locales, goal_cases)
  case (1 s)
  then show ?case by (simp add: hal_start_def hal_inv_def)
next
  case (2 s t)
  then show ?case by (auto simp: hal_step_def intro: hal_inv_act)
qed

subsection \<open>Invariant: a library that cannot be cleaned up\<close>

text \<open>
  The state thread is gone, the position thread is inside its inner loop, \<open>started\<close> is set and the
  framework's thread waits: nobody is left to clear \<open>started\<close>.
\<close>

definition hal_stuck :: "('f, 'w) hal \<Rightarrow> bool" where
  "hal_stuck d \<longleftrightarrow> d_st d = StExit \<and> h_started (d_state d) \<and> h_init (d_state d) \<noteq> STATE_QUIT \<and>
     (d_pos d = PosInner \<or> d_pos d = PosAsked \<or> d_pos d = PosWaitReady) \<and> d_api d = ApiJoin"

lemma hal_stuck_act: "hal_act E F ck a d d' \<Longrightarrow> hal_stuck d \<Longrightarrow> hal_stuck d'"
proof (induction rule: hal_act.induct)
  case (api_init d I H cbs d')
  from api_init(2) show ?case
    by (cases rule: gps_init_cases) (use api_init(3) in \<open>auto simp: hal_stuck_def\<close>)
next
  case (api_mode d freq rc s)
  then show ?case by (auto simp: hal_stuck_def gps_set_position_mode_def Let_def split: if_splits)
next
  case (pos_spurious d)
  then show ?case by (auto simp: hal_stuck_def signal_ready_def)
next
  case (pos_spurious_start d)
  then show ?case by (auto simp: hal_stuck_def signal_position_def)
next
  case (modem_event d e)
  then show ?case
    by (cases e) (auto simp: hal_stuck_def hal_on_event_def pdsm_pd_callback_def signal_ready_def)
qed (auto simp: hal_stuck_def gps_start_def gps_stop_def gps_state_start_def gps_state_stop_def gps_cleanup_def
    gps_state_done_def gps_xtra_init_def agps_init_def split: if_splits)

interpretation hal_hang: invariant_system hal_stuck "hal_step E F ck" hal_stuck for E F ck
  by unfold_locales (auto simp: hal_step_def intro: hal_stuck_act)

subsection \<open>Properties\<close>

text \<open>
  C8: in every state the threads can reach there is at most one timer thread, it is the one the
  library would join, it runs only while the library is started or the state thread waits for its end, and while the
  state thread waits for it the condition of its loop is false.
\<close>

theorem hal_one_timer:
  assumes "hal_start d0" "steps (hal_step E F ck) d0 d"
  shows "length (d_timers d) \<le> 1 \<and> (\<forall>p \<in> set (d_timers d). fst p = d_tmr_thread d) \<and>
     (d_timers d \<noteq> [] \<longrightarrow> h_started (d_state d) \<or> d_st d = StJoin) \<and>
     (d_st d = StJoin \<longrightarrow> h_init (d_state d) \<noteq> STATE_START)"
  using hal_timer.reachable_inv [OF assms] by (auto simp: hal_inv_def)

text \<open>A run up to the timer thread, with a router that refuses the clients: the library starts nevertheless.\<close>

definition demo_gps_state :: "int gps_state" where
  "demo_gps_state = \<lparr>h_init = STATE_QUIT, h_fd = - 1,
     h_callbacks = \<lparr>location_cb = True, status_cb = True, sv_status_cb = True, nmea_cb = True\<rparr>,
     h_download_cb = False, h_agps = False, h_status = 0, h_fix_freq = 0, h_control = (- 1, - 1),
     h_reader = demo_reader, h_started = False, h_active = True, h_reports = []\<rparr>"

definition demo_hal :: "(int, request list) hal" where
  "demo_hal = \<lparr>d_state = demo_gps_state, d_rpc = demo_rpc, d_pipe = [], d_st = StNone, d_pos = PosNone,
     d_tmr_thread = 0, d_timers = [], d_api = ApiIdle\<rparr>"

definition demo_hal_env :: hal_env where
  "demo_hal_env = \<lparr>he_smd = 5, he_sem = True, he_pair = Some (6, 7), he_thread = True, he_pos = True\<rparr>"

lemma demo_gps_init:
  "\<exists>rpc. gps_init demo_modem (demo_init\<lparr>i_clnt := None, i_atl := None\<rparr>) demo_hal_env (h_callbacks demo_gps_state) demo_hal =
     Some (Inr (demo_hal\<lparr>d_state := (update_gps_status GPS_STATUS_ENGINE_ON demo_gps_state)
       \<lparr>h_init := STATE_INIT, h_fix_freq := - 1, h_fd := 5, h_active := True, h_control := (6, 7)\<rparr>,
       d_rpc := rpc, d_st := StBegin, d_pos := PosOuter\<rparr>))"
proof -
  let ?I = "demo_init\<lparr>i_clnt := None, i_atl := None\<rparr>"
  have "k_calloc (e_kernel demo_modem) []" by (simp add: demo_modem_def)
  from register_callbacks_Some [OF this] obtain xp where
    "register_callbacks (e_kernel demo_modem) 0 7 xprt_zero [] = Some (xp, [])" by blast
  then have "\<exists>rpc. init_gps_rpc demo_modem ?I demo_rpc = Some (Inr (0, rpc))"
    by (simp add: init_gps_rpc_def init_leo_def clnt_create_def demo_rpc_def demo_init_def svcrtr_create_def Let_def)
  then show ?thesis
    by (auto simp: gps_init_def gps_state_init_def demo_hal_def demo_hal_env_def upd_state_def demo_gps_state_def
        update_gps_status_def report_if_def)
qed

theorem hal_one_timer_witness:
  "\<exists>d. hal_start demo_hal \<and> steps (hal_step demo_modem demo_fops demo_clock) demo_hal d \<and>
     map snd (d_timers d) = [TmrBegin] \<and> (\<forall>p \<in> set (d_timers d). fst p = d_tmr_thread d) \<and> h_started (d_state d)"
proof -
  let ?R = "hal_step demo_modem demo_fops demo_clock"
  obtain rpc where rpc: "gps_init demo_modem (demo_init\<lparr>i_clnt := None, i_atl := None\<rparr>) demo_hal_env
      (h_callbacks demo_gps_state) demo_hal = Some (Inr (demo_hal\<lparr>d_state :=
        (update_gps_status GPS_STATUS_ENGINE_ON demo_gps_state)\<lparr>h_init := STATE_INIT, h_fix_freq := - 1, h_fd := 5,
          h_active := True, h_control := (6, 7)\<rparr>, d_rpc := rpc, d_st := StBegin, d_pos := PosOuter\<rparr>))"
      (is "_ = Some (Inr ?d1)")
    using demo_gps_init by blast
  define d1 where "d1 = ?d1"
  have d1: "d_st d1 = StBegin" "d_api d1 = ApiIdle" "h_init (d_state d1) = STATE_INIT" "\<not> h_started (d_state d1)"
    "d_pipe d1 = []" "d_timers d1 = []" "d_tmr_thread d1 = 0"
    by (simp_all add: d1_def demo_hal_def demo_gps_state_def)
  obtain r where r: "nmea_reader_init demo_fops demo_clock = Some r"
    by (simp add: nmea_reader_init_def nmea_reader_update_utc_diff_def demo_clock_def sadd_def int32_ok_def Let_def)
  let ?d2 = "(upd_state (\<lambda>s. s\<lparr>h_reader := r\<rparr>) d1)\<lparr>d_st := StRun\<rparr>"
  let ?d3 = "gps_state_start ?d2"
  let ?d4 = "state_cmd True CMD_START (?d3\<lparr>d_pipe := []\<rparr>)"
  have "?R demo_hal d1" by (rule hal_stepI, rule api_init [OF _ rpc [folded d1_def]]) (simp add: demo_hal_def)
  then have "steps ?R demo_hal d1" by (rule steps_one)
  moreover have "?R d1 ?d2" by (rule hal_stepI, rule st_begin [OF d1(1) r])
  ultimately have "steps ?R demo_hal ?d2" by (rule steps_step)
  moreover have "?R ?d2 ?d3" by (rule hal_stepI, rule api_start [where rc = 0]) (use d1 in \<open>simp_all add: gps_start_def\<close>)
  ultimately have "steps ?R demo_hal ?d3" by (rule steps_step)
  moreover have "?R ?d3 ?d4" by (rule hal_stepI, rule st_cmd) (use d1 in \<open>simp_all add: gps_state_start_def\<close>)
  ultimately have st: "steps ?R demo_hal ?d4" by (rule steps_step)
  have s: "hal_start demo_hal" by (simp add: hal_start_def demo_hal_def demo_gps_state_def)
  have "map snd (d_timers ?d4) = [TmrBegin]" "h_started (d_state ?d4)"
    using d1 by (simp_all add: state_cmd_def gps_state_start_def signal_position_def)
  with hal_one_timer [OF s st] s st show ?thesis by (intro exI [of _ ?d4]) (elim conjE, intro conjI)
qed

text \<open>
  C29: when the library is cleaned up while it is started and the position thread is in its request
  loop, the clean-up never returns: after the state thread has taken the quit command, in every later state
  the position thread has not ended, so the framework's thread is never past its joins.
\<close>

theorem hal_cleanup_while_started_hangs:
  assumes "d_st d = StRun" "d_pipe d = CMD_QUIT # cmds" "h_started (d_state d)"
    and "h_init (d_state d) \<noteq> STATE_QUIT" "d_pos d = PosInner \<or> d_pos d = PosAsked \<or> d_pos d = PosWaitReady"
    and "d_api d = ApiJoin"
    and "steps (hal_step E F ck) (state_cmd created CMD_QUIT (d\<lparr>d_pipe := cmds\<rparr>)) d'"
  shows "d_api d' = ApiJoin \<and> d_pos d' \<noteq> PosExit \<and> h_started (d_state d')"
proof -
  let ?d = "state_cmd created CMD_QUIT (d\<lparr>d_pipe := cmds\<rparr>)"
  have "hal_stuck ?d"
    using assms(3-6) by (auto simp: hal_stuck_def state_cmd_def signal_ready_def signal_position_def)
  then have "hal_stuck d'" using assms(7) by (rule hal_hang.inv_steps)
  then show ?thesis by (auto simp: hal_stuck_def)
qed

definition demo_started :: "(int, request list) hal" where
  "demo_started = demo_hal\<lparr>d_state := demo_gps_state\<lparr>h_init := STATE_START, h_started := True\<rparr>, d_st := StRun,
     d_pos := PosWaitReady, d_pipe := [CMD_QUIT], d_api := ApiJoin\<rparr>"

theorem hal_cleanup_while_started_hangs_witness:
  "let d = state_cmd True CMD_QUIT (demo_started\<lparr>d_pipe := []\<rparr>); d' = hal_on_event PositionDone d
   in steps (hal_step demo_modem demo_fops demo_clock) d d' \<and> d_api d' = ApiJoin \<and> d_pos d' \<noteq> PosExit"
proof -
  let ?d = "state_cmd True CMD_QUIT (demo_started\<lparr>d_pipe := []\<rparr>)"
  have st: "steps (hal_step demo_modem demo_fops demo_clock) ?d (hal_on_event PositionDone ?d)"
    by (rule steps_one, rule hal_stepI, rule modem_event) (simp add: reportable_def)
  have "d_api (hal_on_event PositionDone ?d) = ApiJoin \<and> d_pos (hal_on_event PositionDone ?d) \<noteq> PosExit \<and>
      h_started (d_state (hal_on_event PositionDone ?d))"
    by (rule hal_cleanup_while_started_hangs [OF _ _ _ _ _ _ st]) (simp_all add: demo_started_def demo_gps_state_def)
  with st show ?thesis by (simp add: Let_def)
qed

lemma ucast_word_of_int: "ucast (word_of_int k :: u64) = (word_of_int k :: u32)"
  by transfer (simp add: take_bit_take_bit)

lemma timer_sleep_seconds:
  assumes "1 \<le> h_fix_freq s" "h_fix_freq s \<le> 1800"
  shows "map_option unat (timer_sleep s) = Some (nat (h_fix_freq s) * 1000000 - 500000)"
proof -
  have "timer_sleep s = Some (word_of_int (h_fix_freq s * 1000000 - 500000))"
    using assms by (simp add: timer_sleep_def smul_def sadd_def int32_ok_def ucast_word_of_int del: of_int_mult of_int_diff)
  moreover have "unat (word_of_int (k * 1000000 - 500000) :: u32) = nat k * 1000000 - 500000"
    if "1 \<le> k" "k \<le> 1800" for k :: int
    using that by (simp add: unsigned_of_int take_bit_int_eq_self nat_diff_distrib nat_mult_distrib
        del: of_int_mult of_int_diff)
  ultimately show ?thesis using assms by simp
qed

text \<open>
  A fix interval the framework sets is kept between 1 and 1800 seconds when it is not negative, and the timer
  thread then sleeps for half a second less without overflow. With the interval of a new session, which
  no call has set, the sleep is 4293467296 microseconds, and below -2147 the multiplication overflows.
\<close>

theorem gps_fix_interval:
  assumes "h_init s \<noteq> STATE_QUIT" "gps_set_position_mode freq s = (rc, s')"
  shows "rc = 0 \<and>
     (freq \<ge> 0 \<longrightarrow> 1 \<le> h_fix_freq s' \<and> h_fix_freq s' \<le> 1800 \<and> (freq \<noteq> 0 \<and> freq \<le> 1800 \<longrightarrow> h_fix_freq s' = freq) \<and>
        map_option unat (timer_sleep s') = Some (nat (h_fix_freq s') * 1000000 - 500000)) \<and>
     (freq < - 2147 \<longrightarrow> timer_sleep s' = None) \<and>
     (gps_state_init E I H d = Some (Inr d') \<longrightarrow> timer_sleep (d_state d') = Some 4293467296)"
proof -
  have s': "rc = 0" "s' = s\<lparr>h_fix_freq := if freq = 0 then 1 else if freq > 1800 then 1800 else freq\<rparr>"
    using assms by (auto simp: gps_set_position_mode_def Let_def)
  have "freq \<ge> 0 \<longrightarrow> 1 \<le> h_fix_freq s' \<and> h_fix_freq s' \<le> 1800 \<and>
      (freq \<noteq> 0 \<and> freq \<le> 1800 \<longrightarrow> h_fix_freq s' = freq) \<and>
      map_option unat (timer_sleep s') = Some (nat (h_fix_freq s') * 1000000 - 500000)"
    using s'(2) timer_sleep_seconds [of s'] by simp
  moreover have "freq < - 2147 \<longrightarrow> timer_sleep s' = None"
    using s'(2) by (simp add: timer_sleep_def smul_def int32_ok_def)
  moreover have "timer_sleep (d_state d') = Some 4293467296" if "gps_state_init E I H d = Some (Inr d')"
  proof -
    have "h_fix_freq (d_state d') = - 1"
      using that by (auto simp: gps_state_init_def Let_def split: if_splits Option.bind_splits sum.splits prod.splits)
    then show ?thesis by (simp add: timer_sleep_def smul_def sadd_def int32_ok_def)
  qed
  ultimately show ?thesis using s'(1) by blast
qed

theorem gps_fix_interval_witness:
  "(let s' = snd (gps_set_position_mode 3600 (demo_gps_state\<lparr>h_init := STATE_INIT\<rparr>))
    in h_fix_freq s' \<le> 1800 \<and> map_option unat (timer_sleep s') = Some 1799500000)"
  using gps_fix_interval [of "demo_gps_state\<lparr>h_init := STATE_INIT\<rparr>" 3600 0
      "demo_gps_state\<lparr>h_init := STATE_INIT, h_fix_freq := 1800\<rparr>" demo_modem demo_init demo_hal_env demo_hal demo_hal]
  by (simp add: gps_set_position_mode_def)

end
