(* ===== verification/Gps_Shim.thy ===== *)
theory Gps_Shim
  imports Gps_Hal
begin

text \<open>
  The GPS module of the framework, \<open>gpsshim/gps.c\<close>: it wraps the old interface of \<open>libgps\<close> (theory \<open>Gps_Hal\<close>) in the
  interface of the current framework.

  The callbacks of the library are synchronous; each copies its argument into a static structure with a size field and
  asks the framework for a thread that delivers the structure. A thread reads the structure when it runs, so the model keeps the static
  structures and the list of threads that have not run. Neither a copy nor a delivery is atomic, and nothing protects the structures: a
  run of the module says when each copy begins and ends and when each thread begins to read and ends, and a copy that overlaps with
  another copy or a delivery of the same structure is a data race, with the result \<open>None\<close>. The sizes of the
  framework's structures are a parameter. Of a status of the assisted GPS and of the flags of its radio part
  the thread gets the address of a local variable of a function that has returned: running such a thread is \<open>None\<close>, as is
  a callback before the callbacks are set.
\<close>

subsection \<open>Data\<close>

record shim_sizes =
  sz_GpsLocation :: nat
  sz_GpsStatus :: nat
  sz_GpsSvStatus :: nat
  sz_GpsSvInfo :: nat

record 'f NewGpsLocation =
  nl_size :: nat
  nl_flags :: u16
  nl_latitude :: 'f
  nl_longitude :: 'f
  nl_altitude :: 'f
  nl_speed :: 'f
  nl_bearing :: 'f
  nl_accuracy :: 'f
  nl_timestamp :: int

record NewGpsStatus =
  ns_size :: nat
  ns_status :: int

record 'f NewGpsSvInfo =
  ni_size :: nat
  ni_prn :: int
  ni_snr :: 'f
  ni_elevation :: 'f
  ni_azimuth :: 'f

record 'f NewGpsSvStatus =
  nv_size :: nat
  nv_num_svs :: int
  nv_sv_list :: "'f NewGpsSvInfo list"
  nv_ephemeris_mask :: u32
  nv_almanac_mask :: u32
  nv_used_in_fix_mask :: u32

datatype shim_thread = LocationThread | StatusThread | SvStatusThread | NmeaThread | XtraThread | AgpsThread | RilThread

datatype 'f shim_report =
    NewLocation "'f NewGpsLocation"
  | NewStatus NewGpsStatus
  | NewSvStatus "'f NewGpsSvStatus"
  | NewNmea int "u8 list" int
  | XtraDownload
  | Capabilities u32
  | AcquireWakelock
  | ReleaseWakelock

record 'f shim =
  originalCallbacks :: bool
  newLocation :: "'f NewGpsLocation"
  newStatus :: NewGpsStatus
  newSvStatus :: "'f NewGpsSvStatus"
  nmeasave :: "int \<times> int"
  newAGpsCallbacks :: bool
  newAGpsRilCallbacks :: bool
  newXtraCallbacks :: bool
  sh_threads :: "shim_thread list"
  sh_reports :: "'f shim_report list"

definition create_thread :: "shim_thread \<Rightarrow> 'f shim \<Rightarrow> 'f shim" where
  "create_thread t s = s\<lparr>sh_threads := sh_threads s @ [t]\<rparr>"

definition to_framework :: "'f shim_report \<Rightarrow> 'f shim \<Rightarrow> 'f shim" where
  "to_framework r s = s\<lparr>sh_reports := sh_reports s @ [r]\<rparr>"

subsection \<open>The callbacks of the library\<close>

definition new_location :: "shim_sizes \<Rightarrow> 'f GpsLocation \<Rightarrow> 'f NewGpsLocation" where
  "new_location Z location =
     \<lparr>nl_size = sz_GpsLocation Z, nl_flags = loc_flags location, nl_latitude = latitude location,
      nl_longitude = longitude location, nl_altitude = altitude location, nl_speed = speed location,
      nl_bearing = bearing location, nl_accuracy = accuracy location, nl_timestamp = timestamp location\<rparr>"

definition location_callback_wrapper :: "shim_sizes \<Rightarrow> 'f GpsLocation \<Rightarrow> 'f shim \<Rightarrow> 'f shim option" where
  "location_callback_wrapper Z location s =
     (if originalCallbacks s then Some (create_thread LocationThread (s\<lparr>newLocation := new_location Z location\<rparr>)) else None)"

definition status_callback_wrapper :: "shim_sizes \<Rightarrow> int \<Rightarrow> 'f shim \<Rightarrow> 'f shim option" where
  "status_callback_wrapper Z status s =
     (if originalCallbacks s
      then Some (create_thread StatusThread (s\<lparr>newStatus := \<lparr>ns_size = sz_GpsStatus Z, ns_status = status\<rparr>\<rparr>)) else None)"

definition new_sv_info :: "shim_sizes \<Rightarrow> 'f GpsSvInfo \<Rightarrow> 'f NewGpsSvInfo" where
  "new_sv_info Z i = \<lparr>ni_size = sz_GpsSvInfo Z, ni_prn = prn i, ni_snr = snr i, ni_elevation = elevation i, ni_azimuth = azimuth i\<rparr>"

text \<open>The loop over the satellites, from index \<open>i\<close> on.\<close>

function sv_copy :: "shim_sizes \<Rightarrow> 'f GpsSvInfo list \<Rightarrow> int \<Rightarrow> int \<Rightarrow> 'f NewGpsSvInfo list \<Rightarrow> 'f NewGpsSvInfo list option" where
  "sv_copy Z old n i new =
     (if i < n then
        do { x \<leftarrow> mem_get old i;
             new \<leftarrow> mem_set new i (new_sv_info Z x);
             sv_copy Z old n (i + 1) new }
      else Some new)"
  by pat_completeness auto
termination
  by (relation "measure (\<lambda>(_, _, n, i, _). nat (n - i))") auto

declare sv_copy.simps [simp del]

definition svstatus_callback_wrapper :: "shim_sizes \<Rightarrow> 'f GpsSvStatus \<Rightarrow> 'f shim \<Rightarrow> 'f shim option" where
  "svstatus_callback_wrapper Z sv_info s =
     do { l \<leftarrow> sv_copy Z (sv_list sv_info) (num_svs sv_info) 0 (nv_sv_list (newSvStatus s));
          if originalCallbacks s then
            Some (create_thread SvStatusThread (s\<lparr>newSvStatus :=
              \<lparr>nv_size = sz_GpsSvStatus Z, nv_num_svs = num_svs sv_info, nv_sv_list = l,
               nv_ephemeris_mask = ephemeris_mask sv_info, nv_almanac_mask = almanac_mask sv_info,
               nv_used_in_fix_mask = used_in_fix_mask sv_info\<rparr>\<rparr>))
          else None }"

text \<open>The text is not copied: the thread reads the library's line buffer.\<close>

definition nmea_callback_wrapper :: "int \<Rightarrow> int \<Rightarrow> 'f shim \<Rightarrow> 'f shim option" where
  "nmea_callback_wrapper time n s =
     (if originalCallbacks s then Some (create_thread NmeaThread (s\<lparr>nmeasave := (time, n)\<rparr>)) else None)"

definition agps_status_cb :: "int \<times> int \<Rightarrow> 'f shim \<Rightarrow> 'f shim option" where
  "agps_status_cb status s = (if newAGpsCallbacks s then Some (create_thread AgpsThread s) else None)"

definition agpsril_setid_cb :: "u32 \<Rightarrow> 'f shim \<Rightarrow> 'f shim option" where
  "agpsril_setid_cb flags s = (if newAGpsRilCallbacks s then Some (create_thread RilThread s) else None)"

definition agpsril_refloc_cb :: "u32 \<Rightarrow> 'f shim \<Rightarrow> 'f shim option" where
  "agpsril_refloc_cb flags s = (if newAGpsRilCallbacks s then Some (create_thread RilThread s) else None)"

definition xtra_download_cb :: "'f shim \<Rightarrow> 'f shim option" where
  "xtra_download_cb s = (if newXtraCallbacks s then Some (create_thread XtraThread s) else None)"

text \<open>What a thread delivers; \<open>line\<close> is the content of the library's line buffer at that moment.\<close>

definition thread_report :: "u8 list \<Rightarrow> shim_thread \<Rightarrow> 'f shim \<Rightarrow> 'f shim_report option" where
  "thread_report line t s =
     (case t of
        LocationThread \<Rightarrow> Some (NewLocation (newLocation s))
      | StatusThread \<Rightarrow> Some (NewStatus (newStatus s))
      | SvStatusThread \<Rightarrow> Some (NewSvStatus (newSvStatus s))
      | NmeaThread \<Rightarrow> Some (NewNmea (fst (nmeasave s)) line (snd (nmeasave s)))
      | XtraThread \<Rightarrow> Some XtraDownload
      | AgpsThread \<Rightarrow> None
      | RilThread \<Rightarrow> None)"

definition run_thread :: "u8 list \<Rightarrow> nat \<Rightarrow> 'f shim \<Rightarrow> 'f shim option" where
  "run_thread line i s =
     (if i < length (sh_threads s) then
        do { r \<leftarrow> thread_report line (sh_threads s ! i) s;
             Some (to_framework r (s\<lparr>sh_threads := take i (sh_threads s) @ drop (i + 1) (sh_threads s)\<rparr>)) }
      else None)"

subsection \<open>The interface of the framework\<close>

text \<open>\<open>m_interface\<close>: the table of the old interface has been fetched. The functions below are only reachable after that.\<close>

record ('f, 'w) gps_module =
  m_interface :: bool
  m_shim :: "'f shim"
  m_hal :: "('f, 'w) hal"

definition gps_get_gps_interface :: "('f, 'w) gps_module \<Rightarrow> ('f, 'w) gps_module" where
  "gps_get_gps_interface g = g\<lparr>m_interface := True\<rparr>"

definition old_callbacks :: gps_callbacks where
  "old_callbacks = \<lparr>location_cb = True, status_cb = True, sv_status_cb = True, nmea_cb = True\<rparr>"

text \<open>\<open>caps\<close> are the capability flags of the framework's header.\<close>

definition init_wrapper ::
  "'w rpc_env \<Rightarrow> init_env \<Rightarrow> hal_env \<Rightarrow> u32 \<Rightarrow> ('f, 'w) gps_module \<Rightarrow> (int + ('f, 'w) gps_module) option" where
  "init_wrapper E I H caps g =
     (let sh = to_framework (Capabilities caps) ((m_shim g)\<lparr>originalCallbacks := True\<rparr>) in
      do { r \<leftarrow> gps_init E I H old_callbacks (m_hal g);
           Some (case r of Inl e \<Rightarrow> Inl e | Inr d \<Rightarrow> Inr (g\<lparr>m_shim := sh, m_hal := d\<rparr>)) })"

definition set_position_mode_wrapper ::
  "int \<Rightarrow> u32 \<Rightarrow> ('f, 'w) gps_module \<Rightarrow> int \<times> ('f, 'w) gps_module" where
  "set_position_mode_wrapper recurrence min_interval g =
     (let (rc, s) = gps_set_position_mode (if recurrence \<noteq> 0 then 0 else int (unat (min_interval div 1000))) (d_state (m_hal g))
      in (rc, g\<lparr>m_hal := (m_hal g)\<lparr>d_state := s\<rparr>\<rparr>))"

definition stop_wrapper :: "('f, 'w) gps_module \<Rightarrow> (int \<times> ('f, 'w) gps_module) option" where
  "stop_wrapper g =
     (let (ret, d) = gps_stop (m_hal g) in
      if originalCallbacks (m_shim g) then Some (ret, g\<lparr>m_shim := to_framework ReleaseWakelock (m_shim g), m_hal := d\<rparr>) else None)"

definition start_wrapper :: "('f, 'w) gps_module \<Rightarrow> (int \<times> ('f, 'w) gps_module) option" where
  "start_wrapper g =
     (if originalCallbacks (m_shim g) then
        let (ret, d) = gps_start (m_hal g) in Some (ret, g\<lparr>m_shim := to_framework AcquireWakelock (m_shim g), m_hal := d\<rparr>)
      else None)"

datatype shim_extension = NewXtra | NewAGps

text \<open>The interface of the radio part is not offered by \<open>libgps\<close>, so its wrapper is never reached.\<close>

definition wrapper_get_extension :: "string \<Rightarrow> shim_extension option" where
  "wrapper_get_extension name =
     (if name = ''gps-xtra'' \<and> gps_get_extension name \<noteq> None then Some NewXtra
      else if name = ''agps'' \<and> gps_get_extension name \<noteq> None then Some NewAGps
      else None)"

definition xtra_init_wrapper :: "('f, 'w) gps_module \<Rightarrow> (int \<times> ('f, 'w) gps_module) option" where
  "xtra_init_wrapper g =
     do { sh \<leftarrow> xtra_download_cb ((m_shim g)\<lparr>newXtraCallbacks := True\<rparr>);
          let (rc, s) = gps_xtra_init True (d_state (m_hal g)) in
          Some (rc, g\<lparr>m_shim := sh, m_hal := (m_hal g)\<lparr>d_state := s\<rparr>\<rparr>) }"

definition agps_init_wrapper :: "('f, 'w) gps_module \<Rightarrow> ('f, 'w) gps_module" where
  "agps_init_wrapper g =
     g\<lparr>m_shim := (m_shim g)\<lparr>newAGpsCallbacks := True\<rparr>, m_hal := upd_state agps_init (m_hal g)\<rparr>"

text \<open>The library has no such interface; the function it would provide is a parameter.\<close>

definition agpsril_init_wrapper :: "('f shim \<Rightarrow> 'f shim) \<Rightarrow> 'f shim \<Rightarrow> 'f shim" where
  "agpsril_init_wrapper ril_init s = ril_init (s\<lparr>newAGpsRilCallbacks := True\<rparr>)"

subsection \<open>Runs\<close>

text \<open>A callback of the library; the time of a line is passed on with it.\<close>

definition shim_call :: "shim_sizes \<Rightarrow> int \<Rightarrow> 'f report \<Rightarrow> 'f shim \<Rightarrow> 'f shim option" where
  "shim_call Z time r s =
     (case r of
        LocationCb l \<Rightarrow> location_callback_wrapper Z l s
      | StatusCb v \<Rightarrow> status_callback_wrapper Z v s
      | SvStatusCb v \<Rightarrow> svstatus_callback_wrapper Z v s
      | NmeaCb bs \<Rightarrow> nmea_callback_wrapper time (int (length bs)) s
      | DownloadCb \<Rightarrow> xtra_download_cb s)"

text \<open>The thread a callback asks for; those with a static structure.\<close>

fun kind_of :: "'f report \<Rightarrow> shim_thread" where
  "kind_of (LocationCb l) = LocationThread"
| "kind_of (StatusCb v) = StatusThread"
| "kind_of (SvStatusCb v) = SvStatusThread"
| "kind_of (NmeaCb bs) = NmeaThread"
| "kind_of DownloadCb = XtraThread"

definition has_slot :: "shim_thread \<Rightarrow> bool" where
  "has_slot k \<longleftrightarrow> k \<in> {LocationThread, StatusThread, SvStatusThread, NmeaThread}"

text \<open>The module with the callbacks that have been entered but have not copied their argument, and the threads that are delivering.\<close>

record 'f shim_world =
  sw_shim :: "'f shim"
  sw_copying :: "(int \<times> 'f report) list"
  sw_running :: "shim_thread list"

text \<open>
  A callback is entered; its copy is complete and its thread is created; a thread begins to deliver; its
  delivery is over. The library calls from several threads, so any number of callbacks can be under way.
\<close>

datatype 'f shim_event = Call int "'f report" | Copied nat | Run "u8 list" nat | Exit nat

definition copying_kinds :: "'f shim_world \<Rightarrow> shim_thread list" where
  "copying_kinds w = map (\<lambda>c. kind_of (snd c)) (sw_copying w)"

text \<open>A write of the structure of a kind while it is written or read, or a read while it is written.\<close>

definition races :: "'f shim_event \<Rightarrow> shim_thread \<Rightarrow> 'f shim_world \<Rightarrow> bool" where
  "races e k w \<longleftrightarrow> has_slot k \<and>
     (case e of
        Call t r \<Rightarrow> kind_of r = k \<and> (k \<in> set (sw_running w) \<or> k \<in> set (copying_kinds w))
      | Run line i \<Rightarrow> i < length (sh_threads (sw_shim w)) \<and> sh_threads (sw_shim w) ! i = k \<and> k \<in> set (copying_kinds w)
      | _ \<Rightarrow> False)"

definition remove_nth :: "nat \<Rightarrow> 'a list \<Rightarrow> 'a list" where
  "remove_nth i xs = take i xs @ drop (i + 1) xs"

definition shim_next :: "shim_sizes \<Rightarrow> 'f shim_event \<Rightarrow> 'f shim_world \<Rightarrow> 'f shim_world option" where
  "shim_next Z e w =
     (if \<exists>k \<in> {LocationThread, StatusThread, SvStatusThread, NmeaThread}. races e k w then None
      else
        case e of
          Call t r \<Rightarrow> Some (w\<lparr>sw_copying := sw_copying w @ [(t, r)]\<rparr>)
        | Copied i \<Rightarrow>
            if i < length (sw_copying w) then
              do { s \<leftarrow> shim_call Z (fst (sw_copying w ! i)) (snd (sw_copying w ! i)) (sw_shim w);
                   Some (w\<lparr>sw_shim := s, sw_copying := remove_nth i (sw_copying w)\<rparr>) }
            else None
        | Run line i \<Rightarrow>
            do { s \<leftarrow> run_thread line i (sw_shim w);
                 Some (w\<lparr>sw_shim := s, sw_running := sw_running w @ [sh_threads (sw_shim w) ! i]\<rparr>) }
        | Exit i \<Rightarrow>
            if i < length (sw_running w) then Some (w\<lparr>sw_running := remove_nth i (sw_running w)\<rparr>) else None)"

fun shim_run :: "shim_sizes \<Rightarrow> 'f shim_event list \<Rightarrow> 'f shim_world \<Rightarrow> 'f shim_world option" where
  "shim_run Z [] w = Some w"
| "shim_run Z (e # es) w = do { w \<leftarrow> shim_next Z e w; shim_run Z es w }"

text \<open>Nothing is under way: every callback has returned and every thread has run.\<close>

definition shim_quiet :: "'f shim_world \<Rightarrow> bool" where
  "shim_quiet w \<longleftrightarrow> sh_threads (sw_shim w) = [] \<and> sw_copying w = [] \<and> sw_running w = []"

subsection \<open>A channel from the library to the framework\<close>

text \<open>
  Locations, statuses and satellites are three channels with the same contract: a callback of the channel replaces its
  slot and adds a thread, a thread of the channel delivers the slot, everything else leaves both alone.
\<close>

definition sent_by :: "('f report \<Rightarrow> 'a option) \<Rightarrow> 'f shim_event list \<Rightarrow> 'a list" where
  "sent_by sel es = List.map_filter (\<lambda>e. case e of Call t r \<Rightarrow> sel r | _ \<Rightarrow> None) es"

definition received :: "('f shim_report \<Rightarrow> 'a option) \<Rightarrow> 'f shim_world \<Rightarrow> 'a list" where
  "received got w = List.map_filter got (sh_reports (sw_shim w))"

definition entered :: "('f report \<Rightarrow> 'a option) \<Rightarrow> 'f shim_world \<Rightarrow> 'a list" where
  "entered sel w = List.map_filter (\<lambda>c. sel (snd c)) (sw_copying w)"

text \<open>Every callback of the channel finds the previous one and its thread gone.\<close>

fun prompt :: "shim_sizes \<Rightarrow> shim_thread \<Rightarrow> 'f shim_event list \<Rightarrow> 'f shim_world \<Rightarrow> bool" where
  "prompt Z kind [] w \<longleftrightarrow> True"
| "prompt Z kind (e # es) w \<longleftrightarrow>
     (case e of
        Call t r \<Rightarrow> kind_of r = kind \<longrightarrow>
          kind \<notin> set (sh_threads (sw_shim w)) \<and> kind \<notin> set (sw_running w) \<and> kind \<notin> set (copying_kinds w)
      | _ \<Rightarrow> True) \<and>
     (case shim_next Z e w of None \<Rightarrow> True | Some w' \<Rightarrow> prompt Z kind es w')"

lemma sent_by_simps [simp]:
  "sent_by sel [] = []" "sent_by sel (Run line i # es) = sent_by sel es" "sent_by sel (Copied i # es) = sent_by sel es"
  "sent_by sel (Exit i # es) = sent_by sel es"
  "sent_by sel (Call t r # es) = (case sel r of None \<Rightarrow> sent_by sel es | Some v \<Rightarrow> v # sent_by sel es)"
  unfolding sent_by_def by (simp_all add: map_filter_simps split: option.split)

lemma map_filter_append: "List.map_filter f (xs @ ys) = List.map_filter f xs @ List.map_filter f ys"
  by (simp add: List.map_filter_def)

lemma list_at: "i < length xs \<Longrightarrow> xs = take i xs @ xs ! i # drop (i + 1) xs"
  using id_take_nth_drop [of i xs] by simp

lemma remove_nth_count:
  assumes "i < length ts"
  shows "count_list (remove_nth i ts) k + (if ts ! i = k then 1 else 0) = count_list ts k"
proof -
  have "count_list ts k = count_list (take i ts @ ts ! i # drop (i + 1) ts) k" using list_at [OF assms] by simp
  then show ?thesis by (simp add: count_list_append remove_nth_def)
qed

lemma remove_nth_set: "set (remove_nth i ts) \<subseteq> set ts"
  unfolding remove_nth_def using set_take_subset set_drop_subset by fastforce

lemma remove_nth_filter:
  assumes "i < length xs"
  shows "\<exists>us vs. List.map_filter f xs = us @ (case f (xs ! i) of None \<Rightarrow> [] | Some v \<Rightarrow> [v]) @ vs \<and>
    List.map_filter f (remove_nth i xs) = us @ vs"
proof -
  have "List.map_filter f xs = List.map_filter f (take i xs @ xs ! i # drop (i + 1) xs)" using list_at [OF assms] by simp
  then show ?thesis
    by (intro exI [of _ "List.map_filter f (take i xs)"] exI [of _ "List.map_filter f (drop (i + 1) xs)"])
      (simp add: map_filter_append map_filter_simps remove_nth_def split: option.split)
qed

locale shim_channel =
  fixes Z :: shim_sizes and kind :: shim_thread and sel :: "'f report \<Rightarrow> 'a option"
    and slot :: "'f shim \<Rightarrow> 'a" and got :: "'f shim_report \<Rightarrow> 'a option"
  assumes call_mine: "shim_call Z t r s = Some s' \<Longrightarrow> sel r = Some v \<Longrightarrow>
      slot s' = v \<and> sh_threads s' = sh_threads s @ [kind] \<and> sh_reports s' = sh_reports s"
    and call_other: "shim_call Z t r s = Some s' \<Longrightarrow> sel r = None \<Longrightarrow>
      slot s' = slot s \<and> (\<exists>k. k \<noteq> kind \<and> sh_threads s' = sh_threads s @ [k]) \<and> sh_reports s' = sh_reports s"
    and run_mine: "thread_report line kind s = Some q \<Longrightarrow> got q = Some (slot s)"
    and run_other: "thread_report line k s = Some q \<Longrightarrow> k \<noteq> kind \<Longrightarrow> got q = None"
    and run_slot: "slot (to_framework q (s\<lparr>sh_threads := ts\<rparr>)) = slot s"
    and sel_kind: "sel r = None \<longleftrightarrow> kind_of r \<noteq> kind"
begin

lemma run_step:
  assumes "run_thread line i s = Some s'"
  obtains "i < length (sh_threads s)" "slot s' = slot s" "sh_threads s' = remove_nth i (sh_threads s)"
    "List.map_filter got (sh_reports s') = List.map_filter got (sh_reports s) @ (if sh_threads s ! i = kind then [slot s] else [])"
proof -
  obtain r where i: "i < length (sh_threads s)" and r: "thread_report line (sh_threads s ! i) s = Some r"
      and s': "s' = to_framework r (s\<lparr>sh_threads := take i (sh_threads s) @ drop (i + 1) (sh_threads s)\<rparr>)"
    using assms by (auto simp: run_thread_def split: if_splits Option.bind_splits)
  have "got r = (if sh_threads s ! i = kind then Some (slot s) else None)"
    using run_mine run_other r by auto
  then have "List.map_filter got (sh_reports s') = List.map_filter got (sh_reports s) @ (if sh_threads s ! i = kind then [slot s] else [])"
    by (simp add: s' to_framework_def map_filter_append map_filter_simps)
  then show thesis using that i s' run_slot by (simp add: to_framework_def remove_nth_def)
qed

text \<open>
  What a step does to the channel: a value is entered, an entered value becomes the content of the slot and gets a thread, a thread
  delivers the slot, or nothing happens.
\<close>

definition waiting :: "'f shim_world \<Rightarrow> nat" where
  "waiting w = count_list (sh_threads (sw_shim w)) kind"

lemma step_cases:
  assumes "shim_next Z e w = Some w'"
  obtains (enter) t r v where "e = Call t r" "sel r = Some v" "entered sel w' = entered sel w @ [v]" "received got w' = received got w"
      "waiting w' = waiting w" "slot (sw_shim w') = slot (sw_shim w)" "copying_kinds w' = copying_kinds w @ [kind]"
  | (copy) i us v vs where "e = Copied i" "entered sel w = us @ v # vs" "entered sel w' = us @ vs" "received got w' = received got w"
      "waiting w' = Suc (waiting w)" "slot (sw_shim w') = v"
  | (deliver) line i where "e = Run line i" "entered sel w' = entered sel w" "received got w' = received got w @ [slot (sw_shim w)]"
      "Suc (waiting w') = waiting w" "slot (sw_shim w') = slot (sw_shim w)"
  | (other) "\<And>es. sent_by sel (e # es) = sent_by sel es" "entered sel w' = entered sel w" "received got w' = received got w"
      "waiting w' = waiting w" "slot (sw_shim w') = slot (sw_shim w)"
proof (cases e)
  case (Call t r)
  then have w': "w' = w\<lparr>sw_copying := sw_copying w @ [(t, r)]\<rparr>" using assms by (simp add: shim_next_def split: if_splits)
  show ?thesis
  proof (cases "sel r")
    case None
    then show ?thesis using Call w' by (intro other) (simp_all add: entered_def received_def waiting_def map_filter_append map_filter_simps)
  next
    case (Some v)
    then have "kind_of r = kind" using sel_kind [of r] by auto
    then show ?thesis using Call w' Some
      by (intro enter [of t r v]) (simp_all add: entered_def received_def waiting_def copying_kinds_def map_filter_append map_filter_simps)
  qed
next
  case (Copied i)
  let ?c = "sw_copying w ! i"
  obtain s where i: "i < length (sw_copying w)" and c: "shim_call Z (fst ?c) (snd ?c) (sw_shim w) = Some s"
      and w': "w' = w\<lparr>sw_shim := s, sw_copying := remove_nth i (sw_copying w)\<rparr>"
    using assms Copied by (auto simp: shim_next_def split: if_splits Option.bind_splits)
  obtain us vs where uv: "entered sel w = us @ (case sel (snd ?c) of None \<Rightarrow> [] | Some v \<Rightarrow> [v]) @ vs" "entered sel w' = us @ vs"
    using remove_nth_filter [OF i, of "\<lambda>c. sel (snd c)"] w' by (auto simp: entered_def)
  show ?thesis
  proof (cases "sel (snd ?c)")
    case None
    then show ?thesis using call_other [OF c None] uv Copied w'
      by (intro other) (auto simp: received_def waiting_def count_list_append)
  next
    case (Some v)
    then show ?thesis using call_mine [OF c Some] uv Copied w'
      by (intro copy [of i us v vs]) (auto simp: received_def waiting_def count_list_append)
  qed
next
  case (Run line i)
  obtain s where r: "run_thread line i (sw_shim w) = Some s"
      and w': "w' = w\<lparr>sw_shim := s, sw_running := sw_running w @ [sh_threads (sw_shim w) ! i]\<rparr>"
    using assms Run by (auto simp: shim_next_def split: if_splits Option.bind_splits)
  from r show ?thesis
  proof (rule run_step)
    assume a: "i < length (sh_threads (sw_shim w))" "slot s = slot (sw_shim w)" "sh_threads s = remove_nth i (sh_threads (sw_shim w))"
      "List.map_filter got (sh_reports s) =
        List.map_filter got (sh_reports (sw_shim w)) @ (if sh_threads (sw_shim w) ! i = kind then [slot (sw_shim w)] else [])"
    show ?thesis
    proof (cases "sh_threads (sw_shim w) ! i = kind")
      case True
      then show ?thesis using a remove_nth_count [OF a(1), of kind] Run w'
        by (intro deliver [of line i]) (simp_all add: entered_def received_def waiting_def)
    next
      case False
      then show ?thesis using a remove_nth_count [OF a(1), of kind] Run w'
        by (intro other) (simp_all add: entered_def received_def waiting_def)
    qed
  qed
next
  case (Exit i)
  then have "w' = w\<lparr>sw_running := remove_nth i (sw_running w)\<rparr>" using assms by (simp add: shim_next_def split: if_splits)
  then show ?thesis using Exit by (intro other) (simp_all add: entered_def received_def waiting_def)
qed

text \<open>Whatever the order, nothing is invented and nothing is delivered too often.\<close>

lemma run_conserves:
  assumes "shim_run Z es w = Some w'"
  shows "length (received got w') + waiting w' + length (entered sel w') =
      length (received got w) + waiting w + length (entered sel w) + length (sent_by sel es) \<and>
    set (received got w') \<subseteq>
      set (received got w) \<union> (if 0 < waiting w then {slot (sw_shim w)} else {}) \<union> set (entered sel w) \<union> set (sent_by sel es)"
  using assms
proof (induction es arbitrary: w)
  case Nil
  then show ?case by auto
next
  case (Cons e es)
  obtain w1 where w1: "shim_next Z e w = Some w1" and run: "shim_run Z es w1 = Some w'"
    using Cons.prems by (auto split: Option.bind_splits)
  note IH = Cons.IH [OF run]
  from w1 show ?case
    by (cases rule: step_cases) (use IH in \<open>auto split: if_splits\<close>)
qed

text \<open>What is under way when callbacks are prompt: at most one value, in the slot or on its way to it.\<close>

definition under_way :: "'f shim_world \<Rightarrow> 'a list" where
  "under_way w = (if 0 < waiting w then [slot (sw_shim w)] else []) @ entered sel w"

lemma entered_kinds: "entered sel w = [] \<longleftrightarrow> kind \<notin> set (copying_kinds w)"
proof -
  have "List.map_filter (\<lambda>c. sel (snd c)) cs = [] \<longleftrightarrow> kind \<notin> set (map (\<lambda>c. kind_of (snd c)) cs)" for cs :: "(int \<times> 'f report) list"
  proof (induction cs)
    case (Cons c cs)
    then show ?case using sel_kind [of "snd c"] by (cases "sel (snd c)") (auto simp: map_filter_simps)
  qed (simp add: map_filter_simps)
  then show ?thesis by (simp add: entered_def copying_kinds_def)
qed

lemma run_prompt:
  assumes "shim_run Z es w = Some w'" "prompt Z kind es w" "waiting w + length (entered sel w) \<le> 1"
  shows "received got w' @ under_way w' = received got w @ under_way w @ sent_by sel es \<and> waiting w' + length (entered sel w') \<le> 1"
  using assms
proof (induction es arbitrary: w)
  case Nil
  then show ?case by simp
next
  case (Cons e es)
  obtain w1 where w1: "shim_next Z e w = Some w1" and run: "shim_run Z es w1 = Some w'"
    using Cons.prems by (auto split: Option.bind_splits)
  have p1: "prompt Z kind es w1" using Cons.prems(2) w1 by simp
  note IH = Cons.IH [OF run p1]
  from w1 show ?case
  proof (cases rule: step_cases)
    case (enter t r v)
    then have "waiting w = 0" "entered sel w = []"
      using Cons.prems(2) sel_kind [of r] entered_kinds [of w] by (auto simp: waiting_def count_list_0_iff)
    with IH enter show ?thesis by (simp add: under_way_def)
  next
    case (copy i us v vs)
    then have "us = []" "vs = []" "waiting w = 0" using Cons.prems(3) by auto
    with IH copy show ?thesis by (simp add: under_way_def)
  next
    case (deliver line i)
    then have "waiting w = 1 \<and> length (entered sel w) = 0" using Cons.prems(3) by linarith
    then have "waiting w = 1" "entered sel w = []" by simp_all
    with IH deliver show ?thesis by (simp add: under_way_def)
  next
    case other
    with IH Cons.prems(3) show ?thesis by (simp add: under_way_def)
  qed
qed

text \<open>Prompt callbacks do not race for the structure of the channel.\<close>

lemma prompt_no_race:
  assumes "shim_run Z es w = Some w'" "prompt Z kind (es @ e # fs) w" "waiting w + length (entered sel w) \<le> 1"
  shows "\<not> races e kind w'"
proof -
  have app: "prompt Z kind es w \<and> prompt Z kind (e # fs) w'" using assms(1,2)
    by (induction es arbitrary: w) (auto split: Option.bind_splits option.splits)
  then have "waiting w' + length (entered sel w') \<le> 1" using run_prompt [OF assms(1) _ assms(3)] by blast
  then have one: "kind \<in> set (copying_kinds w') \<Longrightarrow> kind \<notin> set (sh_threads (sw_shim w'))"
    using entered_kinds [of w'] by (cases "entered sel w'") (auto simp: waiting_def count_list_0_iff)
  show ?thesis
  proof
    assume r: "races e kind w'"
    show False
    proof (cases e)
      case (Run line i)
      then have "kind \<in> set (copying_kinds w')" "kind \<in> set (sh_threads (sw_shim w'))"
        using r nth_mem [of i "sh_threads (sw_shim w')"] by (auto simp: races_def)
      with one show False by blast
    qed (use r app in \<open>auto simp: races_def\<close>)
  qed
qed

lemma quiet_idle: "shim_quiet w \<Longrightarrow> waiting w = 0 \<and> entered sel w = []"
  by (simp add: shim_quiet_def waiting_def entered_def map_filter_simps)

text \<open>From one quiet state to another.\<close>

lemma quiet_prompt:
  assumes "shim_run Z es w = Some w'" "prompt Z kind es w" "shim_quiet w" "shim_quiet w'"
  shows "received got w' = received got w @ sent_by sel es"
  using run_prompt [OF assms(1,2)] quiet_idle [OF assms(3)] quiet_idle [OF assms(4)] by (simp add: under_way_def)

lemma quiet_conserves:
  assumes "shim_run Z es w = Some w'" "shim_quiet w" "shim_quiet w'"
  shows "length (received got w') = length (received got w) + length (sent_by sel es) \<and>
    set (received got w') \<subseteq> set (received got w) \<union> set (sent_by sel es)"
  using run_conserves [OF assms(1)] quiet_idle [OF assms(2)] quiet_idle [OF assms(3)] by simp

end

subsection \<open>The three channels\<close>

lemma sv_copy_prefix:
  assumes "sv_copy Z old n i new = Some l" "0 \<le> i" "i \<le> n \<or> n \<le> 0"
  shows "length l = length new \<and> (i < n \<longrightarrow> n \<le> int (length old) \<and> n \<le> int (length new)) \<and>
    (\<forall>k. k < nat i \<longrightarrow> k < length new \<longrightarrow> l ! k = new ! k) \<and>
    (\<forall>k. nat i \<le> k \<longrightarrow> k < nat n \<longrightarrow> l ! k = new_sv_info Z (old ! k))"
  using assms
proof (induction "nat (n - i)" arbitrary: i new)
  case 0
  then have "l = new" by (subst (asm) sv_copy.simps) auto
  then show ?case using 0 by auto
next
  case (Suc m)
  have i: "i < n" using Suc.hyps(2) by simp
  obtain x new' where x: "mem_get old i = Some x" and new': "mem_set new i (new_sv_info Z x) = Some new'"
      and rest: "sv_copy Z old n (i + 1) new' = Some l"
    using Suc.prems(1) i by (subst (asm) sv_copy.simps) (auto split: Option.bind_splits)
  have f: "i < int (length old)" "x = old ! nat i" "i < int (length new)" "new' = new[nat i := new_sv_info Z x]"
    using x new' by (auto simp: mem_get_def mem_set_def split: if_splits)
  have IH: "length l = length new' \<and> (i + 1 < n \<longrightarrow> n \<le> int (length old) \<and> n \<le> int (length new')) \<and>
      (\<forall>k. k < nat (i + 1) \<longrightarrow> k < length new' \<longrightarrow> l ! k = new' ! k) \<and>
      (\<forall>k. nat (i + 1) \<le> k \<longrightarrow> k < nat n \<longrightarrow> l ! k = new_sv_info Z (old ! k))"
    by (rule Suc.hyps(1)) (use Suc.hyps(2) Suc.prems i rest in auto)
  have ni: "l ! nat i = new_sv_info Z (old ! nat i)"
    using IH f Suc.prems(2) by simp
  have len: "n \<le> int (length old) \<and> n \<le> int (length new)" using IH f i by (cases "i + 1 < n") auto
  have keep: "l ! k = new ! k" if "k < nat i" "k < length new" for k
    using IH f that Suc.prems(2) by simp
  have set: "l ! k = new_sv_info Z (old ! k)" if "nat i \<le> k" "k < nat n" for k
    using IH ni that Suc.prems(2) by (cases "k = nat i") auto
  show ?case using IH f len keep set by simp
qed

lemma sv_copy_take:
  assumes "sv_copy Z old n 0 new = Some l"
  shows "take (nat n) l = map (new_sv_info Z) (take (nat n) old)" "length l = length new"
proof -
  have *: "length l = length new \<and> (0 < n \<longrightarrow> n \<le> int (length old) \<and> n \<le> int (length new)) \<and>
      (\<forall>k. k < nat n \<longrightarrow> l ! k = new_sv_info Z (old ! k))"
    using sv_copy_prefix [OF assms _ linear] by auto
  then show "take (nat n) l = map (new_sv_info Z) (take (nat n) old)" by (intro nth_equalityI) auto
  show "length l = length new" using * by simp
qed

definition location_sel :: "shim_sizes \<Rightarrow> 'f report \<Rightarrow> 'f NewGpsLocation option" where
  "location_sel Z r = (case r of LocationCb l \<Rightarrow> Some (new_location Z l) | _ \<Rightarrow> None)"

definition location_got :: "'f shim_report \<Rightarrow> 'f NewGpsLocation option" where
  "location_got r = (case r of NewLocation l \<Rightarrow> Some l | _ \<Rightarrow> None)"

definition status_sel :: "'f report \<Rightarrow> int option" where
  "status_sel r = (case r of StatusCb v \<Rightarrow> Some v | _ \<Rightarrow> None)"

definition status_got :: "'f shim_report \<Rightarrow> int option" where
  "status_got r = (case r of NewStatus v \<Rightarrow> Some (ns_status v) | _ \<Rightarrow> None)"

text \<open>The satellites that count, and the three masks.\<close>

definition svs_sel :: "shim_sizes \<Rightarrow> 'f report \<Rightarrow> ('f NewGpsSvInfo list \<times> u32 \<times> u32 \<times> u32) option" where
  "svs_sel Z r =
     (case r of
        SvStatusCb v \<Rightarrow> Some (map (new_sv_info Z) (take (nat (num_svs v)) (sv_list v)), ephemeris_mask v, almanac_mask v, used_in_fix_mask v)
      | _ \<Rightarrow> None)"

definition svs_of :: "'f NewGpsSvStatus \<Rightarrow> 'f NewGpsSvInfo list \<times> u32 \<times> u32 \<times> u32" where
  "svs_of v = (take (nat (nv_num_svs v)) (nv_sv_list v), nv_ephemeris_mask v, nv_almanac_mask v, nv_used_in_fix_mask v)"

definition svs_got :: "'f shim_report \<Rightarrow> ('f NewGpsSvInfo list \<times> u32 \<times> u32 \<times> u32) option" where
  "svs_got r = (case r of NewSvStatus v \<Rightarrow> Some (svs_of v) | _ \<Rightarrow> None)"

lemmas wrappers = location_callback_wrapper_def status_callback_wrapper_def svstatus_callback_wrapper_def
  nmea_callback_wrapper_def xtra_download_cb_def create_thread_def shim_call_def

interpretation locations: shim_channel Z LocationThread "location_sel Z" newLocation location_got for Z
  by unfold_locales
     (auto simp: wrappers location_sel_def location_got_def thread_report_def to_framework_def
       split: report.splits if_splits Option.bind_splits shim_thread.splits)

interpretation statuses: shim_channel Z StatusThread status_sel "\<lambda>s. ns_status (newStatus s)" status_got for Z
  by unfold_locales
     (auto simp: wrappers status_sel_def status_got_def thread_report_def to_framework_def
       split: report.splits if_splits Option.bind_splits shim_thread.splits)

interpretation satellites: shim_channel Z SvStatusThread "svs_sel Z" "\<lambda>s. svs_of (newSvStatus s)" svs_got for Z
  by unfold_locales
     (auto simp: wrappers svs_sel_def svs_got_def svs_of_def thread_report_def to_framework_def sv_copy_take
       split: report.splits if_splits Option.bind_splits shim_thread.splits)

subsection \<open>Properties\<close>

text \<open>
  C38: between library and framework, in runs of callbacks and threads in any order, with copies and deliveries that take time and without a data
  race, from one state with nothing under way to another: as many locations, statuses and satellite reports are received as the library reported, each
  equal to one it reported. When each callback finds the previous one of its kind returned and its thread gone, exactly what the library reported of
  this kind is received, in order, and no step races for its structure.
\<close>

theorem shim_delivers:
  assumes "shim_run Z es w = Some w'" "shim_quiet w" "shim_quiet w'" "sh_reports (sw_shim w) = []"
  shows "(prompt Z LocationThread es w \<longrightarrow> received location_got w' = sent_by (location_sel Z) es) \<and>
    (prompt Z StatusThread es w \<longrightarrow> received status_got w' = sent_by status_sel es) \<and>
    (prompt Z SvStatusThread es w \<longrightarrow> received svs_got w' = sent_by (svs_sel Z) es) \<and>
    length (received location_got w') = length (sent_by (location_sel Z) es) \<and>
    set (received location_got w') \<subseteq> set (sent_by (location_sel Z) es) \<and>
    length (received status_got w') = length (sent_by status_sel es) \<and>
    set (received status_got w') \<subseteq> set (sent_by status_sel es) \<and>
    length (received svs_got w') = length (sent_by (svs_sel Z) es) \<and>
    set (received svs_got w') \<subseteq> set (sent_by (svs_sel Z) es) \<and>
    (\<forall>k \<in> {LocationThread, StatusThread, SvStatusThread}. \<forall>ds e fs u.
       prompt Z k (ds @ e # fs) w \<and> shim_run Z ds w = Some u \<longrightarrow> \<not> races e k u)"
proof -
  note q = assms(1-3)
  have none: "received location_got w = []" "received status_got w = []" "received svs_got w = []"
    using assms(4) by (simp_all add: received_def map_filter_simps)
  have exact: "prompt Z LocationThread es w \<Longrightarrow> received location_got w' = sent_by (location_sel Z) es"
      "prompt Z StatusThread es w \<Longrightarrow> received status_got w' = sent_by status_sel es"
      "prompt Z SvStatusThread es w \<Longrightarrow> received svs_got w' = sent_by (svs_sel Z) es"
    using locations.quiet_prompt [OF q(1) _ q(2,3)] statuses.quiet_prompt [OF q(1) _ q(2,3)] satellites.quiet_prompt [OF q(1) _ q(2,3)]
      none by simp_all
  have "\<not> races e k u"
    if "k \<in> {LocationThread, StatusThread, SvStatusThread}" "prompt Z k (ds @ e # fs) w" "shim_run Z ds w = Some u" for k ds e fs u
  proof -
    have p: "prompt Z LocationThread (ds @ e # fs) w \<Longrightarrow> \<not> races e LocationThread u"
        "prompt Z StatusThread (ds @ e # fs) w \<Longrightarrow> \<not> races e StatusThread u"
        "prompt Z SvStatusThread (ds @ e # fs) w \<Longrightarrow> \<not> races e SvStatusThread u"
      using locations.prompt_no_race [OF that(3)] locations.quiet_idle [OF q(2)] statuses.prompt_no_race [OF that(3)]
        statuses.quiet_idle [OF q(2)] satellites.prompt_no_race [OF that(3)] satellites.quiet_idle [OF q(2)] by simp_all
    from that(1) show ?thesis by (elim insertE emptyE) (use p that(2) in auto)
  qed
  then have free: "\<forall>k \<in> {LocationThread, StatusThread, SvStatusThread}. \<forall>ds e fs u.
       prompt Z k (ds @ e # fs) w \<and> shim_run Z ds w = Some u \<longrightarrow> \<not> races e k u" by blast
  show ?thesis
    using locations.quiet_conserves [OF q] statuses.quiet_conserves [OF q] satellites.quiet_conserves [OF q]
    unfolding none by (intro conjI impI exact free) simp_all
qed

definition demo_sizes :: shim_sizes where
  "demo_sizes = \<lparr>sz_GpsLocation = 64, sz_GpsStatus = 8, sz_GpsSvStatus = 660, sz_GpsSvInfo = 20\<rparr>"

definition demo_location :: "int \<Rightarrow> int GpsLocation" where
  "demo_location t = \<lparr>loc_flags = 1, latitude = 48, longitude = 11, altitude = 0, speed = 0, bearing = 0, accuracy = 5, timestamp = t\<rparr>"

definition demo_shim :: "int shim" where
  "demo_shim = \<lparr>originalCallbacks = True, newLocation = new_location demo_sizes (demo_location 0),
     newStatus = \<lparr>ns_size = 8, ns_status = 0\<rparr>,
     newSvStatus = \<lparr>nv_size = 660, nv_num_svs = 0, nv_sv_list = [], nv_ephemeris_mask = 0, nv_almanac_mask = 0, nv_used_in_fix_mask = 0\<rparr>,
     nmeasave = (0, 0), newAGpsCallbacks = False, newAGpsRilCallbacks = False, newXtraCallbacks = False,
     sh_threads = [], sh_reports = []\<rparr>"

definition demo_world :: "int shim_world" where
  "demo_world = \<lparr>sw_shim = demo_shim, sw_copying = [], sw_running = []\<rparr>"

definition demo_events :: "int shim_event list" where
  "demo_events = [Call 0 (StatusCb 3), Call 0 (LocationCb (demo_location 1)), Copied 0, Copied 0, Run [] 1, Exit 0,
     Call 0 (LocationCb (demo_location 2)), Run [] 0, Copied 0, Exit 0, Run [] 0, Exit 0]"

lemmas shim_evaluate = shim_next_def wrappers run_thread_def thread_report_def to_framework_def races_def has_slot_def copying_kinds_def
  remove_nth_def

theorem shim_delivers_witness:
  "map_option (received location_got) (shim_run demo_sizes demo_events demo_world) =
     Some [new_location demo_sizes (demo_location 1), new_location demo_sizes (demo_location 2)]"
proof -
  have "\<exists>w'. shim_run demo_sizes demo_events demo_world = Some w' \<and> shim_quiet w'"
    by (simp add: demo_events_def demo_shim_def demo_world_def shim_evaluate shim_quiet_def)
  then obtain w' where w': "shim_run demo_sizes demo_events demo_world = Some w'" "shim_quiet w'" by blast
  have p: "prompt demo_sizes LocationThread demo_events demo_world"
    by (simp add: demo_events_def demo_shim_def demo_world_def shim_evaluate)
  have st: "shim_quiet demo_world" "sh_reports (sw_shim demo_world) = []" by (simp_all add: shim_quiet_def demo_world_def demo_shim_def)
  have "received location_got w' = sent_by (location_sel demo_sizes) demo_events"
    using shim_delivers [OF w'(1) st(1) w'(2) st(2)] p by blast
  then show ?thesis using w'(1) by (simp add: demo_events_def location_sel_def)
qed

text \<open>
  A second location that arrives before the thread of the first has run overwrites the structure the thread is going to
  read: the framework receives the second location twice and the first one never. When it arrives while the thread reads, the two race.
\<close>

theorem shim_location_overwritten:
  assumes "originalCallbacks (sw_shim w)" "shim_quiet w"
  shows "map_option (\<lambda>w. sh_reports (sw_shim w)) (shim_run Z
      [Call t (LocationCb a), Copied 0, Call u (LocationCb b), Copied 0, Run line 0, Exit 0, Run line' 0, Exit 0] w) =
    Some (sh_reports (sw_shim w) @ [NewLocation (new_location Z b), NewLocation (new_location Z b)]) \<and>
    shim_run Z [Call t (LocationCb a), Copied 0, Run line 0, Call u (LocationCb b)] w = None"
  using assms by (simp add: shim_evaluate shim_quiet_def)

theorem shim_location_overwritten_witness:
  "map_option (\<lambda>w. sh_reports (sw_shim w)) (shim_run demo_sizes [Call 0 (LocationCb (demo_location 1)), Copied 0,
      Call 0 (LocationCb (demo_location 2)), Copied 0, Run [] 0, Exit 0, Run [] 0, Exit 0] demo_world) =
     Some [NewLocation (new_location demo_sizes (demo_location 2)), NewLocation (new_location demo_sizes (demo_location 2))]"
  using shim_location_overwritten [of demo_world demo_sizes 0 "demo_location 1" 0 "demo_location 2" "[]" "[]"]
  by (simp add: demo_shim_def demo_world_def shim_quiet_def)

text \<open>
  C39: through the module every fix interval the framework can ask for is safe: the library is set to the interval in
  whole seconds, at least 1 and at most 1800, to 1 for a single fix, and its timer thread then sleeps half a second less than that without
  overflow, although the library itself does not check negative intervals.
\<close>

theorem shim_fix_interval:
  assumes "h_init (d_state (m_hal g)) \<noteq> STATE_QUIT" "set_position_mode_wrapper recurrence min_interval g = (rc, g')"
  shows "rc = 0 \<and>
    h_fix_freq (d_state (m_hal g')) =
      (if recurrence \<noteq> 0 then 1 else max 1 (min 1800 (int (unat min_interval) div 1000))) \<and>
    map_option unat (timer_sleep (d_state (m_hal g'))) = Some (nat (h_fix_freq (d_state (m_hal g'))) * 1000000 - 500000)"
proof -
  have d: "int (unat (min_interval div 1000)) = int (unat min_interval) div 1000"
    by (simp add: unat_div zdiv_int)
  have nn: "0 \<le> int (unat min_interval) div 1000" by (rule pos_imp_zdiv_nonneg_iff [THEN iffD2]) simp_all
  have f: "rc = 0" "h_fix_freq (d_state (m_hal g')) =
      (if recurrence \<noteq> 0 then 1 else max 1 (min 1800 (int (unat min_interval) div 1000)))"
    using assms nn unfolding set_position_mode_wrapper_def d by (auto simp: gps_set_position_mode_def Let_def max_def)
  then show ?thesis using timer_sleep_seconds [of "d_state (m_hal g')"] by (simp add: max_def min_def)
qed

theorem shim_fix_interval_witness:
  "h_fix_freq (d_state (m_hal (snd (set_position_mode_wrapper 0 2500
     \<lparr>m_interface = True, m_shim = demo_shim, m_hal = upd_state (\<lambda>s. s\<lparr>h_init := STATE_INIT\<rparr>) demo_hal\<rparr>)))) = 2"
proof -
  let ?g = "\<lparr>m_interface = True, m_shim = demo_shim, m_hal = upd_state (\<lambda>s. s\<lparr>h_init := STATE_INIT\<rparr>) demo_hal\<rparr>"
  have "h_init (d_state (m_hal ?g)) \<noteq> STATE_QUIT" by (simp add: upd_state_def)
  from shim_fix_interval [OF this surjective_pairing] show ?thesis by simp
qed

end
