(* ===== verification/Gps_Delivery.thy ===== *)
theory Gps_Delivery
  imports Gps_Shim
begin

text \<open>
  A fix end to end: the bytes of the modem's NMEA channel in reads of any size, parsed by the state thread, the round of the timer
  thread that finds the fix due (both \<open>libgps/leo-gps.c\<close>), and the callbacks and threads of \<open>gpsshim/gps.c\<close> up to the framework.
\<close>

subsection \<open>Reads of any size\<close>

lemma fold_nmea_reports:
  "fold update_gps_nmea ls s = s\<lparr>h_reports := h_reports s @ (if nmea_cb (h_callbacks s) then map NmeaCb ls else [])\<rparr>"
  by (induction ls arbitrary: s) (auto simp: update_gps_nmea_def report_if_def)

text \<open>
  Steps that have no part in the delivery: those of the position thread, and the modem's report that a request has ended. They leave
  the state, the timer threads and the configuration alone.
\<close>

fun aside :: "'f hal_action \<Rightarrow> bool" where
  "aside PosLoop = True" | "aside PosAsk = True" | "aside PosNoAsk = True" | "aside PosWaits = True" | "aside PosWaitsStart = True"
| "aside SpuriousReady = True" | "aside SpuriousStart = True" | "aside (ModemEvent PositionDone) = True"
| "aside _ = False"

definition same_delivery :: "('f, 'w) hal \<Rightarrow> ('f, 'w) hal \<Rightarrow> bool" where
  "same_delivery d d' \<longleftrightarrow> d_st d' = d_st d \<and> d_timers d' = d_timers d \<and> g_conf (d_rpc d') = g_conf (d_rpc d)"

lemma get_position_conf:
  assumes "gps_get_position E s = Some (Inr (rc, s'))"
  shows "g_conf s' = g_conf s"
  using assms by (auto simp: gps_get_position_def pdsm_get_position_def pdsm_call_def split: Option.bind_splits if_splits)

lemma aside_act:
  assumes "hal_act E F ck a d d'" "aside a"
  shows "same_delivery d d' \<and> d_state d' = d_state d"
proof (cases a)
  case (ModemEvent e)
  then show ?thesis using assms
    by (cases e) (auto simp: hal_act_simps hal_on_event_def pdsm_pd_callback_def same_delivery_def)
qed (use assms in \<open>auto simp: hal_act_simps same_delivery_def get_position_conf\<close>)

text \<open>The text of several reads is parsed as if it came in one: only its bytes matter, not where a read ends.\<close>

lemma bytes_run:
  assumes "hal_run E F ck as d d'" "filter (\<lambda>a. \<not> aside a) as = map StBytes css"
    and "nmea_feed F ck (get_precision_value (g_conf (d_rpc d))) (h_reader (d_state d)) (concat css) = Some (r, ls)"
  shows "same_delivery d d' \<and> d_state d' = fold update_gps_nmea ls ((d_state d)\<lparr>h_reader := r\<rparr>)"
  using assms
proof (induction as arbitrary: d css ls)
  case Nil
  then show ?case by (auto simp: same_delivery_def)
next
  case (Cons a as)
  obtain d1 where d1: "hal_act E F ck a d d1" "hal_run E F ck as d1 d'" using Cons.prems(1) by auto
  show ?case
  proof (cases "aside a")
    case True
    with aside_act [OF d1(1)] Cons.IH [OF d1(2)] Cons.prems(2,3) show ?thesis by (auto simp: same_delivery_def)
  next
    case False
    then obtain bs css' where a: "a = StBytes bs" "css = bs # css'" "filter (\<lambda>a. \<not> aside a) as = map StBytes css'"
      using Cons.prems(2) by (cases css) auto
    let ?pr = "get_precision_value (g_conf (d_rpc d))"
    obtain r1 l1 l2 where f: "nmea_feed F ck ?pr (h_reader (d_state d)) bs = Some (r1, l1)"
        "nmea_feed F ck ?pr r1 (concat css') = Some (r, l2)" "ls = l1 @ l2"
      using Cons.prems(3) a(2) by (auto simp: feed_append split: Option.bind_splits)
    have "d1 = upd_state (\<lambda>s. fold update_gps_nmea l1 (s\<lparr>h_reader := r1\<rparr>)) d"
      using d1(1) a(1) f(1) by (auto simp: hal_act_simps state_bytes_def)
    then have "same_delivery d d1" "d_state d1 = fold update_gps_nmea l1 ((d_state d)\<lparr>h_reader := r1\<rparr>)"
      by (simp_all add: same_delivery_def)
    with Cons.IH [OF d1(2) a(3), of l2] f(2,3) show ?thesis by (auto simp: same_delivery_def fold_nmea_reports)
  qed
qed

lemma bytes_run_exists:
  assumes "d_st d = StRun" "\<forall>bs \<in> set css. length bs \<le> 512"
    and "nmea_feed F ck (get_precision_value (g_conf (d_rpc d))) (h_reader (d_state d)) (concat css) = Some (r, ls)"
  shows "\<exists>d'. hal_run E F ck (map StBytes css) d d'"
  using assms
proof (induction css arbitrary: d ls)
  case (Cons bs css)
  let ?pr = "get_precision_value (g_conf (d_rpc d))"
  obtain r1 l1 l2 where f: "nmea_feed F ck ?pr (h_reader (d_state d)) bs = Some (r1, l1)"
      "nmea_feed F ck ?pr r1 (concat css) = Some (r, l2)" "ls = l1 @ l2"
    using Cons.prems(3) by (auto simp: feed_append split: Option.bind_splits)
  let ?d1 = "upd_state (\<lambda>s. fold update_gps_nmea l1 (s\<lparr>h_reader := r1\<rparr>)) d"
  have "hal_act E F ck (StBytes bs) d ?d1" using Cons.prems(1,2) f(1) by (intro st_bytes) (simp_all add: state_bytes_def)
  moreover have "\<exists>d'. hal_run E F ck (map StBytes css) ?d1 d'"
    using Cons.prems(1,2) f(2) by (intro Cons.IH [of _ l2]) (simp_all add: upd_state_def fold_nmea_reports)
  ultimately show ?case by auto
qed auto

lemma filter_split_at:
  "filter P as = xs @ y # ys \<Longrightarrow> \<exists>as1 as2. as = as1 @ y # as2 \<and> filter P as1 = xs \<and> filter P as2 = ys"
proof (induction as arbitrary: xs)
  case (Cons a as)
  show ?case
  proof (cases "P a \<and> xs = []")
    case True
    then show ?thesis using Cons.prems by (intro exI [of _ "[]"] exI [of _ as]) simp
  next
    case False
    then have "filter P as = (if P a then tl xs else xs) @ y # ys" using Cons.prems by (cases xs) (auto split: if_splits)
    from Cons.IH [OF this] obtain as1 as2 where "as = as1 @ y # as2" "filter P as1 = (if P a then tl xs else xs)" "filter P as2 = ys" by blast
    then show ?thesis using False Cons.prems by (intro exI [of _ "a # as1"] exI [of _ as2]) (cases xs; auto split: if_splits)
  qed
qed simp

subsection \<open>The timer thread\<close>

text \<open>The location that a round of the timer thread reports, and all it reports.\<close>

definition due_location :: "'f NmeaReader \<Rightarrow> 'f GpsLocation" where
  "due_location r = (fix_loc r)\<lparr>loc_flags := (if fix_flags_cached r > 0 then loc_flags (fix_loc r) OR fix_flags_cached r
     else loc_flags (fix_loc r))\<rparr>"

definition due_reports :: "'f NmeaReader \<Rightarrow> 'f report list" where
  "due_reports r = LocationCb (due_location r) # (if sv_status_changed r then [SvStatusCb (sv_status r)] else [])"

lemma timer_round_reports:
  assumes "h_callbacks s = old_callbacks" "loc_flags (fix_loc (h_reader s)) AND GPS_LOCATION_HAS_LAT_LONG \<noteq> 0"
  shows "h_reports (timer_round s) = h_reports s @ due_reports (h_reader s)"
    "loc_flags (fix_loc (h_reader (timer_round s))) = 0" "\<not> sv_status_changed (h_reader (timer_round s))"
  using assms
  by (auto simp: timer_round_def timer_svs_def timer_location_def due_reports_def due_location_def Let_def update_gps_location_def
      update_gps_svstatus_def report_if_def old_callbacks_def)

subsection \<open>The module\<close>

definition calls :: "'f shim_event list \<Rightarrow> 'f report list" where
  "calls es = List.map_filter (\<lambda>e. case e of Call t r \<Rightarrow> Some r | _ \<Rightarrow> None) es"

lemma sent_by_calls: "sent_by sel es = List.map_filter sel (calls es)"
  by (induction es) (auto simp: calls_def sent_by_def map_filter_simps split: shim_event.splits option.splits)

context shim_channel
begin

lemma prompt_none: "sent_by sel es = [] \<Longrightarrow> prompt Z kind es w"
proof (induction es arbitrary: w)
  case (Cons e es)
  then show ?case using sel_kind by (cases e) (auto split: option.splits)
qed simp

text \<open>A single value needs no luck with the order of the threads.\<close>

lemma prompt_single:
  "waiting w = 0 \<Longrightarrow> kind \<notin> set (sw_running w) \<Longrightarrow> entered sel w = [] \<Longrightarrow> length (sent_by sel es) \<le> 1 \<Longrightarrow> prompt Z kind es w"
proof (induction es arbitrary: w)
  case (Cons e es)
  have idle: "kind \<notin> set (sh_threads (sw_shim w))" "kind \<notin> set (copying_kinds w)"
    using Cons.prems(1,3) entered_kinds [of w] by (simp_all add: waiting_def count_list_0_iff)
  show ?case
  proof (cases "shim_next Z e w")
    case None
    with idle Cons.prems(2) show ?thesis by (auto split: shim_event.splits)
  next
    case (Some w1)
    have run1: "kind \<notin> set (sw_running w1)"
      using Some idle(1) Cons.prems(2) nth_mem [of _ "sh_threads (sw_shim w)"] remove_nth_set
      by (fastforce simp: shim_next_def run_thread_def split: if_splits shim_event.splits Option.bind_splits)
    have "prompt Z kind es w1"
      using Some
    proof (cases rule: step_cases)
      case (enter t r v)
      then have "sent_by sel es = []" using Cons.prems(4) by simp
      then show ?thesis by (rule prompt_none)
    next
      case other
      then show ?thesis using Cons.IH [of w1] Cons.prems run1 by simp
    qed (use Cons.prems in auto)
    with Some idle Cons.prems(2) show ?thesis by (auto split: shim_event.splits)
  qed
qed simp

lemma single_delivered:
  assumes "shim_run Z es w = Some w'" "shim_quiet w" "shim_quiet w'" "length (sent_by sel es) \<le> 1"
  shows "received got w' = received got w @ sent_by sel es"
proof -
  have "prompt Z kind es w" using quiet_idle [OF assms(2)] assms(2,4) by (intro prompt_single) (simp_all add: shim_quiet_def)
  then show ?thesis using assms(1-3) by (intro quiet_prompt)
qed

end

subsection \<open>Properties\<close>

text \<open>
  C3: a fix reaches the framework. Let the state thread run and a timer thread stand before its round, with the callbacks that \<open>gpsshim\<close>
  registers. Let NMEA text come in reads of any size up to 512 bytes, such that parsing the whole text gives reader \<open>r\<close> with a position. In every run of the
  state thread over these reads and then the timer thread over its round, with any steps of the position thread and reported ends of requests in between, the library reports the lines, then
  one location, the fix of \<open>r\<close> with the flags it has accumulated, and the satellites if they changed, and nothing else; afterwards nothing is due. Such a run
  exists. And in every run of \<open>gpsshim\<close>'s callbacks and threads on these reports without a data race, in any order, once nothing is under way the framework has
  received exactly that location, field by field, and those satellites, in addition to what it had.
\<close>

theorem fix_reaches_framework:
  assumes d: "d_st d = StRun" "(i, TmrRound) \<in> set (d_timers d)" "h_callbacks (d_state d) = old_callbacks"
    and bytes: "\<forall>bs \<in> set css. length bs \<le> 512"
      "nmea_feed F ck (get_precision_value (g_conf (d_rpc d))) (h_reader (d_state d)) (concat css) = Some (r, ls)"
    and fix_ok: "loc_flags (fix_loc r) AND GPS_LOCATION_HAS_LAT_LONG \<noteq> 0"
  shows "(\<exists>d'. hal_run E F ck (map StBytes css @ [TmrRounds i]) d d') \<and>
     (\<forall>as d'. hal_run E F ck as d d' \<and> filter (\<lambda>a. \<not> aside a) as = map StBytes css @ [TmrRounds i] \<longrightarrow>
        h_reports (d_state d') = h_reports (d_state d) @ map NmeaCb ls @ due_reports r \<and>
        loc_flags (fix_loc (h_reader (d_state d'))) = 0 \<and> \<not> sv_status_changed (h_reader (d_state d'))) \<and>
     (\<forall>es w w'. calls es = map NmeaCb ls @ due_reports r \<and> shim_quiet w \<and> shim_run Z es w = Some w' \<and> shim_quiet w' \<longrightarrow>
        received location_got w' = received location_got w @ [new_location Z (due_location r)] \<and>
        received svs_got w' = received svs_got w @
          (if sv_status_changed r
           then [(map (new_sv_info Z) (take (nat (num_svs (sv_status r))) (sv_list (sv_status r))), ephemeris_mask (sv_status r),
                  almanac_mask (sv_status r), used_in_fix_mask (sv_status r))] else []))"
proof -
  let ?s1 = "fold update_gps_nmea ls ((d_state d)\<lparr>h_reader := r\<rparr>)"
  have s1: "h_callbacks ?s1 = old_callbacks" "h_reader ?s1 = r" "h_reports ?s1 = h_reports (d_state d) @ map NmeaCb ls"
    using d(3) by (simp_all add: fold_nmea_reports old_callbacks_def)
  note rep = timer_round_reports [OF s1(1), unfolded s1(2), OF fix_ok]
  obtain d1 where d1: "hal_run E F ck (map StBytes css) d d1" using bytes_run_exists [OF d(1) bytes] by blast
  have "filter (\<lambda>a. \<not> aside a) (map StBytes css) = map StBytes css" by (simp add: filter_map o_def)
  then have "d_timers d1 = d_timers d" using bytes_run [OF d1 _ bytes(2)] by (simp add: same_delivery_def)
  then have 1: "\<exists>d'. hal_run E F ck (map StBytes css @ [TmrRounds i]) d d'" using d1 d(2) by (auto simp: hal_act_simps)
  have 2: "d_state d' = timer_round ?s1" if run: "hal_run E F ck as d d'" "filter (\<lambda>a. \<not> aside a) as = map StBytes css @ [TmrRounds i]" for as d'
  proof -
    obtain as1 as2 where a: "as = as1 @ TmrRounds i # as2" "filter (\<lambda>a. \<not> aside a) as1 = map StBytes css" "filter (\<lambda>a. \<not> aside a) as2 = []"
      using filter_split_at [OF run(2)] by blast
    obtain d1 d2 where d12: "hal_run E F ck as1 d d1" "hal_act E F ck (TmrRounds i) d1 d2" "hal_run E F ck as2 d2 d'"
      using run(1) a(1) by auto
    have "d_state d1 = ?s1" using bytes_run [OF d12(1) a(2) bytes(2)] by blast
    then have "d_state d2 = timer_round ?s1" using d12(2) by (auto simp: hal_act_simps set_timer_def upd_state_def)
    then show ?thesis using bytes_run [OF d12(3), of "[]" "h_reader (d_state d2)" "[]"] a(3) by simp
  qed
  have nmea: "List.map_filter (location_sel Z) (map NmeaCb ls) = []" "List.map_filter (svs_sel Z) (map NmeaCb ls) = []"
    by (simp_all add: List.map_filter_def location_sel_def svs_sel_def o_def)
  have sent: "sent_by (location_sel Z) es = [new_location Z (due_location r)]"
      "sent_by (svs_sel Z) es = (if sv_status_changed r
        then [(map (new_sv_info Z) (take (nat (num_svs (sv_status r))) (sv_list (sv_status r))), ephemeris_mask (sv_status r),
               almanac_mask (sv_status r), used_in_fix_mask (sv_status r))] else [])"
    if "calls es = map NmeaCb ls @ due_reports r" for es
    using nmea by (simp_all add: sent_by_calls that map_filter_append due_reports_def map_filter_simps location_sel_def svs_sel_def)
  have 3: "received location_got w' = received location_got w @ sent_by (location_sel Z) es \<and>
      received svs_got w' = received svs_got w @ sent_by (svs_sel Z) es"
    if "calls es = map NmeaCb ls @ due_reports r" "shim_quiet w" "shim_run Z es w = Some w'" "shim_quiet w'" for es w w'
    using locations.single_delivered [OF that(3,2,4)] satellites.single_delivered [OF that(3,2,4)] sent [OF that(1)] by simp
  show ?thesis
    by (intro conjI allI impI; (elim conjE)?) (use 1 2 3 rep s1(3) sent in simp_all)
qed

text \<open>A library with a position in its reader; a short line comes in two reads.\<close>

definition demo_fix_reader :: "int NmeaReader" where
  "demo_fix_reader = demo_reader\<lparr>fix_loc := demo_location 7\<rparr>"

definition demo_fix_hal :: "(int, request list) hal" where
  "demo_fix_hal = demo_hal\<lparr>d_st := StRun, d_timers := [(1, TmrRound)],
     d_state := demo_gps_state\<lparr>h_reader := demo_fix_reader, h_callbacks := old_callbacks, h_reports := []\<rparr>\<rparr>"

lemma demo_fix_feed:
  "\<exists>r. nmea_feed demo_fops demo_clock pr demo_fix_reader (concat [[36, 71], [80, 10]]) = Some (r, []) \<and> fix_loc r = demo_location 7 \<and>
     \<not> sv_status_changed r \<and> fix_flags_cached r = 0"
  using demo_reader_ok
  by (simp add: nmea_reader_addc_def nmea_reader_parse_def mem_set_def demo_fix_reader_def)
    (simp add: demo_reader_def reader_zero_def Let_def)

theorem fix_reaches_framework_witness:
  "\<exists>d' w'. hal_run demo_modem demo_fops demo_clock [StBytes [36, 71], StBytes [80, 10], TmrRounds 1] demo_fix_hal d' \<and>
     h_reports (d_state d') = [LocationCb (demo_location 7)] \<and>
     shim_run demo_sizes [Call 0 (LocationCb (demo_location 7)), Copied 0, Run [] 0, Exit 0] demo_world = Some w' \<and>
     received location_got w' = [new_location demo_sizes (demo_location 7)]"
proof -
  obtain r where r: "nmea_feed demo_fops demo_clock (get_precision_value (g_conf (d_rpc demo_fix_hal))) (h_reader (d_state demo_fix_hal))
        (concat [[36, 71], [80, 10]]) = Some (r, [])" "fix_loc r = demo_location 7" "\<not> sv_status_changed r" "fix_flags_cached r = 0"
    using demo_fix_feed [of "get_precision_value (g_conf (d_rpc demo_fix_hal))"] by (auto simp: demo_fix_hal_def)
  have due: "due_reports r = [LocationCb (demo_location 7)]" "due_location r = demo_location 7"
    using r by (simp_all add: due_reports_def due_location_def demo_location_def)
  have 1: "d_st demo_fix_hal = StRun" "(1, TmrRound) \<in> set (d_timers demo_fix_hal)" "h_callbacks (d_state demo_fix_hal) = old_callbacks"
    "\<forall>bs \<in> set [[36, 71], [80 :: u8, 10]]. length bs \<le> 512"
    by (simp_all add: demo_fix_hal_def)
  have 2: "loc_flags (fix_loc r) AND GPS_LOCATION_HAS_LAT_LONG \<noteq> 0"
    by (simp add: r(2) demo_location_def GPS_LOCATION_HAS_LAT_LONG_def)
  let ?es = "[Call 0 (LocationCb (demo_location 7)), Copied 0, Run [] 0, Exit 0]"
  obtain w' where w': "shim_run demo_sizes ?es demo_world = Some w'" "shim_quiet w'"
    by (auto simp: shim_evaluate demo_shim_def demo_world_def shim_quiet_def)
  have c: "calls ?es = map NmeaCb [] @ due_reports r" by (simp add: due calls_def map_filter_simps)
  have w0: "shim_quiet demo_world" "received location_got demo_world = []"
    by (simp_all add: demo_shim_def demo_world_def shim_quiet_def received_def map_filter_simps)
  note F = fix_reaches_framework [OF 1 r(1) 2, of demo_modem demo_sizes]
  have "received location_got w' = [new_location demo_sizes (demo_location 7)]" using F c w' w0 due(2) by fastforce
  moreover obtain d' where d': "hal_run demo_modem demo_fops demo_clock (map StBytes [[36, 71], [80, 10]] @ [TmrRounds 1]) demo_fix_hal d'"
    using F by blast
  have "h_reports (d_state d') = h_reports (d_state demo_fix_hal) @ map NmeaCb [] @ due_reports r"
    by (rule F [THEN conjunct2, THEN conjunct1, rule_format, THEN conjunct1, OF conjI [OF d']]) simp
  then have "h_reports (d_state d') = [LocationCb (demo_location 7)]" by (simp add: due demo_fix_hal_def)
  ultimately show ?thesis using d' w'(1) by auto
qed

end
