(* ===== verification/Gps_Tracking.thy ===== *)
theory Gps_Tracking
  imports Gps_Hal
begin

text \<open>
  A tracking session of the GPS library, \<open>libgps/leo-gps.c\<close> on top of \<open>libgps/leo-gps-rpc.c\<close>: from the start by the framework
  through any number of position requests, each made when the modem has reported the end of the one before, to the stop, with all
  threads of the library back where they were.
\<close>

subsection \<open>The two requests\<close>

definition rpc_ready :: "u32 \<Rightarrow> 'w gps_rpc \<Rightarrow> bool" where
  "rpc_ready prog s \<longleftrightarrow> clients_ok s \<and> length (client_IDs s) = 16 \<and> client_prog s (g_clnt s) = Some prog"



text \<open>A call leaves what the next one needs, and adds its request to those the modem has taken.\<close>

definition made :: "('w \<Rightarrow> request list) \<Rightarrow> request list \<Rightarrow> 'w gps_rpc \<Rightarrow> 'w gps_rpc \<Rightarrow> bool" where
  "made taken reqs s s' \<longleftrightarrow> taken (g_world s') = taken (g_world s) @ reqs \<and> client_IDs s' = client_IDs s \<and>
     g_conf s' = g_conf s \<and> (\<forall>prog. rpc_ready prog s \<longrightarrow> rpc_ready prog s')"

lemma made_refl [simp]: "made taken [] s s"
  by (simp add: made_def)






subsection \<open>Where the threads stand\<close>
















subsection \<open>Requests one after another\<close>





subsection \<open>Every session\<close>




definition statuses :: "'f gps_state \<Rightarrow> int list" where
  "statuses s = concat (map (\<lambda>r. case r of StatusCb v \<Rightarrow> [v] | _ \<Rightarrow> []) (h_reports s))"


lemma statuses_simps [simp]:
  "statuses (s\<lparr>h_reader := r\<rparr>) = statuses s" "statuses (s\<lparr>h_init := i\<rparr>) = statuses s" "statuses (s\<lparr>h_started := b\<rparr>) = statuses s"
  "statuses (update_gps_location l s) = statuses s" "statuses (update_gps_svstatus sv s) = statuses s"
  "statuses (update_gps_nmea m s) = statuses s" "statuses (xtra_download_request s) = statuses s"
  "statuses (update_gps_status v s) = statuses s @ (if status_cb (h_callbacks s) then [v] else [])"
  by (simp_all add: statuses_def update_gps_location_def update_gps_svstatus_def update_gps_nmea_def xtra_download_request_def
      update_gps_status_def report_if_def)

lemma reports_keep [simp]:
  "h_callbacks (update_gps_location l s) = h_callbacks s" "h_callbacks (update_gps_svstatus sv s) = h_callbacks s"
  "h_callbacks (update_gps_nmea m s) = h_callbacks s" "h_callbacks (xtra_download_request s) = h_callbacks s"
  "h_callbacks (update_gps_status v s) = h_callbacks s" "h_active (xtra_download_request s) = h_active s"
  by (simp_all add: update_gps_location_def update_gps_svstatus_def update_gps_nmea_def xtra_download_request_def
      update_gps_status_def report_if_def)

lemma fold_nmea_statuses [simp]:
  "statuses (fold update_gps_nmea ls s) = statuses s" "h_callbacks (fold update_gps_nmea ls s) = h_callbacks s"
  by (induction ls arbitrary: s) simp_all

lemma timer_round_statuses [simp]:
  "statuses (timer_round s) = statuses s" "h_callbacks (timer_round s) = h_callbacks s"
  by (simp_all add: timer_round_def timer_svs_def timer_location_def Let_def)











subsection \<open>Properties\<close>




end
