(* ===== verification/Input_Reader.thy ===== *)
theory Input_Reader
  imports Prelude
begin

text \<open>
  The ring buffer between an input device and a sensor driver, \<open>libsensors/InputEventReader.cpp\<close>.

  The buffer holds twice the number of events it can keep, so that one \<open>read\<close> can run over the end of
  the ring; \<open>fill\<close> then copies the overhang to the front. Pointers into the buffer are indices.
  \<open>pending\<close> is the queue of unread events a reader stands for, and the theory shows that \<open>fill\<close>,
  \<open>readEvent\<close> and \<open>next\<close> are the operations of that queue. The locale \<open>event_queue\<close> states this contract for the drivers.
\<close>

subsection \<open>Data\<close>

text \<open>\<open>struct input_event\<close> of the Linux input interface.\<close>

record input_event =
  tv_sec :: int
  tv_usec :: int
  ev_type :: int
  ev_code :: int
  ev_value :: int

record input_reader =
  mBuffer :: "input_event list"
  mNum :: nat
  mHead :: nat
  mCurr :: nat
  mFreeSpace :: nat

text \<open>
  What \<open>read\<close> on an input device returns: an error number, or the events it stored and whether the last one is
  incomplete.
\<close>

datatype read_result = ReadError int | ReadEvents "input_event list" bool

definition EINVAL_code :: int where "EINVAL_code = 22"

subsection \<open>Operations\<close>

text \<open>The constructor; \<open>junk\<close> is what the allocated events contain.\<close>

definition new_reader :: "(nat \<Rightarrow> input_event) \<Rightarrow> nat \<Rightarrow> input_reader" where
  "new_reader junk numEvents =
     \<lparr>mBuffer = map junk [0..<numEvents * 2], mNum = numEvents,
      mHead = 0, mCurr = 0, mFreeSpace = numEvents\<rparr>"

text \<open>\<open>fill\<close> after \<open>read\<close> has delivered \<open>evs\<close>.\<close>

definition reader_store :: "input_event list \<Rightarrow> input_reader \<Rightarrow> input_reader option" where
  "reader_store evs r =
     (if evs = [] then Some r
      else
        do { buf \<leftarrow> mem_write (mBuffer r) (int (mHead r)) evs;
             let head = mHead r + length evs;
             let r1 = r\<lparr>mBuffer := buf, mHead := head, mFreeSpace := mFreeSpace r - length evs\<rparr>;
             if head > mNum r then
               do { let s = head - mNum r;
                    over \<leftarrow> mem_read buf (int (mNum r)) s;
                    buf1 \<leftarrow> mem_write buf 0 over;
                    Some (r1\<lparr>mBuffer := buf1, mHead := s\<rparr>) }
             else Some r1 })"

text \<open>
  \<open>fill\<close>, with the outcome of the \<open>read\<close> it makes; \<open>read\<close> stores at most as many events as were asked for.
\<close>

definition reader_fill :: "read_result \<Rightarrow> input_reader \<Rightarrow> (int \<times> input_reader) option" where
  "reader_fill res r =
     (if mFreeSpace r = 0 then Some (0, r)
      else
        case res of
          ReadError e \<Rightarrow> Some (- e, r)
        | ReadEvents evs part \<Rightarrow>
            let evs1 = take (mFreeSpace r) evs in
            if part then
              do { buf \<leftarrow> mem_write (mBuffer r) (int (mHead r)) evs1;
                   Some (- EINVAL_code, r\<lparr>mBuffer := buf\<rparr>) }
            else do { r1 \<leftarrow> reader_store evs1 r; Some (int (length evs1), r1) })"

text \<open>\<open>readEvent\<close>: the event at \<open>mCurr\<close> when there is one.\<close>

definition readEvent :: "input_reader \<Rightarrow> input_event option option" where
  "readEvent r =
     (if mNum r - mFreeSpace r = 0 then Some None
      else map_option Some (mem_get (mBuffer r) (int (mCurr r))))"

definition next_event :: "input_reader \<Rightarrow> input_reader" where
  "next_event r =
     (let c = mCurr r + 1
      in r\<lparr>mCurr := (if c \<ge> mNum r then 0 else c), mFreeSpace := mFreeSpace r + 1\<rparr>)"

subsection \<open>The queue a reader stands for\<close>

definition ring_ok :: "input_reader \<Rightarrow> bool" where
  "ring_ok r \<longleftrightarrow>
     0 < mNum r \<and> length (mBuffer r) = 2 * mNum r \<and> mCurr r < mNum r \<and> mFreeSpace r \<le> mNum r \<and>
     mHead r \<le> mNum r \<and> mHead r mod mNum r = (mCurr r + (mNum r - mFreeSpace r)) mod mNum r"

definition pending :: "input_reader \<Rightarrow> input_event list" where
  "pending r = map (\<lambda>i. mBuffer r ! ((mCurr r + i) mod mNum r)) [0..<mNum r - mFreeSpace r]"

lemma length_pending [simp]: "length (pending r) = mNum r - mFreeSpace r"
  by (simp add: pending_def)

lemma new_ring_ok:
  assumes "0 < n"
  shows "ring_ok (new_reader junk n)" "pending (new_reader junk n) = []"
  using assms by (simp_all add: ring_ok_def pending_def new_reader_def)

text \<open>Where the events of a store end up, by position in the ring.\<close>

lemma store_ring:
  assumes h: "h \<le> N" and len: "length buf = 2 * N" and k: "length evs \<le> N" "0 < N"
    and w: "mem_write buf (int h) evs = Some buf1"
    and w2: "buf2 = (if h + length evs > N then take (h + length evs - N) (drop N buf1) @ drop (h + length evs - N) buf1 else buf1)"
  shows "length buf2 = 2 * N"
    and "i < length evs \<Longrightarrow> buf2 ! ((h + i) mod N) = evs ! i"
    and "p < N \<Longrightarrow> \<forall>i < length evs. p \<noteq> (h + i) mod N \<Longrightarrow> buf2 ! p = buf ! p"
proof -
  let ?k = "length evs"
  have buf1: "buf1 = take h buf @ evs @ drop (h + ?k) buf" and l1: "length buf1 = 2 * N"
    using w len by (auto simp: mem_write_Some_iff)
  show "length buf2 = 2 * N" using l1 h k w2 by auto
  have at: "buf1 ! p = (if p < h then buf ! p else if p < h + ?k then evs ! (p - h) else buf ! p)"
    if "p < 2 * N" for p
    using that h k len by (auto simp: buf1 nth_append min_def)
  have at2: "buf2 ! p = (if p + N < h + ?k then buf1 ! (N + p) else buf1 ! p)" if "p < N" for p
    using that l1 h k by (auto simp: w2 nth_append min_def)
  have md: "(h + i) mod N = (if h + i < N then h + i else h + i - N)" if "i < ?k" for i
    using that h k by (auto simp: mod_if)
  show "buf2 ! ((h + i) mod N) = evs ! i" if "i < ?k"
    using that md [OF that] h k at at2 by (cases "h + i < N") auto
  show "buf2 ! p = buf ! p" if p: "p < N" and "\<forall>i < ?k. p \<noteq> (h + i) mod N"
  proof -
    have "\<not> (h \<le> p \<and> p < h + ?k)"
    proof
      assume a: "h \<le> p \<and> p < h + ?k"
      then have "p - h < ?k" "h + (p - h) = p" by auto
      with that md [of "p - h"] show False by auto
    qed
    moreover have "\<not> p + N < h + ?k"
    proof
      assume a: "p + N < h + ?k"
      then have "p + N - h < ?k" "h + (p + N - h) = p + N" using h by auto
      with that md [of "p + N - h"] show False by auto
    qed
    ultimately show ?thesis using p at [of p] at2 [OF p] by auto
  qed
qed

text \<open>The next free places of the ring are not those of unread events.\<close>

lemma ring_free:
  assumes ok: "ring_ok r" and j: "j < mNum r - mFreeSpace r" and i: "i < mFreeSpace r"
  shows "(mCurr r + j) mod mNum r \<noteq> (mHead r + i) mod mNum r"
proof
  let ?N = "mNum r" and ?a = "mNum r - mFreeSpace r"
  assume e: "(mCurr r + j) mod ?N = (mHead r + i) mod ?N"
  have "(mHead r + i) mod ?N = (mCurr r + (?a + i)) mod ?N"
    using ok by (metis ring_ok_def add.assoc mod_add_left_eq)
  with e have "(mCurr r + (?a + i)) mod ?N = (mCurr r + j) mod ?N" by simp
  then have "?N dvd ?a + i - j" using j by (subst (asm) mod_eq_dvd_iff_nat) auto
  moreover have "0 < ?a + i - j" "?a + i - j < ?N" using i j ok by (auto simp: ring_ok_def)
  ultimately show False using nat_dvd_not_less by blast
qed

lemma reader_store_queue:
  assumes ok: "ring_ok r" and room: "length evs \<le> mFreeSpace r"
  shows "\<exists>r'. reader_store evs r = Some r' \<and> ring_ok r' \<and> pending r' = pending r @ evs \<and>
     mNum r' = mNum r \<and> mCurr r' = mCurr r \<and> mFreeSpace r' = mFreeSpace r - length evs"
proof (cases "evs = []")
  case True
  with ok show ?thesis by (simp add: reader_store_def)
next
  case False
  let ?N = "mNum r" and ?h = "mHead r" and ?k = "length evs" and ?a = "mNum r - mFreeSpace r"
  from ok have N: "0 < ?N" "length (mBuffer r) = 2 * ?N" "mCurr r < ?N" "mFreeSpace r \<le> ?N" "?h \<le> ?N"
    "?h mod ?N = (mCurr r + ?a) mod ?N" by (auto simp: ring_ok_def)
  with room have k: "?k \<le> ?N" by linarith
  obtain buf where buf: "mem_write (mBuffer r) (int ?h) evs = Some buf"
    using N k by (auto simp: mem_write_def)
  then have lb: "length buf = 2 * ?N" using N by (auto simp: mem_write_Some_iff)
  define buf2 where "buf2 = (if ?h + ?k > ?N then take (?h + ?k - ?N) (drop ?N buf) @ drop (?h + ?k - ?N) buf else buf)"
  note ring = store_ring [OF N(5,2) k N(1) buf buf2_def]
  let ?r' = "r\<lparr>mBuffer := buf2, mHead := if ?h + ?k > ?N then ?h + ?k - ?N else ?h + ?k, mFreeSpace := mFreeSpace r - ?k\<rparr>"
  have store: "reader_store evs r = Some ?r'"
    using False buf lb N k by (auto simp: reader_store_def buf2_def mem_read_def mem_write_def Let_def)
  have hd: "mHead ?r' mod ?N = (?h + ?k) mod ?N" by (simp add: mod_if)
  have avail: "mNum ?r' - mFreeSpace ?r' = ?a + ?k" using room N by simp
  have eq: "(?h + i) mod ?N = (mCurr r + (?a + i)) mod ?N" for i
    using N(6) by (metis add.assoc mod_add_left_eq)
  have old: "buf2 ! ((mCurr r + j) mod ?N) = mBuffer r ! ((mCurr r + j) mod ?N)" if j: "j < ?a" for j
  proof (rule ring(3))
    show "(mCurr r + j) mod ?N < ?N" using N by simp
    show "\<forall>i < ?k. (mCurr r + j) mod ?N \<noteq> (?h + i) mod ?N" using ring_free [OF ok j] room by simp
  qed
  have "pending ?r' = pending r @ evs"
  proof (rule nth_equalityI)
    show "length (pending ?r') = length (pending r @ evs)" using avail by simp
    fix j assume "j < length (pending ?r')"
    then have j: "j < ?a + ?k" using avail by simp
    have "pending ?r' ! j = buf2 ! ((mCurr r + j) mod ?N)" using j room N by (simp add: pending_def)
    moreover have "\<dots> = (pending r @ evs) ! j"
    proof (cases "j < ?a")
      case True
      with old show ?thesis by (simp add: nth_append) (simp add: pending_def)
    next
      case False
      then have "buf2 ! ((mCurr r + j) mod ?N) = evs ! (j - ?a)"
        using ring(2) [of "j - ?a"] eq [of "j - ?a"] j by simp
      with False show ?thesis by (simp add: nth_append)
    qed
    ultimately show "pending ?r' ! j = (pending r @ evs) ! j" by simp
  qed
  moreover have "ring_ok ?r'"
    using N room ring(1) hd eq [of ?k] avail by (auto simp: ring_ok_def)
  ultimately show ?thesis using store by simp
qed

lemma readEvent_queue:
  assumes "ring_ok r"
  shows "readEvent r = Some (case pending r of [] \<Rightarrow> None | e # _ \<Rightarrow> Some e)"
proof (cases "pending r")
  case Nil
  then have "mNum r - mFreeSpace r = 0" by (metis length_pending list.size(3))
  with Nil show ?thesis by (simp add: readEvent_def)
next
  case (Cons e es)
  then have a: "0 < mNum r - mFreeSpace r" by (metis length_pending length_greater_0_conv list.distinct(1))
  then have "pending r ! 0 = mBuffer r ! mCurr r" using assms by (simp add: pending_def ring_ok_def)
  with Cons a assms show ?thesis by (auto simp: readEvent_def mem_get_def ring_ok_def)
qed

lemma next_event_queue:
  assumes ok: "ring_ok r" and ne: "pending r \<noteq> []"
  shows "ring_ok (next_event r)" "pending (next_event r) = tl (pending r)"
    "mNum (next_event r) = mNum r"
proof -
  let ?N = "mNum r"
  from ne have a: "mFreeSpace r < ?N" by (metis length_pending length_0_conv zero_less_diff neq0_conv)
  from ok have N: "0 < ?N" "mCurr r < ?N" by (auto simp: ring_ok_def)
  have c: "mCurr (next_event r) mod ?N = (mCurr r + 1) mod ?N"
    "mCurr (next_event r) = (mCurr r + 1) mod ?N"
    using N by (auto simp: next_event_def Let_def mod_if)
  have sel: "mBuffer (next_event r) = mBuffer r" "mNum (next_event r) = ?N" "mHead (next_event r) = mHead r"
    "mFreeSpace (next_event r) = mFreeSpace r + 1"
    by (simp_all add: next_event_def Let_def)
  show "mNum (next_event r) = ?N" by (rule sel)
  have sum: "(mCurr (next_event r) + i) mod ?N = (mCurr r + Suc i) mod ?N" for i
    using c(2) by (simp add: mod_add_left_eq)
  have "(mCurr (next_event r) + (?N - (mFreeSpace r + 1))) mod ?N = (mCurr r + (?N - mFreeSpace r)) mod ?N"
    using sum [of "?N - (mFreeSpace r + 1)"] a by (simp add: Suc_diff_Suc)
  then show "ring_ok (next_event r)"
    using ok a N c(2) by (auto simp: ring_ok_def sel)
  show "pending (next_event r) = tl (pending r)"
  proof (rule nth_equalityI)
    show l: "length (pending (next_event r)) = length (tl (pending r))" using sel by simp
    fix i assume "i < length (pending (next_event r))"
    then have "i < ?N - (mFreeSpace r + 1)" using sel by simp
    then show "pending (next_event r) ! i = tl (pending r) ! i"
      using sum [of i] by (simp add: pending_def sel nth_tl)
  qed
qed

subsection \<open>The contract of an event queue\<close>

locale event_queue =
  fixes ok :: "'r \<Rightarrow> bool" and q :: "'r \<Rightarrow> 'e list" and cap :: "'r \<Rightarrow> nat"
    and store :: "'e list \<Rightarrow> 'r \<Rightarrow> 'r option" and peek :: "'r \<Rightarrow> 'e option option" and pop :: "'r \<Rightarrow> 'r"
  assumes q_cap: "ok r \<Longrightarrow> length (q r) \<le> cap r"
    and store_q: "ok r \<Longrightarrow> length es \<le> cap r - length (q r) \<Longrightarrow>
      \<exists>r'. store es r = Some r' \<and> ok r' \<and> q r' = q r @ es \<and> cap r' = cap r"
    and peek_q: "ok r \<Longrightarrow> peek r = Some (case q r of [] \<Rightarrow> None | e # _ \<Rightarrow> Some e)"
    and pop_q: "ok r \<Longrightarrow> q r \<noteq> [] \<Longrightarrow> ok (pop r) \<and> q (pop r) = tl (q r) \<and> cap (pop r) = cap r"
begin

lemma drain:
  "ok r \<Longrightarrow> n \<le> length (q r) \<Longrightarrow>
   ok ((pop ^^ n) r) \<and> q ((pop ^^ n) r) = drop n (q r) \<and> cap ((pop ^^ n) r) = cap r"
proof (induction n)
  case (Suc n)
  then have IH: "ok ((pop ^^ n) r)" "q ((pop ^^ n) r) = drop n (q r)" "cap ((pop ^^ n) r) = cap r" by simp_all
  moreover have "drop n (q r) \<noteq> []" using Suc.prems by simp
  ultimately show ?case using pop_q [of "(pop ^^ n) r"] by (simp add: drop_Suc tl_drop)
qed simp

lemma peek_nth:
  assumes "ok r" "n < length (q r)"
  shows "peek ((pop ^^ n) r) = Some (Some (q r ! n))"
  using drain [of r n] peek_q [of "(pop ^^ n) r"] assms by (simp add: Cons_nth_drop_Suc [symmetric])

lemma peek_end:
  assumes "ok r"
  shows "peek ((pop ^^ length (q r)) r) = Some None"
  using drain [of r "length (q r)"] peek_q [of "(pop ^^ length (q r)) r"] assms by simp

lemma fifo:
  assumes "ok r" "length es \<le> cap r - length (q r)"
  shows "\<exists>r'. store es r = Some r' \<and> ok r' \<and> q r' = q r @ es \<and> cap r' = cap r \<and>
     (\<forall>n. n < length (q r @ es) \<longrightarrow> peek ((pop ^^ n) r') = Some (Some ((q r @ es) ! n))) \<and>
     peek ((pop ^^ length (q r @ es)) r') = Some None"
proof -
  from store_q [OF assms] obtain r' where r': "store es r = Some r'" "ok r'" "q r' = q r @ es" "cap r' = cap r"
    by blast
  with peek_nth [OF r'(2)] peek_end [OF r'(2)] show ?thesis by (intro exI [of _ r']) simp
qed

end

interpretation rq: event_queue ring_ok pending mNum reader_store readEvent next_event
proof
  fix r :: input_reader and es
  assume ok: "ring_ok r"
  show "length (pending r) \<le> mNum r" by simp
  show "readEvent r = Some (case pending r of [] \<Rightarrow> None | e # _ \<Rightarrow> Some e)" by (rule readEvent_queue [OF ok])
  show "ring_ok (next_event r) \<and> pending (next_event r) = tl (pending r) \<and> mNum (next_event r) = mNum r"
    if "pending r \<noteq> []"
    using next_event_queue [OF ok that] by simp
  show "\<exists>r'. reader_store es r = Some r' \<and> ring_ok r' \<and> pending r' = pending r @ es \<and> mNum r' = mNum r"
    if "length es \<le> mNum r - length (pending r)"
  proof -
    have "mFreeSpace r \<le> mNum r" using ok by (simp add: ring_ok_def)
    with that have "length es \<le> mFreeSpace r" by simp
    with reader_store_queue [OF ok] show ?thesis by blast
  qed
qed

lemma ring_room: "ring_ok r \<Longrightarrow> mNum r - length (pending r) = mFreeSpace r"
  by (simp add: ring_ok_def)

lemma reader_fill_queue:
  assumes ok: "ring_ok r"
  shows "\<exists>n r'. reader_fill res r = Some (n, r') \<and> ring_ok r' \<and> mNum r' = mNum r \<and>
     (n < 0 \<longrightarrow> pending r' = pending r) \<and>
     (case res of
        ReadError e \<Rightarrow> n = (if mFreeSpace r = 0 then 0 else - e) \<and> pending r' = pending r
      | ReadEvents evs part \<Rightarrow>
          if part \<and> mFreeSpace r \<noteq> 0 then n = - EINVAL_code \<and> pending r' = pending r
          else n = int (length (take (mFreeSpace r) evs)) \<and> pending r' = pending r @ take (mFreeSpace r) evs)"
proof (cases res)
  case (ReadError e)
  with ok show ?thesis by (simp add: reader_fill_def)
next
  case (ReadEvents evs part)
  show ?thesis
  proof (cases "part \<and> mFreeSpace r \<noteq> 0")
    case False
    obtain r' where "reader_store (take (mFreeSpace r) evs) r = Some r'" "ring_ok r'" "mNum r' = mNum r"
        "pending r' = pending r @ take (mFreeSpace r) evs"
      using rq.store_q [OF ok, of "take (mFreeSpace r) evs"] ring_room [OF ok] by auto
    with False ReadEvents ok show ?thesis by (auto simp: reader_fill_def Let_def)
  next
    case True
    let ?es = "take (mFreeSpace r) evs"
    obtain buf where buf: "mem_write (mBuffer r) (int (mHead r)) ?es = Some buf"
    proof -
      have "length ?es \<le> mFreeSpace r" by simp
      then have "mHead r + length ?es \<le> length (mBuffer r)" using ok unfolding ring_ok_def by linarith
      then have "int (mHead r) + int (length ?es) \<le> int (length (mBuffer r))" by linarith
      then show ?thesis using that by (simp add: mem_write_def)
    qed
    have "buf ! ((mCurr r + j) mod mNum r) = mBuffer r ! ((mCurr r + j) mod mNum r)" (is "buf ! ?p = _")
      if j: "j < mNum r - mFreeSpace r" for j
    proof -
      have p: "?p < mNum r" using ok by (simp add: ring_ok_def)
      have "\<not> (mHead r \<le> ?p \<and> ?p < mHead r + length ?es)"
      proof
        assume a: "mHead r \<le> ?p \<and> ?p < mHead r + length ?es"
        then have "?p - mHead r < mFreeSpace r" "mHead r + (?p - mHead r) = ?p" by auto
        with ring_free [OF ok j, of "?p - mHead r"] show False by simp
      qed
      with buf p ok show ?thesis by (auto simp: mem_write_Some_iff nth_append ring_ok_def min_def)
    qed
    then have "pending (r\<lparr>mBuffer := buf\<rparr>) = pending r" by (simp add: pending_def)
    moreover have "ring_ok (r\<lparr>mBuffer := buf\<rparr>)" using ok mem_write_length [OF buf] by (simp add: ring_ok_def)
    ultimately show ?thesis using True ReadEvents buf by (simp add: reader_fill_def Let_def)
  qed
qed

subsection \<open>Properties\<close>

text \<open>
  C24: the ring buffer is a queue. Filling it with what a read delivered, limited to the free space, keeps it
  well-formed, and stepping through it then returns first the events that were unread, then the new ones, in order, and then nothing.
\<close>

theorem reader_is_queue:
  fixes evs
  assumes ok: "ring_ok r"
  defines "new \<equiv> take (mFreeSpace r) evs"
  shows "\<exists>r'. reader_fill (ReadEvents evs False) r = Some (int (length new), r') \<and> ring_ok r' \<and>
     (\<forall>n. n < length (pending r @ new) \<longrightarrow>
        readEvent ((next_event ^^ n) r') = Some (Some ((pending r @ new) ! n))) \<and>
     readEvent ((next_event ^^ length (pending r @ new)) r') = Some None"
proof -
  have "length new \<le> mNum r - length (pending r)" using ring_room [OF ok] by (simp add: new_def)
  from rq.fifo [OF ok this] obtain r' where "reader_store new r = Some r'" "ring_ok r'"
      "\<forall>n. n < length (pending r @ new) \<longrightarrow> readEvent ((next_event ^^ n) r') = Some (Some ((pending r @ new) ! n))"
      "readEvent ((next_event ^^ length (pending r @ new)) r') = Some None"
    by blast
  moreover from this(1) have "reader_fill (ReadEvents evs False) r = Some (int (length new), r')"
    by (cases "mFreeSpace r = 0") (simp_all add: reader_fill_def new_def reader_store_def Let_def)
  ultimately show ?thesis by blast
qed

definition demo_event :: "int \<Rightarrow> input_event" where
  "demo_event v = \<lparr>tv_sec = 0, tv_usec = 0, ev_type = 3, ev_code = 0, ev_value = v\<rparr>"

definition demo_ring :: input_reader where
  "demo_ring = \<lparr>mBuffer = map (demo_event \<circ> int) [0..<8], mNum = 4, mHead = 3, mCurr = 2, mFreeSpace = 3\<rparr>"

theorem reader_is_queue_witness:
  "\<exists>r'. reader_fill (ReadEvents [demo_event 7, demo_event 8] False) demo_ring = Some (2, r') \<and>
     readEvent (next_event (next_event r')) = Some (Some (demo_event 8))"
proof -
  have ok: "ring_ok demo_ring" by (simp add: ring_ok_def demo_ring_def)
  have "pending demo_ring = [demo_event 2]" "mFreeSpace demo_ring = 3"
    by (simp_all add: pending_def demo_ring_def)
  with reader_is_queue [OF ok, of "[demo_event 7, demo_event 8]"] show ?thesis
    by (auto simp: numeral_2_eq_2 dest: spec [of _ "Suc (Suc 0)"])
qed

end
