(* ===== verification/Sensor_Base.thy ===== *)
theory Sensor_Base
  imports Input_Reader
begin

text \<open>
  What the sensor drivers share: the system calls they make, the events they report and the class
  \<open>SensorBase\<close> of \<open>libsensors/SensorBase.cpp\<close>; and the contract \<open>sensor_driver\<close> of their
  \<open>readEvents\<close>, on which the poll loop of \<open>nusensors.cpp\<close> relies.

  System calls are fields of \<open>sensor_kernel\<close>, functions on a world \<open>'w\<close>. A failing call leaves
  \<open>errno\<close> in \<open>io_errno\<close>. Floating-point values are an arbitrary type \<open>'f\<close>; the conversion of a raw
  reading to a value is a parameter \<open>cv\<close>, applied to the conversion constant and the reading.
\<close>

subsection \<open>Kernel interface\<close>

datatype sensor_ioctl =
    ECS_IOCTL_APP_GET_AFLAG | ECS_IOCTL_APP_GET_MVFLAG | ECS_IOCTL_APP_GET_MFLAG
  | ECS_IOCTL_APP_SET_AFLAG | ECS_IOCTL_APP_SET_MVFLAG | ECS_IOCTL_APP_SET_MFLAG
  | ECS_IOCTL_APP_GET_TFLAG | ECS_IOCTL_APP_SET_TFLAG | ECS_IOCTL_APP_SET_DELAY
  | LIGHTSENSOR_IOCTL_GET_ENABLED | LIGHTSENSOR_IOCTL_ENABLE
  | CAPELLA_CM3602_IOCTL_GET_ENABLED | CAPELLA_CM3602_IOCTL_ENABLE
  | EVIOCGABS int

record ioctl_result =
  io_rc :: int
  io_value :: int
  io_errno :: int

record 'w sensor_kernel =
  sk_open :: "string \<Rightarrow> 'w \<Rightarrow> int \<times> 'w"
  sk_close :: "int \<Rightarrow> 'w \<Rightarrow> 'w"
  sk_ioctl :: "int \<Rightarrow> sensor_ioctl \<Rightarrow> int \<Rightarrow> 'w \<Rightarrow> ioctl_result \<times> 'w"
  sk_read :: "int \<Rightarrow> nat \<Rightarrow> 'w \<Rightarrow> read_result \<times> 'w"
  sk_clock :: "'w \<Rightarrow> int \<times> int"
  sk_dir :: "'w \<Rightarrow> string list option"
  sk_name :: "int \<Rightarrow> 'w \<Rightarrow> string option"
  sk_write :: "int \<Rightarrow> string \<Rightarrow> 'w \<Rightarrow> int \<times> int \<times> 'w"
  sk_pipe :: "'w \<Rightarrow> int \<times> int \<times> 'w"
  sk_take :: "int \<Rightarrow> 'w \<Rightarrow> 'w"
  sk_poll :: "int list \<Rightarrow> bool \<Rightarrow> 'w \<Rightarrow> ((int + nat) \<times> bool list) \<times> 'w"

definition EV_SYN :: int where "EV_SYN = 0"
definition EV_ABS :: int where "EV_ABS = 3"

text \<open>The codes of the absolute axes, by the names the library gives them.\<close>

definition EVENT_TYPE_ACCEL_X :: int where "EVENT_TYPE_ACCEL_X = 0x00"
definition EVENT_TYPE_ACCEL_Y :: int where "EVENT_TYPE_ACCEL_Y = 0x02"
definition EVENT_TYPE_ACCEL_Z :: int where "EVENT_TYPE_ACCEL_Z = 0x01"
definition EVENT_TYPE_YAW :: int where "EVENT_TYPE_YAW = 0x03"
definition EVENT_TYPE_PITCH :: int where "EVENT_TYPE_PITCH = 0x04"
definition EVENT_TYPE_ROLL :: int where "EVENT_TYPE_ROLL = 0x05"
definition EVENT_TYPE_ORIENT_STATUS :: int where "EVENT_TYPE_ORIENT_STATUS = 0x07"
definition EVENT_TYPE_MAGV_X :: int where "EVENT_TYPE_MAGV_X = 0x10"
definition EVENT_TYPE_MAGV_Y :: int where "EVENT_TYPE_MAGV_Y = 0x11"
definition EVENT_TYPE_MAGV_Z :: int where "EVENT_TYPE_MAGV_Z = 0x0a"
definition EVENT_TYPE_PROXIMITY :: int where "EVENT_TYPE_PROXIMITY = 0x19"
definition EVENT_TYPE_LIGHT :: int where "EVENT_TYPE_LIGHT = 0x28"

definition ID_A :: int where "ID_A = 0"
definition ID_M :: int where "ID_M = 1"
definition ID_O :: int where "ID_O = 2"
definition ID_P :: int where "ID_P = 3"
definition ID_L :: int where "ID_L = 4"

text \<open>The conversion constants; \<open>UNIT\<close> is the conversion of an integer as it is.\<close>

datatype conv =
    CONVERT_A_X | CONVERT_A_Y | CONVERT_A_Z | CONVERT_M_X | CONVERT_M_Y | CONVERT_M_Z
  | CONVERT_O_Y | CONVERT_O_P | CONVERT_O_R | PROXIMITY_THRESHOLD_CM | UNIT

text \<open>\<open>sensors_event_t\<close>: the three floats of its union, which single values share with the first axis.\<close>

record 'f sensors_event =
  se_sensor :: int
  se_type :: int
  se_timestamp :: int
  se_x :: 'f
  se_y :: 'f
  se_z :: 'f
  se_status :: u8

definition SENSOR_TYPE_ACCELEROMETER :: int where "SENSOR_TYPE_ACCELEROMETER = 1"
definition SENSOR_TYPE_MAGNETIC_FIELD :: int where "SENSOR_TYPE_MAGNETIC_FIELD = 2"
definition SENSOR_TYPE_ORIENTATION :: int where "SENSOR_TYPE_ORIENTATION = 3"
definition SENSOR_TYPE_LIGHT :: int where "SENSOR_TYPE_LIGHT = 5"
definition SENSOR_TYPE_PROXIMITY :: int where "SENSOR_TYPE_PROXIMITY = 8"
definition SENSOR_STATUS_ACCURACY_HIGH :: u8 where "SENSOR_STATUS_ACCURACY_HIGH = 3"

definition event_zero :: "(conv \<Rightarrow> int \<Rightarrow> 'f) \<Rightarrow> int \<Rightarrow> int \<Rightarrow> u8 \<Rightarrow> 'f sensors_event" where
  "event_zero cv sensor type status =
     \<lparr>se_sensor = sensor, se_type = type, se_timestamp = 0, se_x = cv UNIT 0, se_y = cv UNIT 0, se_z = cv UNIT 0,
      se_status = status\<rparr>"

text \<open>\<open>timevalToNano\<close>: the microseconds are scaled in \<open>long\<close>, the sum is 64 bits wide.\<close>

definition timevalToNano :: "input_event \<Rightarrow> int option" where
  "timevalToNano e = do { us \<leftarrow> smul (tv_usec e) 1000; Some (tv_sec e * 1000000000 + us) }"

definition getTimestamp :: "'w sensor_kernel \<Rightarrow> 'w \<Rightarrow> int" where
  "getTimestamp K w = (let (s, ns) = sk_clock K w in s * 1000000000 + ns)"

text \<open>\<open>fill\<close> of a reader from a device.\<close>

definition fill :: "'w sensor_kernel \<Rightarrow> int \<Rightarrow> input_reader \<Rightarrow> 'w \<Rightarrow> (int \<times> input_reader \<times> 'w) option" where
  "fill K fd r w =
     (let (res, w1) = (if mFreeSpace r = 0 then (ReadEvents [] False, w) else sk_read K fd (mFreeSpace r) w)
      in do { (n, r1) \<leftarrow> reader_fill res r; Some (n, r1, w1) })"

subsection \<open>SensorBase\<close>

record sensor_base =
  dev_name :: "string option"
  data_name :: "string option"
  dev_fd :: int
  data_fd :: int

fun openInput_loop :: "'w sensor_kernel \<Rightarrow> string \<Rightarrow> string list \<Rightarrow> int \<Rightarrow> 'w \<Rightarrow> int \<times> 'w" where
  "openInput_loop K inputName [] fd w = (fd, w)"
| "openInput_loop K inputName (d # ds) fd w =
     (if d = ''.'' \<or> d = ''..'' then openInput_loop K inputName ds fd w
      else
        let (f, w1) = sk_open K (''/dev/input/'' @ d) w in
        if f \<ge> 0 then
          let name = (case sk_name K f w1 of None \<Rightarrow> [] | Some n \<Rightarrow> n) in
          if name = inputName then (f, w1)
          else openInput_loop K inputName ds (- 1) (sk_close K f w1)
        else openInput_loop K inputName ds f w1)"

definition openInput :: "'w sensor_kernel \<Rightarrow> string \<Rightarrow> 'w \<Rightarrow> int \<times> 'w" where
  "openInput K inputName w =
     (case sk_dir K w of None \<Rightarrow> (- 1, w) | Some ds \<Rightarrow> openInput_loop K inputName ds (- 1) w)"

definition SensorBase_new ::
  "'w sensor_kernel \<Rightarrow> string option \<Rightarrow> string option \<Rightarrow> 'w \<Rightarrow> sensor_base \<times> 'w" where
  "SensorBase_new K dev dat w =
     (let (fd, w1) = (case dat of None \<Rightarrow> (- 1, w) | Some n \<Rightarrow> openInput K n w)
      in (\<lparr>dev_name = dev, data_name = dat, dev_fd = - 1, data_fd = fd\<rparr>, w1))"

definition SensorBase_delete :: "'w sensor_kernel \<Rightarrow> 'a sensor_base_scheme \<Rightarrow> 'w \<Rightarrow> 'w" where
  "SensorBase_delete K s w =
     (let w1 = (if data_fd s \<ge> 0 then sk_close K (data_fd s) w else w)
      in if dev_fd s \<ge> 0 then sk_close K (dev_fd s) w1 else w1)"

definition open_device :: "'w sensor_kernel \<Rightarrow> 'a sensor_base_scheme \<Rightarrow> 'w \<Rightarrow> 'a sensor_base_scheme \<times> 'w" where
  "open_device K s w =
     (case dev_name s of
        Some n \<Rightarrow> if dev_fd s < 0 then let (fd, w1) = sk_open K n w in (s\<lparr>dev_fd := fd\<rparr>, w1) else (s, w)
      | None \<Rightarrow> (s, w))"

definition close_device :: "'w sensor_kernel \<Rightarrow> 'a sensor_base_scheme \<Rightarrow> 'w \<Rightarrow> 'a sensor_base_scheme \<times> 'w" where
  "close_device K s w = (if dev_fd s \<ge> 0 then (s\<lparr>dev_fd := - 1\<rparr>, sk_close K (dev_fd s) w) else (s, w))"

definition write_sys_attribute :: "'w sensor_kernel \<Rightarrow> string \<Rightarrow> string \<Rightarrow> nat \<Rightarrow> 'w \<Rightarrow> int \<times> 'w" where
  "write_sys_attribute K path val n w =
     (let (fd, w1) = sk_open K path w in
      if fd < 0 then (- 1, w1)
      else let (amt, err, w2) = sk_write K fd (take n val) w1
           in (if amt = - 1 then - err else 0, sk_close K fd w2))"

definition getFd :: "'a sensor_base_scheme \<Rightarrow> int" where
  "getFd s = (if data_name s = None then dev_fd s else data_fd s)"

subsection \<open>The contract of a driver\<close>

text \<open>Times as the input layer delivers them.\<close>

definition normal_time :: "input_event \<Rightarrow> bool" where
  "normal_time e \<longleftrightarrow> 0 \<le> tv_usec e \<and> tv_usec e < 1000000"

definition normal_kernel :: "'w sensor_kernel \<Rightarrow> bool" where
  "normal_kernel K \<longleftrightarrow> (\<forall>fd n w evs part w'. sk_read K fd n w = (ReadEvents evs part, w') \<longrightarrow> list_all normal_time evs)"

lemma timevalToNano_normal:
  "normal_time e \<Longrightarrow> timevalToNano e = Some (tv_sec e * 1000000000 + tv_usec e * 1000)"
  by (simp add: timevalToNano_def normal_time_def smul_def int32_ok_def)

lemma normal_kernelD:
  "normal_kernel K \<Longrightarrow> sk_read K fd n w = (ReadEvents evs part, w') \<Longrightarrow> list_all normal_time evs"
  unfolding normal_kernel_def by blast

definition ring_normal :: "input_reader \<Rightarrow> bool" where
  "ring_normal r \<longleftrightarrow> ring_ok r \<and> list_all normal_time (pending r)"

lemma fill_normal:
  assumes K: "normal_kernel K" and r: "ring_normal r"
  shows "\<exists>n r' w'. fill K fd r w = Some (n, r', w') \<and> ring_normal r' \<and> mNum r' = mNum r"
proof -
  obtain res w1 where res: "(if mFreeSpace r = 0 then (ReadEvents [] False, w) else sk_read K fd (mFreeSpace r) w) = (res, w1)"
    by fastforce
  then have nt: "list_all normal_time evs" if "res = ReadEvents evs part" for evs part
    using that normal_kernelD [OF K] by (auto split: if_splits)
  have "ring_ok r" using r by (simp add: ring_normal_def)
  from reader_fill_queue [OF this, of res] obtain n r' where
    f: "reader_fill res r = Some (n, r')" "ring_ok r'" "mNum r' = mNum r" and
    "case res of
        ReadError e \<Rightarrow> n = (if mFreeSpace r = 0 then 0 else - e) \<and> pending r' = pending r
      | ReadEvents evs part \<Rightarrow>
          if part \<and> mFreeSpace r \<noteq> 0 then n = - EINVAL_code \<and> pending r' = pending r
          else n = int (length (take (mFreeSpace r) evs)) \<and> pending r' = pending r @ take (mFreeSpace r) evs"
    by blast
  then have "pending r' = pending r \<or> (\<exists>evs part. res = ReadEvents evs part \<and> pending r' = pending r @ take (mFreeSpace r) evs)"
    by (auto split: read_result.splits if_splits)
  then have "ring_normal r'"
    using nt r f(2) by (auto simp: ring_normal_def list_all_iff dest!: in_set_takeD)
  with f res show ?thesis by (simp add: fill_def)
qed

lemma ring_normal_peek:
  assumes "ring_normal r"
  shows "readEvent r = Some (case pending r of [] \<Rightarrow> None | e # _ \<Rightarrow> Some e)"
  using assms rq.peek_q by (simp add: ring_normal_def)

lemma ring_normal_next:
  assumes "ring_normal r" "pending r = e # es"
  shows "ring_normal (next_event r)" "pending (next_event r) = es"
    "timevalToNano e = Some (tv_sec e * 1000000000 + tv_usec e * 1000)"
  using assms rq.pop_q [of r] by (auto simp: ring_normal_def timevalToNano_normal)

text \<open>
  \<open>readEvents\<close> with room for \<open>count\<close> events: it stores at most that many, and reports an error, having stored
  nothing, or the number of events the caller is to take.
\<close>

locale sensor_driver =
  fixes ok :: "'s \<Rightarrow> bool" and read :: "int \<Rightarrow> 's \<Rightarrow> 'w \<Rightarrow> (int \<times> 'e list \<times> 's \<times> 'w) option"
  assumes read_contract: "ok s \<Longrightarrow> 1 \<le> count \<Longrightarrow>
    \<exists>n out s' w'. read count s w = Some (n, out, s', w') \<and> ok s' \<and> n \<le> int (length out) \<and>
      int (length out) \<le> count \<and> (n < 0 \<longrightarrow> out = [])"

text \<open>A driver on a device whose reads do not fail.\<close>

locale reliable_driver = sensor_driver +
  assumes read_reliable: "ok s \<Longrightarrow> 1 \<le> count \<Longrightarrow> read count s w = Some (n, out, s', w') \<Longrightarrow> 0 \<le> n"
begin

lemma read_counts:
  assumes "ok s" "1 \<le> count"
  shows "\<exists>n out s' w'. read count s w = Some (n, out, s', w') \<and> ok s' \<and> 0 \<le> n \<and> n \<le> int (length out) \<and>
     int (length out) \<le> count"
  using read_contract [OF assms, of w] read_reliable [OF assms] by blast

end

definition reliable_kernel :: "'w sensor_kernel \<Rightarrow> bool" where
  "reliable_kernel K \<longleftrightarrow> normal_kernel K \<and> (\<forall>fd n w. \<exists>evs w'. sk_read K fd n w = (ReadEvents evs False, w'))"

lemma reliable_fill:
  assumes "reliable_kernel K" "fill K fd r w = Some (n, r', w')"
  shows "0 \<le> n"
proof (cases "mFreeSpace r = 0")
  case True
  with assms(2) show ?thesis by (simp add: fill_def reader_fill_def)
next
  case False
  obtain evs w1 where "sk_read K fd (mFreeSpace r) w = (ReadEvents evs False, w1)"
    using assms(1) unfolding reliable_kernel_def by blast
  with False assms(2) show ?thesis by (auto simp: fill_def reader_fill_def Let_def split: Option.bind_splits)
qed

text \<open>A kernel with one input device and no events, in which every sensor is disabled; the world records the system calls that
  enable something or set the rate.\<close>

definition demo_sensors :: "(sensor_ioctl \<times> int) list sensor_kernel" where
  "demo_sensors = \<lparr>sk_open = (\<lambda>n w. (5, w)), sk_close = (\<lambda>fd w. w),
     sk_ioctl = (\<lambda>fd c a w. (\<lparr>io_rc = 0, io_value = 0, io_errno = 0\<rparr>,
        if c = CAPELLA_CM3602_IOCTL_ENABLE \<or> c = LIGHTSENSOR_IOCTL_ENABLE \<or>
          c = ECS_IOCTL_APP_SET_DELAY then w @ [(c, a)] else w)),
     sk_read = (\<lambda>fd n w. (ReadEvents [] False, w)), sk_clock = (\<lambda>w. (0, 0)),
     sk_dir = (\<lambda>w. Some [''.'', ''event0'']), sk_name = (\<lambda>fd w. Some ''proximity''),
     sk_write = (\<lambda>fd s w. (int (length s), 0, w)), sk_pipe = (\<lambda>w. (6, 7, w)), sk_take = (\<lambda>fd w. w),
     sk_poll = (\<lambda>fds now w. ((Inr 0, map (\<lambda>_. False) fds), w))\<rparr>"

lemma demo_sensors_normal: "normal_kernel demo_sensors"
  by (simp add: normal_kernel_def demo_sensors_def)

end
