(* ===== verification/Simple_Sensors.thy ===== *)
theory Simple_Sensors
  imports Sensor_Base
begin

text \<open>
  The light sensor and the proximity sensor, \<open>libsensors/LightSensor.cpp\<close> and
  \<open>libsensors/ProximitySensor.cpp\<close>. The two classes have the same members and the same \<open>readEvents\<close>
  up to what they do with a reading; \<open>simple_readEvents\<close> takes that as its argument \<open>on_abs\<close>.

  \<open>simple_run\<close> says on the queue of unread events what the loop delivers: one report for each synchronisation event.
\<close>

subsection \<open>State\<close>

record 'f simple_sensor = sensor_base +
  mEnabled :: int
  mInputReader :: input_reader
  mPendingEvent :: "'f sensors_event"
  mHasPendingEvent :: bool

subsection \<open>Shared operations\<close>

text \<open>\<open>setInitialState\<close>, with the axis and the conversion of the class.\<close>

definition setInitialState ::
  "'w sensor_kernel \<Rightarrow> int \<Rightarrow> (int \<Rightarrow> 'f) \<Rightarrow> 'f simple_sensor \<Rightarrow> 'w \<Rightarrow> 'f simple_sensor \<times> 'w" where
  "setInitialState K axis indexToValue s w =
     (let (r, w1) = sk_ioctl K (data_fd s) (EVIOCGABS axis) 0 w in
      if io_rc r = 0
      then (s\<lparr>mPendingEvent := (mPendingEvent s)\<lparr>se_x := indexToValue (io_value r)\<rparr>, mHasPendingEvent := True\<rparr>, w1)
      else (s, w1))"

text \<open>\<open>setEnable\<close>, with the command that switches the device.\<close>

definition simple_setEnable ::
  "'w sensor_kernel \<Rightarrow> sensor_ioctl \<Rightarrow> int \<Rightarrow> (int \<Rightarrow> 'f) \<Rightarrow> int \<Rightarrow> 'f simple_sensor \<Rightarrow> 'w
   \<Rightarrow> int \<times> 'f simple_sensor \<times> 'w" where
  "simple_setEnable K cmd axis indexToValue en s w =
     (let flags = (if en \<noteq> 0 then 1 else 0) in
      if flags = mEnabled s then (0, s, w)
      else
        let (s1, w1) = (if mEnabled s = 0 then open_device K s w else (s, w));
            (r, w2) = sk_ioctl K (dev_fd s1) cmd flags w1;
            err = (if io_rc r < 0 then - io_errno r else 0);
            (s2, w3) = (if err = 0 then
                          let s' = s1\<lparr>mEnabled := flags\<rparr>
                          in if en \<noteq> 0 then setInitialState K axis indexToValue s' w2 else (s', w2)
                        else (s1, w2));
            (s3, w4) = (if mEnabled s2 = 0 then close_device K s2 w3 else (s2, w3))
        in (err, s3, w4))"

definition simple_event ::
  "(input_event \<Rightarrow> 'f sensors_event \<Rightarrow> 'f sensors_event) \<Rightarrow> input_event \<Rightarrow> 'f simple_sensor
   \<Rightarrow> ('f simple_sensor \<times> 'f sensors_event list) option" where
  "simple_event on_abs e s =
     (if ev_type e = EV_ABS then Some (s\<lparr>mPendingEvent := on_abs e (mPendingEvent s)\<rparr>, [])
      else if ev_type e = EV_SYN then
        do { t \<leftarrow> timevalToNano e;
             let p = (mPendingEvent s)\<lparr>se_timestamp := t\<rparr>;
             Some (s\<lparr>mPendingEvent := p\<rparr>, if mEnabled s \<noteq> 0 then [p] else []) }
      else Some (s, []))"

lemma simple_event_reader:
  "simple_event on_abs e s = Some (s1, new) \<Longrightarrow> mInputReader s1 = mInputReader s"
  by (auto simp: simple_event_def Let_def split: if_splits Option.bind_splits)

text \<open>The loop of \<open>readEvents\<close> after \<open>fill\<close>.\<close>

function simple_loop ::
  "(input_event \<Rightarrow> 'f sensors_event \<Rightarrow> 'f sensors_event) \<Rightarrow> nat \<Rightarrow> 'f simple_sensor \<Rightarrow> 'f sensors_event list
   \<Rightarrow> ('f simple_sensor \<times> 'f sensors_event list) option" where
  "simple_loop on_abs count s out =
     (if count = 0 then Some (s, out)
      else
        case readEvent (mInputReader s) of
          None \<Rightarrow> None
        | Some None \<Rightarrow> Some (s, out)
        | Some (Some e) \<Rightarrow>
            (case simple_event on_abs e s of
               None \<Rightarrow> None
             | Some (s1, new) \<Rightarrow>
                 simple_loop on_abs (count - length new)
                   (s1\<lparr>mInputReader := next_event (mInputReader s1)\<rparr>) (out @ new)))"
  by auto
termination
proof (relation "measure (\<lambda>(f, c, s, out). mNum (mInputReader s) - mFreeSpace (mInputReader s))", goal_cases)
  case (2 on_abs count s out r e p s1 new)
  then have "mInputReader s1 = mInputReader s" by (metis simple_event_reader)
  with 2 show ?case by (auto simp: readEvent_def next_event_def Let_def split: if_splits)
qed simp

declare simple_loop.simps [simp del]

definition simple_readEvents ::
  "'w sensor_kernel \<Rightarrow> (input_event \<Rightarrow> 'f sensors_event \<Rightarrow> 'f sensors_event) \<Rightarrow> int \<Rightarrow> 'f simple_sensor \<Rightarrow> 'w
   \<Rightarrow> (int \<times> 'f sensors_event list \<times> 'f simple_sensor \<times> 'w) option" where
  "simple_readEvents K on_abs count s w =
     (if count < 1 then Some (- EINVAL_code, [], s, w)
      else if mHasPendingEvent s then
        let p = (mPendingEvent s)\<lparr>se_timestamp := getTimestamp K w\<rparr>
        in Some (if mEnabled s \<noteq> 0 then 1 else 0, [p], s\<lparr>mHasPendingEvent := False, mPendingEvent := p\<rparr>, w)
      else
        do { (n, r, w1) \<leftarrow> fill K (data_fd s) (mInputReader s) w;
             let s1 = s\<lparr>mInputReader := r\<rparr>;
             if n < 0 then Some (n, [], s1, w1)
             else do { (s2, out) \<leftarrow> simple_loop on_abs (nat count) s1 [];
                       Some (int (length out), out, s2, w1) } })"

text \<open>\<open>size_t\<close> of an \<open>int\<close>.\<close>

definition size_t :: "int \<Rightarrow> nat" where
  "size_t i = unat (word_of_int i :: u32)"

subsection \<open>LightSensor\<close>

definition luxValues :: "int list" where
  "luxValues = [10, 160, 225, 320, 640, 1280, 2600, 5800, 8000, 10240]"

definition light_indexToValue :: "(conv \<Rightarrow> int \<Rightarrow> 'f) \<Rightarrow> int \<Rightarrow> 'f" where
  "light_indexToValue cv i =
     (let maxIndex = length luxValues - 1;
          index = (if size_t i > maxIndex then maxIndex else size_t i)
      in cv UNIT (luxValues ! index))"

definition light_on_abs :: "(conv \<Rightarrow> int \<Rightarrow> 'f) \<Rightarrow> input_event \<Rightarrow> 'f sensors_event \<Rightarrow> 'f sensors_event" where
  "light_on_abs cv e p =
     (if ev_code e = EVENT_TYPE_LIGHT \<and> ev_value e \<noteq> - 1 then p\<lparr>se_x := light_indexToValue cv (ev_value e)\<rparr> else p)"

definition LightSensor_new ::
  "'w sensor_kernel \<Rightarrow> (conv \<Rightarrow> int \<Rightarrow> 'f) \<Rightarrow> (nat \<Rightarrow> input_event) \<Rightarrow> 'w \<Rightarrow> 'f simple_sensor \<times> 'w" where
  "LightSensor_new K cv junk w =
     (let (b, w1) = SensorBase_new K (Some ''/dev/lightsensor'') (Some ''lightsensor-level'') w;
          s = sensor_base.extend b \<lparr>mEnabled = 0, mInputReader = new_reader junk 4,
                mPendingEvent = event_zero cv ID_L SENSOR_TYPE_LIGHT 0, mHasPendingEvent = False\<rparr>;
          (s1, w2) = open_device K s w1;
          (r, w3) = sk_ioctl K (dev_fd s1) LIGHTSENSOR_IOCTL_GET_ENABLED 0 w2;
          (s2, w4) = (if io_rc r = 0 \<and> io_value r \<noteq> 0
                      then setInitialState K EVENT_TYPE_LIGHT (light_indexToValue cv) (s1\<lparr>mEnabled := 1\<rparr>) w3
                      else (s1, w3))
      in if mEnabled s2 = 0 then close_device K s2 w4 else (s2, w4))"

definition light_setEnable ::
  "'w sensor_kernel \<Rightarrow> (conv \<Rightarrow> int \<Rightarrow> 'f) \<Rightarrow> int \<Rightarrow> 'f simple_sensor \<Rightarrow> 'w \<Rightarrow> int \<times> 'f simple_sensor \<times> 'w" where
  "light_setEnable K cv = simple_setEnable K LIGHTSENSOR_IOCTL_ENABLE EVENT_TYPE_LIGHT (light_indexToValue cv)"

definition light_readEvents where
  "light_readEvents K cv = simple_readEvents K (light_on_abs cv)"

subsection \<open>ProximitySensor\<close>

definition proximity_indexToValue :: "(conv \<Rightarrow> int \<Rightarrow> 'f) \<Rightarrow> int \<Rightarrow> 'f" where
  "proximity_indexToValue cv i = cv PROXIMITY_THRESHOLD_CM (int (size_t i))"

definition proximity_on_abs :: "(conv \<Rightarrow> int \<Rightarrow> 'f) \<Rightarrow> input_event \<Rightarrow> 'f sensors_event \<Rightarrow> 'f sensors_event" where
  "proximity_on_abs cv e p =
     (if ev_code e = EVENT_TYPE_PROXIMITY then p\<lparr>se_x := proximity_indexToValue cv (ev_value e)\<rparr> else p)"

definition ProximitySensor_new ::
  "'w sensor_kernel \<Rightarrow> (conv \<Rightarrow> int \<Rightarrow> 'f) \<Rightarrow> (nat \<Rightarrow> input_event) \<Rightarrow> 'w \<Rightarrow> 'f simple_sensor \<times> 'w" where
  "ProximitySensor_new K cv junk w =
     (let (b, w1) = SensorBase_new K (Some ''/dev/cm3602'') (Some ''proximity'') w;
          s = sensor_base.extend b \<lparr>mEnabled = 0, mInputReader = new_reader junk 4,
                mPendingEvent = event_zero cv ID_P SENSOR_TYPE_PROXIMITY 0, mHasPendingEvent = False\<rparr>;
          (s1, w2) = open_device K s w1;
          (r, w3) = sk_ioctl K (dev_fd s1) CAPELLA_CM3602_IOCTL_GET_ENABLED 0 w2;
          (s2, w4) = (if io_rc r = 0 then
                        let s' = s1\<lparr>mEnabled := 1\<rparr>
                        in if io_value r \<noteq> 0
                           then setInitialState K EVENT_TYPE_PROXIMITY (proximity_indexToValue cv) s' w3 else (s', w3)
                      else (s1, w3))
      in if mEnabled s2 = 0 then close_device K s2 w4 else (s2, w4))"

definition proximity_setEnable ::
  "'w sensor_kernel \<Rightarrow> (conv \<Rightarrow> int \<Rightarrow> 'f) \<Rightarrow> int \<Rightarrow> 'f simple_sensor \<Rightarrow> 'w \<Rightarrow> int \<times> 'f simple_sensor \<times> 'w" where
  "proximity_setEnable K cv =
     simple_setEnable K CAPELLA_CM3602_IOCTL_ENABLE EVENT_TYPE_PROXIMITY (proximity_indexToValue cv)"

definition proximity_readEvents where
  "proximity_readEvents K cv = simple_readEvents K (proximity_on_abs cv)"

subsection \<open>What the loop delivers\<close>

fun simple_run ::
  "(input_event \<Rightarrow> 'f sensors_event \<Rightarrow> 'f sensors_event) \<Rightarrow> bool \<Rightarrow> nat \<Rightarrow> input_event list \<Rightarrow> 'f sensors_event
   \<Rightarrow> 'f sensors_event list \<times> 'f sensors_event \<times> input_event list" where
  "simple_run on_abs en 0 es p = ([], p, es)"
| "simple_run on_abs en (Suc c) [] p = ([], p, [])"
| "simple_run on_abs en (Suc c) (e # es) p =
     (if ev_type e = EV_ABS then simple_run on_abs en (Suc c) es (on_abs e p)
      else if ev_type e = EV_SYN then
        let q = p\<lparr>se_timestamp := tv_sec e * 1000000000 + tv_usec e * 1000\<rparr> in
        if en then let (out, r) = simple_run on_abs en c es q in (q # out, r)
        else simple_run on_abs en (Suc c) es q
      else simple_run on_abs en (Suc c) es p)"

lemma simple_run_length: "length (fst (simple_run on_abs en c es p)) \<le> c"
  by (induction on_abs en c es p rule: simple_run.induct) (auto simp: Let_def split: prod.splits)

lemma simple_loop_run:
  assumes "ring_normal (mInputReader s)"
  shows "\<exists>r. simple_loop on_abs c s out =
      (let (evs, p, rest) = simple_run on_abs (mEnabled s \<noteq> 0) c (pending (mInputReader s)) (mPendingEvent s)
       in Some (s\<lparr>mInputReader := r, mPendingEvent := p\<rparr>, out @ evs)) \<and>
     ring_normal r \<and> pending r = snd (snd (simple_run on_abs (mEnabled s \<noteq> 0) c (pending (mInputReader s)) (mPendingEvent s)))"
  using assms
proof (induction "pending (mInputReader s)" arbitrary: s c out)
  case Nil
  then have "readEvent (mInputReader s) = Some None" using ring_normal_peek [of "mInputReader s"] by simp
  with Nil show ?case
    by (cases c) (auto simp: simple_loop.simps intro!: exI [of _ "mInputReader s"] simp del: simple_run.simps(2)
        simp: simple_run.simps(2))
next
  case (Cons e es)
  show ?case
  proof (cases c)
    case 0
    with Cons.prems show ?thesis by (auto simp: simple_loop.simps intro!: exI [of _ "mInputReader s"])
  next
    case (Suc c')
    let ?r = "next_event (mInputReader s)"
    have q: "pending (mInputReader s) = e # es" using Cons.hyps(2) by simp
    have e: "readEvent (mInputReader s) = Some (Some e)" using ring_normal_peek [OF Cons.prems] q by simp
    note r = ring_normal_next [OF Cons.prems q]
    obtain p new where ev: "simple_event on_abs e s = Some (s\<lparr>mPendingEvent := p\<rparr>, new)"
        "simple_run on_abs (mEnabled s \<noteq> 0) c (e # es) (mPendingEvent s) =
           (let (out, r) = simple_run on_abs (mEnabled s \<noteq> 0) (c - length new) es p in (new @ out, r))"
    proof (cases "ev_type e = EV_ABS \<or> ev_type e = EV_SYN")
      case True
      then show ?thesis
        by (cases "ev_type e = EV_ABS"; cases "mEnabled s = 0")
          (auto intro!: that simp: simple_event_def r(3) Suc Let_def EV_ABS_def EV_SYN_def)
    next
      case False
      then show ?thesis by (intro that [of "mPendingEvent s" "[]"]) (simp_all add: simple_event_def Suc)
    qed
    have step: "simple_loop on_abs c s out =
        simple_loop on_abs (c - length new) (s\<lparr>mPendingEvent := p, mInputReader := ?r\<rparr>) (out @ new)"
      using Suc e ev(1) by (subst simple_loop.simps) simp
    obtain r' where r': "simple_loop on_abs (c - length new) (s\<lparr>mPendingEvent := p, mInputReader := ?r\<rparr>) (out @ new) =
        (let (evs, p', rest) = simple_run on_abs (mEnabled s \<noteq> 0) (c - length new) es p
         in Some (s\<lparr>mInputReader := r', mPendingEvent := p'\<rparr>, out @ new @ evs))"
        "ring_normal r'" "pending r' = snd (snd (simple_run on_abs (mEnabled s \<noteq> 0) (c - length new) es p))"
      using Cons.hyps(1) [of "s\<lparr>mPendingEvent := p, mInputReader := ?r\<rparr>" "c - length new" "out @ new"] r by auto
    then show ?thesis
      using step ev(2) q by (intro exI [of _ r']) (auto split: prod.splits)
  qed
qed

text \<open>Reading in portions loses and repeats nothing.\<close>

lemma simple_run_split:
  "simple_run on_abs en c es p = (out1, p1, es1) \<Longrightarrow> simple_run on_abs en d es1 p1 = (out2, p2, es2) \<Longrightarrow>
   en \<Longrightarrow> simple_run on_abs en (c + d) es p = (out1 @ out2, p2, es2)"
proof (induction on_abs en c es p arbitrary: out1 rule: simple_run.induct)
  case (2 on_abs en c p)
  then show ?case by (cases d) auto
qed (auto simp: Let_def split: if_splits prod.splits)

subsection \<open>The contract\<close>

definition simple_ok :: "'w sensor_kernel \<Rightarrow> 'f simple_sensor \<Rightarrow> bool" where
  "simple_ok K s \<longleftrightarrow> normal_kernel K \<and> ring_normal (mInputReader s) \<and>
     (mEnabled s = 0 \<or> mEnabled s = 1)"

lemma simple_read_contract:
  assumes ok: "simple_ok K s" and count: "1 \<le> count"
  shows "\<exists>n out s' w'. simple_readEvents K on_abs count s w = Some (n, out, s', w') \<and> simple_ok K s' \<and>
     n \<le> int (length out) \<and> int (length out) \<le> count \<and> (n < 0 \<longrightarrow> out = [])"
proof (cases "mHasPendingEvent s")
  case True
  with count ok show ?thesis by (simp add: simple_readEvents_def simple_ok_def Let_def)
next
  case False
  obtain n r' w1 where f: "fill K (data_fd s) (mInputReader s) w = Some (n, r', w1)" "ring_normal r'"
    using fill_normal [of K "mInputReader s"] ok unfolding simple_ok_def by blast
  show ?thesis
  proof (cases "n < 0")
    case True
    with False count f ok show ?thesis by (simp add: simple_readEvents_def simple_ok_def)
  next
    case n: False
    let ?run = "simple_run on_abs (mEnabled s \<noteq> 0) (nat count) (pending r') (mPendingEvent s)"
    obtain r2 where l: "simple_loop on_abs (nat count) (s\<lparr>mInputReader := r'\<rparr>) [] =
        Some (s\<lparr>mInputReader := r2, mPendingEvent := fst (snd ?run)\<rparr>, fst ?run)" "ring_normal r2"
      using simple_loop_run [of "s\<lparr>mInputReader := r'\<rparr>" on_abs "nat count" "[]"] f(2)
      by (auto simp: case_prod_beta' Let_def)
    have "int (length (fst ?run)) \<le> count"
      using simple_run_length [of on_abs "mEnabled s \<noteq> 0" "nat count" "pending r'" "mPendingEvent s"] count by linarith
    then show ?thesis
      using False count f(1) n l ok by (simp add: simple_readEvents_def simple_ok_def)
  qed
qed

interpretation light_driver: sensor_driver "simple_ok K" "light_readEvents K cv" for K cv
  by unfold_locales (unfold light_readEvents_def, rule simple_read_contract)

interpretation proximity_driver: sensor_driver "simple_ok K" "proximity_readEvents K cv" for K cv
  by unfold_locales (unfold proximity_readEvents_def, rule simple_read_contract)

lemma simple_read_reliable:
  assumes "reliable_kernel K" "1 \<le> count" "simple_readEvents K on_abs count s w = Some (n, out, s', w')"
  shows "0 \<le> n"
  using assms reliable_fill [OF assms(1)]
  by (auto simp: simple_readEvents_def Let_def split: if_splits Option.bind_splits prod.splits)

interpretation light_reliable: reliable_driver "\<lambda>s. reliable_kernel K \<and> simple_ok K s" "light_readEvents K cv" for K cv
proof (unfold_locales, goal_cases)
  case (1 s count w)
  then show ?case using light_driver.read_contract [of K s count cv w] by blast
next
  case (2 s count w n out s' w')
  then show ?case using simple_read_reliable [of K count] unfolding light_readEvents_def by blast
qed

interpretation proximity_reliable: reliable_driver "\<lambda>s. reliable_kernel K \<and> simple_ok K s" "proximity_readEvents K cv" for K cv
proof (unfold_locales, goal_cases)
  case (1 s count w)
  then show ?case using proximity_driver.read_contract [of K s count cv w] by blast
next
  case (2 s count w n out s' w')
  then show ?case using simple_read_reliable [of K count] unfolding proximity_readEvents_def by blast
qed

subsection \<open>Properties\<close>

text \<open>
  The first activation of the proximity sensor is lost. When the device answers that it is disabled, the constructor
  nevertheless records it as enabled; \<open>setEnable\<close> with a true argument then returns success without a system call, so
  the device stays as it is, and no initial event is queued.
\<close>

theorem proximity_first_enable_ignored:
  assumes new: "ProximitySensor_new K cv junk w = (s, w')" and en: "en \<noteq> 0"
    and dis: "\<And>fd arg v r v'. sk_ioctl K fd CAPELLA_CM3602_IOCTL_GET_ENABLED arg v = (r, v') \<Longrightarrow> io_rc r = 0 \<and> io_value r = 0"
  shows "mEnabled s = 1 \<and> \<not> mHasPendingEvent s \<and> proximity_setEnable K cv en s v = (0, s, v)"
proof -
  have "mEnabled s = 1" "\<not> mHasPendingEvent s"
    using new dis
    by (auto simp: ProximitySensor_new_def open_device_def sensor_base.extend_def Let_def
        split: prod.splits option.splits if_splits)
  then show ?thesis using en by (simp add: proximity_setEnable_def simple_setEnable_def)
qed

theorem proximity_first_enable_ignored_witness:
  "(let (s, w) = ProximitySensor_new demo_sensors (\<lambda>c i. i) (\<lambda>_. demo_event 0) []
    in proximity_setEnable demo_sensors (\<lambda>c i. i) 1 s w = (0, s, [])) \<and>
   snd (snd (light_setEnable demo_sensors (\<lambda>c i. i) 1
     (fst (LightSensor_new demo_sensors (\<lambda>c i. i) (\<lambda>_. demo_event 0) [])) [])) = [(LIGHTSENSOR_IOCTL_ENABLE, 1)]"
proof -
  obtain s w where n: "ProximitySensor_new demo_sensors (\<lambda>c i. i) (\<lambda>_. demo_event 0) [] = (s, w)" by fastforce
  then have "w = []"
    by (auto simp: ProximitySensor_new_def demo_sensors_def Let_def open_device_def SensorBase_new_def openInput_def
        sensor_base.extend_def split: prod.splits)
  moreover have "proximity_setEnable demo_sensors (\<lambda>c i. i) 1 s w = (0, s, w)"
    using proximity_first_enable_ignored [OF n, of 1 w] by (auto simp: demo_sensors_def)
  moreover have "snd (snd (light_setEnable demo_sensors (\<lambda>c i. i) 1
     (fst (LightSensor_new demo_sensors (\<lambda>c i. i) (\<lambda>_. demo_event 0) [])) [])) = [(LIGHTSENSOR_IOCTL_ENABLE, 1)]"
    by (simp add: LightSensor_new_def light_setEnable_def simple_setEnable_def demo_sensors_def Let_def open_device_def
        close_device_def SensorBase_new_def openInput_def sensor_base.extend_def setInitialState_def)
  ultimately show ?thesis using n by simp
qed

end
