(* ===== verification/Akm_Sensor.thy ===== *)
theory Akm_Sensor
  imports Sensor_Base
begin

text \<open>
  The compass chip, \<open>libsensors/AkmSensor.cpp\<close>: accelerometer, magnetometer and orientation behind one
  input device.

  \<open>readEvents\<close> may stop in the middle of a synchronisation event, when the caller's array is full; the bits left in
  \<open>mPendingMask\<close> then make the next call go on with the same event. Its loop is a \<open>partial_function\<close>, where not
  returning is \<open>None\<close>; it returns because the mask has no bits beyond the three sensors. \<open>akm_reports\<close> says
  what a reader with unlimited room would get.
\<close>

subsection \<open>State\<close>

record 'f akm_sensor = sensor_base +
  akEnabled :: u32
  akPendingMask :: u32
  akReader :: input_reader
  akEvents :: "'f sensors_event list"
  akDelays :: "u64 list"

definition Accelerometer :: nat where "Accelerometer = 0"
definition MagneticField :: nat where "MagneticField = 1"
definition Orientation :: nat where "Orientation = 2"
definition numSensors :: nat where "numSensors = 3"

definition SENSOR_STATE_MASK :: u32 where "SENSOR_STATE_MASK = 0x7FFF"

definition orient_status :: "int \<Rightarrow> u8" where
  "orient_status v = ucast (word_of_int v AND SENSOR_STATE_MASK :: u32)"

subsection \<open>Constructor\<close>

text \<open>One \<open>EVIOCGABS\<close> and the update of the pending event of sensor \<open>j\<close>; \<open>-absinfo.value\<close> can overflow.\<close>

definition init_axis ::
  "'w sensor_kernel \<Rightarrow> int \<Rightarrow> nat \<Rightarrow> (int \<Rightarrow> 'f sensors_event \<Rightarrow> 'f sensors_event option) \<Rightarrow> 'f akm_sensor \<times> 'w
   \<Rightarrow> ('f akm_sensor \<times> 'w) option" where
  "init_axis K axis j upd sw =
     (let (s, w) = sw; (r, w1) = sk_ioctl K (data_fd s) (EVIOCGABS axis) 0 w in
      if io_rc r = 0
      then do { e \<leftarrow> upd (io_value r) (akEvents s ! j); Some (s\<lparr>akEvents := (akEvents s)[j := e]\<rparr>, w1) }
      else Some (s, w1))"

definition axis_x where "axis_x cv c v e = Some (e\<lparr>se_x := cv c v\<rparr>)"
definition axis_y where "axis_y cv c v e = Some (e\<lparr>se_y := cv c v\<rparr>)"
definition axis_z where "axis_z cv c v e = Some (e\<lparr>se_z := cv c v\<rparr>)"

definition init_accel where
  "init_accel K cv sw =
     do { a \<leftarrow> init_axis K EVENT_TYPE_ACCEL_X Accelerometer (axis_x cv CONVERT_A_X) sw;
          b \<leftarrow> init_axis K EVENT_TYPE_ACCEL_Y Accelerometer (axis_y cv CONVERT_A_Y) a;
          init_axis K EVENT_TYPE_ACCEL_Z Accelerometer (axis_z cv CONVERT_A_Z) b }"

definition init_magnetic where
  "init_magnetic K cv sw =
     do { a \<leftarrow> init_axis K EVENT_TYPE_MAGV_X MagneticField (axis_x cv CONVERT_M_X) sw;
          b \<leftarrow> init_axis K EVENT_TYPE_MAGV_Y MagneticField (axis_y cv CONVERT_M_Y) a;
          init_axis K EVENT_TYPE_MAGV_Z MagneticField (axis_z cv CONVERT_M_Z) b }"

definition init_orientation where
  "init_orientation K cv sw =
     do { a \<leftarrow> init_axis K EVENT_TYPE_YAW Orientation (axis_x cv UNIT) sw;
          b \<leftarrow> init_axis K EVENT_TYPE_PITCH Orientation (axis_y cv UNIT) a;
          c \<leftarrow> init_axis K EVENT_TYPE_ROLL Orientation
                (\<lambda>v e. do { n \<leftarrow> smul (- 1) v; axis_z cv UNIT n e }) b;
          init_axis K EVENT_TYPE_ORIENT_STATUS Orientation (\<lambda>v e. Some (e\<lparr>se_status := orient_status v\<rparr>)) c }"

text \<open>A flag of the device is read; when it is set, the sensor counts as enabled and its axes are read.\<close>

definition init_flag ::
  "'w sensor_kernel \<Rightarrow> sensor_ioctl \<Rightarrow> nat \<Rightarrow> ('f akm_sensor \<times> 'w \<Rightarrow> ('f akm_sensor \<times> 'w) option)
   \<Rightarrow> 'f akm_sensor \<times> 'w \<Rightarrow> ('f akm_sensor \<times> 'w) option" where
  "init_flag K cmd j axes sw =
     (let (s, w) = sw; (r, w1) = sk_ioctl K (dev_fd s) cmd 0 w in
      if io_rc r = 0 \<and> io_value r \<noteq> 0 then axes (s\<lparr>akEnabled := akEnabled s OR push_bit j 1\<rparr>, w1)
      else Some (s, w1))"

definition AkmSensor_new ::
  "'w sensor_kernel \<Rightarrow> (conv \<Rightarrow> int \<Rightarrow> 'f) \<Rightarrow> (nat \<Rightarrow> input_event) \<Rightarrow> 'w \<Rightarrow> ('f akm_sensor \<times> 'w) option" where
  "AkmSensor_new K cv junk w =
     (let (b, w1) = SensorBase_new K (Some ''/dev/akm8973_aot'') (Some ''compass'') w;
          s = sensor_base.extend b \<lparr>akEnabled = 0, akPendingMask = 0, akReader = new_reader junk 32,
                akEvents = [event_zero cv ID_A SENSOR_TYPE_ACCELEROMETER SENSOR_STATUS_ACCURACY_HIGH,
                            event_zero cv ID_M SENSOR_TYPE_MAGNETIC_FIELD SENSOR_STATUS_ACCURACY_HIGH,
                            event_zero cv ID_O SENSOR_TYPE_ORIENTATION SENSOR_STATUS_ACCURACY_HIGH],
                akDelays = replicate numSensors 200000000\<rparr>
      in do { a \<leftarrow> init_flag K ECS_IOCTL_APP_GET_AFLAG Accelerometer (init_accel K cv) (open_device K s w1);
              b \<leftarrow> init_flag K ECS_IOCTL_APP_GET_MVFLAG MagneticField (init_magnetic K cv) a;
              c \<leftarrow> init_flag K ECS_IOCTL_APP_GET_MFLAG Orientation (init_orientation K cv) b;
              let (s1, w2) = c;
              let (r, w3) = sk_ioctl K (dev_fd s1) ECS_IOCTL_APP_SET_TFLAG 0 w2;
              Some (if akEnabled s1 = 0 then close_device K s1 w3 else (s1, w3)) })"

subsection \<open>Activation and rate\<close>

definition akm_what :: "int \<Rightarrow> nat option" where
  "akm_what handle =
     (if handle = ID_A then Some Accelerometer else if handle = ID_M then Some MagneticField
      else if handle = ID_O then Some Orientation else None)"

definition akm_cmd :: "nat \<Rightarrow> sensor_ioctl" where
  "akm_cmd what =
     (if what = Accelerometer then ECS_IOCTL_APP_SET_AFLAG
      else if what = MagneticField then ECS_IOCTL_APP_SET_MVFLAG else ECS_IOCTL_APP_SET_MFLAG)"

fun wanted_loop :: "u32 \<Rightarrow> u64 list \<Rightarrow> nat \<Rightarrow> u64 \<Rightarrow> u64" where
  "wanted_loop en [] i wanted = wanted"
| "wanted_loop en (ns # ds) i wanted =
     wanted_loop en ds (Suc i) (if bit en i then (if wanted < ns then wanted else ns) else wanted)"

text \<open>\<open>short delay = int64_t(wanted) / 1000000\<close>; the division truncates.\<close>

definition akm_delay :: "u64 \<Rightarrow> 16 word" where
  "akm_delay wanted =
     (let i = sint wanted in word_of_int (if i < 0 then - ((- i) div 1000000) else i div 1000000))"

definition update_delay :: "'w sensor_kernel \<Rightarrow> 'f akm_sensor \<Rightarrow> 'w \<Rightarrow> int \<times> 'w" where
  "update_delay K s w =
     (if akEnabled s \<noteq> 0 then
        let delay = akm_delay (wanted_loop (akEnabled s) (akDelays s) 0 (- 1));
            (r, w1) = sk_ioctl K (dev_fd s) ECS_IOCTL_APP_SET_DELAY (sint delay) w
        in (if io_rc r \<noteq> 0 then - io_errno r else 0, w1)
      else (0, w))"

definition akm_setEnable ::
  "'w sensor_kernel \<Rightarrow> int \<Rightarrow> int \<Rightarrow> 'f akm_sensor \<Rightarrow> 'w \<Rightarrow> int \<times> 'f akm_sensor \<times> 'w" where
  "akm_setEnable K handle en s w =
     (case akm_what handle of
        None \<Rightarrow> (- EINVAL_code, s, w)
      | Some what \<Rightarrow>
          let newState = (if en \<noteq> 0 then 1 else 0 :: u32) in
          if push_bit what newState = akEnabled s AND push_bit what 1 then (0, s, w)
          else
            let (s1, w1) = (if akEnabled s = 0 then open_device K s w else (s, w));
                (r, w2) = sk_ioctl K (dev_fd s1) (akm_cmd what) (uint newState) w1;
                err = (if io_rc r < 0 then - io_errno r else 0);
                (s2, w3) = (if err = 0 then
                              let s' = s1\<lparr>akEnabled := (akEnabled s1 AND NOT (push_bit what 1)) OR push_bit what newState\<rparr>
                              in (s', snd (update_delay K s' w2))
                            else (s1, w2));
                (s3, w4) = (if akEnabled s2 = 0 then close_device K s2 w3 else (s2, w3))
            in (err, s3, w4))"

definition akm_setDelay ::
  "'w sensor_kernel \<Rightarrow> int \<Rightarrow> int \<Rightarrow> 'f akm_sensor \<Rightarrow> 'w \<Rightarrow> int \<times> 'f akm_sensor \<times> 'w" where
  "akm_setDelay K handle ns s w =
     (case akm_what handle of
        None \<Rightarrow> (- EINVAL_code, s, w)
      | Some what \<Rightarrow>
          if ns < 0 then (- EINVAL_code, s, w)
          else let s1 = s\<lparr>akDelays := (akDelays s)[what := word_of_int ns]\<rparr>; (rc, w1) = update_delay K s1 w
               in (rc, s1, w1))"

subsection \<open>Reading\<close>

definition set_pending ::
  "nat \<Rightarrow> ('f sensors_event \<Rightarrow> 'f sensors_event) \<Rightarrow> u32 \<times> 'f sensors_event list \<Rightarrow> u32 \<times> 'f sensors_event list" where
  "set_pending j f me = (fst me OR push_bit j 1, (snd me)[j := f (snd me ! j)])"

definition processEvent ::
  "(conv \<Rightarrow> int \<Rightarrow> 'f) \<Rightarrow> int \<Rightarrow> int \<Rightarrow> u32 \<times> 'f sensors_event list \<Rightarrow> u32 \<times> 'f sensors_event list" where
  "processEvent cv code val me =
     (if code = EVENT_TYPE_ACCEL_X then set_pending Accelerometer (se_x_update (\<lambda>_. cv CONVERT_A_X val)) me
      else if code = EVENT_TYPE_ACCEL_Y then set_pending Accelerometer (se_y_update (\<lambda>_. cv CONVERT_A_Y val)) me
      else if code = EVENT_TYPE_ACCEL_Z then set_pending Accelerometer (se_z_update (\<lambda>_. cv CONVERT_A_Z val)) me
      else if code = EVENT_TYPE_MAGV_X then set_pending MagneticField (se_x_update (\<lambda>_. cv CONVERT_M_X val)) me
      else if code = EVENT_TYPE_MAGV_Y then set_pending MagneticField (se_y_update (\<lambda>_. cv CONVERT_M_Y val)) me
      else if code = EVENT_TYPE_MAGV_Z then set_pending MagneticField (se_z_update (\<lambda>_. cv CONVERT_M_Z val)) me
      else if code = EVENT_TYPE_YAW then set_pending Orientation (se_x_update (\<lambda>_. cv CONVERT_O_Y val)) me
      else if code = EVENT_TYPE_PITCH then set_pending Orientation (se_y_update (\<lambda>_. cv CONVERT_O_P val)) me
      else if code = EVENT_TYPE_ROLL then set_pending Orientation (se_z_update (\<lambda>_. cv CONVERT_O_R val)) me
      else if code = EVENT_TYPE_ORIENT_STATUS then
        set_pending Orientation (se_status_update (\<lambda>_. orient_status val)) me
      else me)"

text \<open>The loop over the sensors at a synchronisation event: room left, mask, pending events, reports.\<close>

fun akm_sync ::
  "int \<Rightarrow> u32 \<Rightarrow> nat list \<Rightarrow> nat \<Rightarrow> u32 \<Rightarrow> 'f sensors_event list
   \<Rightarrow> nat \<times> u32 \<times> 'f sensors_event list \<times> 'f sensors_event list" where
  "akm_sync t en [] count msk evs = (count, msk, evs, [])"
| "akm_sync t en (j # js) count msk evs =
     (if count = 0 \<or> msk = 0 then (count, msk, evs, [])
      else if bit msk j then
        let ev = (evs ! j)\<lparr>se_timestamp := t\<rparr>; evs1 = evs[j := ev]; msk1 = msk AND NOT (push_bit j 1) in
        if bit en j then
          let (count2, msk2, evs2, out) = akm_sync t en js (count - 1) msk1 evs1 in (count2, msk2, evs2, ev # out)
        else akm_sync t en js count msk1 evs1
      else akm_sync t en js count msk evs)"

partial_function (option) akm_loop ::
  "(conv \<Rightarrow> int \<Rightarrow> 'f) \<Rightarrow> nat \<Rightarrow> 'f akm_sensor \<Rightarrow> 'f sensors_event list
   \<Rightarrow> ('f akm_sensor \<times> 'f sensors_event list) option" where
  "akm_loop cv count s out =
     (if count = 0 then Some (s, out)
      else
        case readEvent (akReader s) of
          None \<Rightarrow> None
        | Some None \<Rightarrow> Some (s, out)
        | Some (Some e) \<Rightarrow>
            (if ev_type e = EV_ABS then
               let me = processEvent cv (ev_code e) (ev_value e) (akPendingMask s, akEvents s)
               in akm_loop cv count
                    (s\<lparr>akPendingMask := fst me, akEvents := snd me, akReader := next_event (akReader s)\<rparr>) out
             else if ev_type e = EV_SYN then
               (case timevalToNano e of
                  None \<Rightarrow> None
                | Some t \<Rightarrow>
                    let r = akm_sync t (akEnabled s) [0..<numSensors] count (akPendingMask s) (akEvents s);
                        s1 = s\<lparr>akPendingMask := fst (snd r), akEvents := fst (snd (snd r))\<rparr>
                    in akm_loop cv (fst r)
                         (if akPendingMask s1 = 0 then s1\<lparr>akReader := next_event (akReader s)\<rparr> else s1)
                         (out @ snd (snd (snd r))))
             else akm_loop cv count (s\<lparr>akReader := next_event (akReader s)\<rparr>) out))"

definition akm_readEvents ::
  "'w sensor_kernel \<Rightarrow> (conv \<Rightarrow> int \<Rightarrow> 'f) \<Rightarrow> int \<Rightarrow> 'f akm_sensor \<Rightarrow> 'w
   \<Rightarrow> (int \<times> 'f sensors_event list \<times> 'f akm_sensor \<times> 'w) option" where
  "akm_readEvents K cv count s w =
     (if count < 1 then Some (- EINVAL_code, [], s, w)
      else
        do { (n, r, w1) \<leftarrow> fill K (data_fd s) (akReader s) w;
             let s1 = s\<lparr>akReader := r\<rparr>;
             if n < 0 then Some (n, [], s1, w1)
             else do { (s2, out) \<leftarrow> akm_loop cv (nat count) s1 [];
                       Some (int (length out), out, s2, w1) } })"

subsection \<open>What an unlimited reader gets\<close>

definition stamped :: "int \<Rightarrow> u32 \<Rightarrow> 'f sensors_event list \<Rightarrow> nat \<Rightarrow> 'f sensors_event" where
  "stamped t msk evs j = (if bit msk j then (evs ! j)\<lparr>se_timestamp := t\<rparr> else evs ! j)"

definition sync_reports :: "int \<Rightarrow> u32 \<Rightarrow> nat list \<Rightarrow> u32 \<Rightarrow> 'f sensors_event list \<Rightarrow> 'f sensors_event list" where
  "sync_reports t en js msk evs = map (stamped t msk evs) (filter (\<lambda>j. bit msk j \<and> bit en j) js)"

definition sync_events :: "int \<Rightarrow> u32 \<Rightarrow> 'f sensors_event list \<Rightarrow> 'f sensors_event list" where
  "sync_events t msk evs = map (stamped t msk evs) [0..<length evs]"

fun akm_reports ::
  "(conv \<Rightarrow> int \<Rightarrow> 'f) \<Rightarrow> u32 \<Rightarrow> u32 \<Rightarrow> 'f sensors_event list \<Rightarrow> input_event list \<Rightarrow> 'f sensors_event list" where
  "akm_reports cv en msk evs [] = []"
| "akm_reports cv en msk evs (e # es) =
     (if ev_type e = EV_ABS then
        let me = processEvent cv (ev_code e) (ev_value e) (msk, evs) in akm_reports cv en (fst me) (snd me) es
      else if ev_type e = EV_SYN then
        let t = tv_sec e * 1000000000 + tv_usec e * 1000
        in sync_reports t en [0..<numSensors] msk evs @ akm_reports cv en 0 (sync_events t msk evs) es
      else akm_reports cv en msk evs es)"

definition akm_stream :: "(conv \<Rightarrow> int \<Rightarrow> 'f) \<Rightarrow> 'f akm_sensor \<Rightarrow> 'f sensors_event list" where
  "akm_stream cv s = akm_reports cv (akEnabled s) (akPendingMask s) (akEvents s) (pending (akReader s))"

text \<open>The same with events that are still to be read from the device.\<close>

definition akm_todo :: "(conv \<Rightarrow> int \<Rightarrow> 'f) \<Rightarrow> 'f akm_sensor \<Rightarrow> input_event list \<Rightarrow> 'f sensors_event list" where
  "akm_todo cv s q = akm_reports cv (akEnabled s) (akPendingMask s) (akEvents s) (pending (akReader s) @ q)"

lemma akm_stream_todo: "akm_stream cv s = akm_todo cv s []"
  by (simp add: akm_stream_def akm_todo_def)

text \<open>The sensor a report names never changes.\<close>

definition sensor_ids :: "'f sensors_event list \<Rightarrow> int list" where
  "sensor_ids evs = map se_sensor evs"

lemma sensor_ids_append: "sensor_ids (xs @ ys) = sensor_ids xs @ sensor_ids ys"
  by (simp add: sensor_ids_def)

lemma sensor_ids_update: "(\<And>e. se_sensor (f e) = se_sensor e) \<Longrightarrow> sensor_ids (evs[j := f (evs ! j)]) = sensor_ids evs"
  by (cases "j < length evs") (auto simp: sensor_ids_def map_update list_update_same_conv not_less list_update_beyond)

lemma sensor_ids_sync: "sensor_ids (sync_events t msk evs) = sensor_ids evs"
  by (rule nth_equalityI) (auto simp: sensor_ids_def sync_events_def stamped_def)

lemma sensor_ids_process: "sensor_ids (snd (processEvent cv code v me)) = sensor_ids (snd me)"
  by (simp add: processEvent_def set_pending_def sensor_ids_update)

lemma akm_reports_ids:
  assumes "length evs = numSensors"
  shows "set (sensor_ids (akm_reports cv en msk evs es)) \<subseteq> set (sensor_ids evs)"
  using assms
proof (induction cv en msk evs es rule: akm_reports.induct)
  case (2 cv en msk evs e es)
  have sync: "set (sensor_ids (sync_reports t en [0..<numSensors] msk evs)) \<subseteq> set (sensor_ids evs)" for t
    using "2.prems" by (auto simp: sensor_ids_def sync_reports_def stamped_def)
  have len: "length (snd (processEvent cv (ev_code e) (ev_value e) (msk, evs))) = numSensors"
    "length (sync_events t msk evs) = numSensors" for t
    using "2.prems" by (simp_all add: processEvent_def set_pending_def sync_events_def)
  note ids = sensor_ids_process [of cv "ev_code e" "ev_value e" "(msk, evs)"]
  consider "ev_type e = EV_ABS" | "ev_type e = EV_SYN" "ev_type e \<noteq> EV_ABS" | "ev_type e \<noteq> EV_SYN" "ev_type e \<noteq> EV_ABS"
    by blast
  then show ?case
  proof cases
    case 1
    with "2.IH"(1) [OF 1 refl] len(1) ids show ?thesis by (simp add: Let_def)
  next
    case 2
    with "2.IH"(2) [OF 2(2,1) refl len(2), unfolded sensor_ids_sync] sync show ?thesis
      by (simp add: Let_def sensor_ids_append)
  next
    case 3
    with "2.IH"(3) [OF 3(2,1)] "2.prems" show ?thesis by simp
  qed
qed (simp add: sensor_ids_def)

subsection \<open>Well-formedness\<close>

definition mask_ok :: "u32 \<Rightarrow> bool" where
  "mask_ok m \<longleftrightarrow> (\<forall>j. bit m j \<longrightarrow> j < numSensors)"

definition akm_ok :: "'f akm_sensor \<Rightarrow> bool" where
  "akm_ok s \<longleftrightarrow> ring_normal (akReader s) \<and> mask_ok (akEnabled s) \<and> mask_ok (akPendingMask s) \<and>
     length (akEvents s) = numSensors \<and> length (akDelays s) = numSensors"

lemma bit_clear: "bit (m AND NOT (2 ^ j) :: u32) i \<longleftrightarrow> bit m i \<and> i \<noteq> j"
  by (auto simp: bit_and_iff bit_not_iff bit_exp_iff dest: bit_imp_le_length)

lemma bit_set: "j < 32 \<Longrightarrow> bit (m OR 2 ^ j :: u32) i \<longleftrightarrow> bit m i \<or> i = j"
  by (auto simp: bit_or_iff bit_exp_iff)

lemma mask_ok_ops [ok_intros]:
  "mask_ok 0" "mask_ok m \<Longrightarrow> mask_ok (m AND NOT (2 ^ j))"
  "mask_ok m \<Longrightarrow> j < numSensors \<Longrightarrow> mask_ok (m OR 2 ^ j)"
  by (auto simp: mask_ok_def bit_clear bit_set numSensors_def)

lemma processEvent_cases:
  assumes "\<And>j f. j < numSensors \<Longrightarrow> Q (set_pending j f me)" "Q me"
  shows "Q (processEvent cv code v me)"
  using assms by (simp add: processEvent_def Accelerometer_def MagneticField_def Orientation_def numSensors_def)

lemma processEvent_ok:
  assumes "mask_ok (fst me)" "length (snd me) = numSensors"
  shows "mask_ok (fst (processEvent cv code v me)) \<and> length (snd (processEvent cv code v me)) = numSensors"
  by (rule processEvent_cases) (use assms mask_ok_ops(3) in \<open>simp_all add: set_pending_def\<close>)

text \<open>Stamping a pending sensor and clearing its bit leaves the other reports and the final events as they were.\<close>

lemma sync_clear:
  fixes evs :: "'f sensors_event list"
  assumes ev: "ev = (evs ! j)\<lparr>se_timestamp := t\<rparr>" and m: "\<And>i. bit m i \<longleftrightarrow> bit msk i \<and> i \<noteq> j" and j: "bit msk j" "j \<notin> set js"
  shows "sync_reports t en js m (evs[j := ev]) = sync_reports t en js msk evs"
    "sync_events t m (evs[j := ev]) = sync_events t msk evs"
    "sync_reports t en (j # js) msk evs = (if bit en j then [ev] else []) @ sync_reports t en js msk evs"
    "\<not> bit m' j \<Longrightarrow> sync_reports t en (j # js) m' evs' = sync_reports t en js m' evs'"
proof -
  show "sync_reports t en js m (evs[j := ev]) = sync_reports t en js msk evs"
    unfolding sync_reports_def using j(2) by (intro map_cong) (auto simp: m stamped_def nth_list_update intro!: filter_cong)
  show "sync_events t m (evs[j := ev]) = sync_events t msk evs"
    unfolding sync_events_def using j(1) by (auto simp: m stamped_def nth_list_update ev)
qed (use j(1) in \<open>simp_all add: sync_reports_def stamped_def ev\<close>)

text \<open>The loop over the sensors, against its reports.\<close>

lemma akm_sync_spec:
  assumes "akm_sync t en js c msk evs = (c', msk', evs', out)" "distinct js"
  shows "c = c' + length out \<and> length evs' = length evs \<and> (\<forall>i. bit msk' i \<longrightarrow> bit msk i) \<and>
     out @ sync_reports t en js msk' evs' = sync_reports t en js msk evs \<and>
     sync_events t msk' evs' = sync_events t msk evs \<and>
     (0 < c' \<longrightarrow> (\<forall>j \<in> set js. \<not> bit msk' j)) \<and> (\<forall>i. i \<notin> set js \<longrightarrow> evs' ! i = evs ! i \<and> bit msk' i = bit msk i)"
  using assms
proof (induction t en js c msk evs arbitrary: c' msk' evs' out rule: akm_sync.induct)
  case (2 t en j js c msk evs)
  show ?case
  proof (cases "c = 0 \<or> msk = 0")
    case True
    with "2.prems" show ?thesis by auto
  next
    case False
    note go = False
    have dis: "j \<notin> set js" "distinct js" using "2.prems"(2) by auto
    show ?thesis
    proof (cases "bit msk j")
      case False
      with go "2.prems" have "akm_sync t en js c msk evs = (c', msk', evs', out)" by simp
      from "2.IH"(3) [OF go False this dis(2)] False dis(1) show ?thesis by (auto simp: sync_reports_def)
    next
      case True
      define ev where "ev = (evs ! j)\<lparr>se_timestamp := t\<rparr>"
      define out1 where "out1 = (if bit en j then tl out else out)"
      define m1 where "m1 = msk AND NOT (push_bit j 1)"
      have m1: "bit m1 i \<longleftrightarrow> bit msk i \<and> i \<noteq> j" for i by (simp add: m1_def bit_clear)
      define c1 where "c1 = (if bit en j then c - 1 else c)"
      have out: "out = (if bit en j then [ev] else []) @ out1" and
        rec: "akm_sync t en js c1 m1 (evs[j := ev]) = (c', msk', evs', out1)"
        using go True "2.prems"(1) unfolding akm_sync.simps ev_def [symmetric] m1_def [symmetric] Let_def
        by (auto simp: out1_def c1_def split: prod.splits if_splits)
      note IH1 = "2.IH"(1) [OF go True refl refl refl, folded ev_def m1_def]
      note IH2 = "2.IH"(2) [OF go True refl refl refl, folded ev_def m1_def]
      have IH: "c1 = c' + length out1 \<and> length evs' = length (evs[j := ev]) \<and> (\<forall>i. bit msk' i \<longrightarrow> bit m1 i) \<and>
          out1 @ sync_reports t en js msk' evs' = sync_reports t en js m1 (evs[j := ev]) \<and>
          sync_events t msk' evs' = sync_events t m1 (evs[j := ev]) \<and> (0 < c' \<longrightarrow> (\<forall>j \<in> set js. \<not> bit msk' j)) \<and>
          (\<forall>i. i \<notin> set js \<longrightarrow> evs' ! i = evs[j := ev] ! i \<and> bit msk' i = bit m1 i)"
      proof (cases "bit en j")
        case en: True
        then have "c1 = c - 1" by (simp add: c1_def)
        with IH1 [OF en _ dis(2)] rec show ?thesis by simp
      next
        case en: False
        then have "c1 = c" by (simp add: c1_def)
        with IH2 [OF en _ dis(2)] rec show ?thesis by simp
      qed
      note clear = sync_clear [OF ev_def m1 True dis(1)]
      have nb: "\<not> bit msk' j" using IH m1 by blast
      have "c = c' + length out" using IH go out by (auto simp: c1_def)
      moreover have "length evs' = length evs" using IH by simp
      moreover have "\<forall>i. bit msk' i \<longrightarrow> bit msk i" using IH m1 by blast
      moreover have "out @ sync_reports t en (j # js) msk' evs' = sync_reports t en (j # js) msk evs"
        using IH clear(1) unfolding clear(3) clear(4) [OF nb] out by simp
      moreover have "sync_events t msk' evs' = sync_events t msk evs" using IH clear(2) by simp
      moreover have "0 < c' \<longrightarrow> (\<forall>i \<in> set (j # js). \<not> bit msk' i)" using IH nb by auto
      moreover have "\<forall>i. i \<notin> set (j # js) \<longrightarrow> evs' ! i = evs ! i \<and> bit msk' i = bit msk i" using IH m1 by auto
      ultimately show ?thesis by blast
    qed
  qed
qed simp

lemma sync_none [simp]: "sync_reports t en js 0 evs = []" "sync_events t 0 evs = evs"
proof -
  have "stamped t 0 evs = (!) evs" by (simp add: stamped_def fun_eq_iff)
  then show "sync_events t 0 evs = evs" by (simp add: sync_events_def map_nth)
qed (simp add: sync_reports_def)

lemma mask_ok_zero: "mask_ok m \<Longrightarrow> (\<And>j. j < numSensors \<Longrightarrow> \<not> bit m j) \<Longrightarrow> m = 0"
  by (rule bit_eqI) (auto simp: mask_ok_def)

subsection \<open>The loop delivers the stream\<close>

definition akm_same :: "'f akm_sensor \<Rightarrow> 'f akm_sensor \<Rightarrow> bool" where
  "akm_same s s' \<longleftrightarrow> akEnabled s' = akEnabled s \<and> akDelays s' = akDelays s \<and> data_fd s' = data_fd s \<and>
     sensor_ids (akEvents s') = sensor_ids (akEvents s)"

lemma akm_same_refl [simp]: "akm_same s s"
  by (simp add: akm_same_def)

definition akm_delivers ::
  "(conv \<Rightarrow> int \<Rightarrow> 'f) \<Rightarrow> nat \<Rightarrow> 'f akm_sensor \<Rightarrow> 'f sensors_event list \<Rightarrow> 'f akm_sensor \<Rightarrow> bool" where
  "akm_delivers cv c s new s' \<longleftrightarrow>
     akm_ok s' \<and> length new \<le> c \<and> (\<forall>q. new @ akm_todo cv s' q = akm_todo cv s q) \<and>
     (length new < c \<longrightarrow> pending (akReader s') = []) \<and> akm_same s s'"

lemma akm_delivers_step:
  assumes "akm_delivers cv c' s1 new s'" "c = c' + length out" "\<And>q. out @ akm_todo cv s1 q = akm_todo cv s q"
    and "akm_same s s1"
  shows "akm_delivers cv c s (out @ new) s'"
  using assms by (auto simp: akm_delivers_def akm_same_def)

text \<open>What one event does: the loop goes on with a state of the same stream, and with fewer events unless the caller's array is full.\<close>

definition akm_progress ::
  "(conv \<Rightarrow> int \<Rightarrow> 'f) \<Rightarrow> nat \<Rightarrow> 'f akm_sensor \<Rightarrow> input_event list \<Rightarrow> nat \<Rightarrow> 'f sensors_event list \<Rightarrow> 'f akm_sensor \<Rightarrow> bool" where
  "akm_progress cv c s es c' new s1 \<longleftrightarrow>
     (\<forall>out. akm_loop cv c s out = akm_loop cv c' s1 (out @ new)) \<and> akm_ok s1 \<and> c = c' + length new \<and>
     (\<forall>q. new @ akm_todo cv s1 q = akm_todo cv s q) \<and> akm_same s s1 \<and>
     (c' = 0 \<or> pending (akReader s1) = es)"

lemma akm_silent_progress:
  assumes ok: "akm_ok s" and q: "pending (akReader s) = e # es" and c: "c \<noteq> 0" and e: "ev_type e \<noteq> EV_SYN \<or> ev_type e = EV_ABS"
  shows "\<exists>s1. akm_progress cv c s es c [] s1"
proof -
  have ring: "ring_normal (akReader s)" using ok by (simp add: akm_ok_def)
  note r = ring_normal_next [OF ring q]
  have peek: "readEvent (akReader s) = Some (Some e)" using ring_normal_peek [OF ring] q by simp
  let ?me = "processEvent cv (ev_code e) (ev_value e) (akPendingMask s, akEvents s)"
  let ?s0 = "if ev_type e = EV_ABS then s\<lparr>akPendingMask := fst ?me, akEvents := snd ?me\<rparr> else s"
  let ?s = "?s0\<lparr>akReader := next_event (akReader s)\<rparr>"
  have "akm_ok ?s" using ok r(1) processEvent_ok [of "(akPendingMask s, akEvents s)"] by (simp add: akm_ok_def)
  moreover have "akm_todo cv ?s rest = akm_todo cv s rest" for rest using e r(2) by (auto simp: akm_todo_def q Let_def)
  moreover have "akm_same s ?s" by (simp add: akm_same_def sensor_ids_process)
  moreover have "akm_loop cv c s out = akm_loop cv c ?s out" for out
    using c peek e by (subst akm_loop.simps) (auto simp: Let_def)
  ultimately show ?thesis using r(2) by (intro exI [of _ ?s]) (simp add: akm_progress_def)
qed

lemma akm_sync_progress:
  assumes ok: "akm_ok s" and q: "pending (akReader s) = e # es" and c: "c \<noteq> 0" and e: "ev_type e = EV_SYN" "ev_type e \<noteq> EV_ABS"
  shows "\<exists>c' new s1. akm_progress cv c s es c' new s1"
proof -
  have ring: "ring_normal (akReader s)" using ok by (simp add: akm_ok_def)
  note r = ring_normal_next [OF ring q]
  have peek: "readEvent (akReader s) = Some (Some e)" using ring_normal_peek [OF ring] q by simp
  let ?t = "tv_sec e * 1000000000 + tv_usec e * 1000"
  obtain c' msk' evs' new where sync: "akm_sync ?t (akEnabled s) [0..<numSensors] c (akPendingMask s) (akEvents s) =
      (c', msk', evs', new)" by (metis prod_cases4)
  note spec = akm_sync_spec [OF sync distinct_upt]
  let ?s1 = "s\<lparr>akPendingMask := msk', akEvents := evs'\<rparr>"
  let ?s = "if msk' = 0 then ?s1\<lparr>akReader := next_event (akReader s)\<rparr> else ?s1"
  have mok: "mask_ok msk'" using spec ok by (auto simp: akm_ok_def mask_ok_def)
  have "akm_ok ?s" using ok r(1) mok spec mask_ok_ops(1) by (simp add: akm_ok_def)
  moreover have "new @ akm_todo cv ?s rest = akm_todo cv s rest" for rest
    using spec e r(2) by (auto simp: akm_todo_def q Let_def)
  moreover have "sensor_ids evs' = sensor_ids (akEvents s)" using spec sensor_ids_sync by metis
  then have "akm_same s ?s" by (simp add: akm_same_def)
  moreover have "akm_loop cv c s out = akm_loop cv c' ?s (out @ new)" for out
    using c peek e r(3) sync by (subst akm_loop.simps) (simp add: Let_def)
  moreover have "c' = 0 \<or> msk' = 0" using spec mask_ok_zero [OF mok] by auto
  ultimately show ?thesis using spec r(2)
    by (intro exI [of _ c'] exI [of _ new] exI [of _ ?s]) (auto simp: akm_progress_def)
qed

lemma akm_event_progress:
  assumes "akm_ok s" "pending (akReader s) = e # es" "c \<noteq> 0"
  shows "\<exists>c' new s1. akm_progress cv c s es c' new s1"
  using akm_silent_progress [OF assms] akm_sync_progress [OF assms] by blast

lemma akm_loop_delivers:
  assumes "akm_ok s"
  shows "\<exists>s' new. akm_loop cv c s out = Some (s', out @ new) \<and> akm_delivers cv c s new s'"
  using assms
proof (induction "pending (akReader s)" arbitrary: s c out)
  case Nil
  then have "readEvent (akReader s) = Some None" using ring_normal_peek [of "akReader s"] by (simp add: akm_ok_def)
  with Nil show ?case
    by (intro exI [of _ s] exI [of _ "[]"]) (auto simp: akm_loop.simps akm_delivers_def)
next
  case (Cons e es)
  have stop: "akm_ok t \<Longrightarrow> akm_loop cv 0 t xs = Some (t, xs) \<and> akm_delivers cv 0 t [] t" for t xs
    by (simp add: akm_loop.simps akm_delivers_def)
  show ?case
  proof (cases "c = 0")
    case True
    then show ?thesis using stop [OF Cons.prems, of out] by auto
  next
    case False
    then obtain c' new1 s1 where p: "akm_progress cv c s es c' new1 s1"
      using akm_event_progress [OF Cons.prems _ False] Cons.hyps(2) by metis
    note p' = p [unfolded akm_progress_def]
    obtain s' new where n: "akm_loop cv c' s1 (out @ new1) = Some (s', (out @ new1) @ new)" "akm_delivers cv c' s1 new s'"
    proof (cases "c' = 0")
      case True
      then show ?thesis using stop [of s1 "out @ new1"] p' that [of s1 "[]"] by simp
    next
      case False
      then show ?thesis using Cons.hyps(1) [of s1 c' "out @ new1"] p' that by auto
    qed
    have "akm_delivers cv c s (new1 @ new) s'"
      by (rule akm_delivers_step [OF n(2)]) (use p' in simp_all)
    then show ?thesis using n(1) p' by auto
  qed
qed

definition akm_driver_ok :: "'w sensor_kernel \<Rightarrow> 'f akm_sensor \<Rightarrow> bool" where
  "akm_driver_ok K s \<longleftrightarrow> normal_kernel K \<and> akm_ok s"

lemma akm_readEvents_delivers:
  assumes K: "normal_kernel K" and ok: "akm_ok s" and count: "1 \<le> count"
  obtains n r w' where "fill K (data_fd s) (akReader s) w = Some (n, r, w')" "n < 0"
      "akm_readEvents K cv count s w = Some (n, [], s\<lparr>akReader := r\<rparr>, w')" "akm_ok (s\<lparr>akReader := r\<rparr>)"
  | n r w' out s' where "fill K (data_fd s) (akReader s) w = Some (n, r, w')" "0 \<le> n"
      "akm_readEvents K cv count s w = Some (int (length out), out, s', w')"
      "akm_delivers cv (nat count) (s\<lparr>akReader := r\<rparr>) out s'"
proof -
  obtain n r w' where f: "fill K (data_fd s) (akReader s) w = Some (n, r, w')" "ring_normal r"
    using fill_normal [OF K, of "akReader s"] ok unfolding akm_ok_def by blast
  then have ok1: "akm_ok (s\<lparr>akReader := r\<rparr>)" using ok by (simp add: akm_ok_def)
  obtain s' out where "akm_loop cv (nat count) (s\<lparr>akReader := r\<rparr>) [] = Some (s', [] @ out)"
      "akm_delivers cv (nat count) (s\<lparr>akReader := r\<rparr>) out s'"
    using akm_loop_delivers [OF ok1] by blast
  with f(1) ok1 count that show ?thesis by (cases "n < 0") (auto simp: akm_readEvents_def)
qed

interpretation akm_driver: sensor_driver "akm_driver_ok K" "akm_readEvents K cv" for K cv
proof (unfold_locales, goal_cases)
  case (1 s count w)
  then have K: "normal_kernel K" "akm_ok s" by (simp_all add: akm_driver_ok_def)
  show ?case
    by (rule akm_readEvents_delivers [OF K 1(2), of w cv])
      (use K 1(2) in \<open>auto simp: akm_driver_ok_def akm_delivers_def\<close>)
qed

lemma akm_read_reliable:
  assumes "reliable_kernel K" "1 \<le> count" "akm_readEvents K cv count s w = Some (n, out, s', w')"
  shows "0 \<le> n"
  using assms reliable_fill [OF assms(1)]
  by (auto simp: akm_readEvents_def Let_def split: if_splits Option.bind_splits prod.splits)

interpretation akm_reliable: reliable_driver "\<lambda>s. reliable_kernel K \<and> akm_driver_ok K s" "akm_readEvents K cv" for K cv
proof (unfold_locales, goal_cases)
  case (1 s count w)
  then show ?case using akm_driver.read_contract [of K s count cv w] by blast
next
  case (2 s count w n out s' w')
  then show ?case using akm_read_reliable [of K count] by blast
qed

subsection \<open>Activation and rate\<close>

lemma open_close_ok:
  "akm_ok s \<Longrightarrow> open_device K s w = (s', w') \<Longrightarrow> akm_ok s' \<and> akEnabled s' = akEnabled s"
  "akm_ok s \<Longrightarrow> close_device K s w = (s', w') \<Longrightarrow> akm_ok s'"
  by (auto simp: open_device_def close_device_def akm_ok_def split: option.splits if_splits prod.splits)

lemma akm_what_less: "akm_what handle = Some what \<Longrightarrow> what < numSensors"
  by (auto simp: akm_what_def Accelerometer_def MagneticField_def Orientation_def numSensors_def split: if_splits)

lemma akm_setDelay_ok:
  "akm_ok s \<Longrightarrow> akm_setDelay K handle ns s w = (rc, s', w') \<Longrightarrow> akm_ok s'"
  by (auto simp: akm_setDelay_def akm_ok_def Let_def split: option.splits if_splits prod.splits)

lemma akm_setEnable_ok:
  assumes "akm_ok s" "akm_setEnable K handle en s w = (rc, s', w')"
  shows "akm_ok s'"
proof (cases "akm_what handle")
  case None
  with assms show ?thesis by (simp add: akm_setEnable_def)
next
  case (Some what)
  then have what: "what < numSensors" by (rule akm_what_less)
  have upd: "akm_ok (s1\<lparr>akEnabled := (akEnabled s1 AND NOT (push_bit what 1)) OR push_bit what (if en \<noteq> 0 then 1 else 0)\<rparr>)"
    if "akm_ok s1" for s1 :: "'a akm_sensor"
    using that what by (auto simp: akm_ok_def intro!: ok_intros)
  let ?new = "if en \<noteq> 0 then 1 else 0 :: u32"
  obtain s1 w1 where o: "(if akEnabled s = 0 then open_device K s w else (s, w)) = (s1, w1)" by fastforce
  then have ok1: "akm_ok s1" using open_close_ok(1) [of s K w s1 w1] assms(1) by (auto split: if_splits)
  obtain r w2 where io: "sk_ioctl K (dev_fd s1) (akm_cmd what) (uint ?new) w1 = (r, w2)" by fastforce
  let ?u = "s1\<lparr>akEnabled := (akEnabled s1 AND NOT (push_bit what 1)) OR push_bit what ?new\<rparr>"
  define err where "err = (if io_rc r < 0 then - io_errno r else 0)"
  obtain s2 w3 where s2: "(if err = 0 then (?u, snd (update_delay K ?u w2)) else (s1, w2)) = (s2, w3)" by fastforce
  obtain s3 w4 where s3: "(if akEnabled s2 = 0 then close_device K s2 w3 else (s2, w3)) = (s3, w4)" by fastforce
  have "akm_setEnable K handle en s w =
      (if push_bit what ?new = akEnabled s AND push_bit what 1 then (0, s, w) else (err, s3, w4))"
    unfolding akm_setEnable_def Some option.case Let_def o prod.case io err_def [symmetric] s2 s3 ..
  moreover have "akm_ok s2" using s2 ok1 upd [OF ok1] by (auto split: if_splits)
  then have "akm_ok s3" using s3 open_close_ok(2) [of s2 K w3 s3 w4] by (auto split: if_splits)
  ultimately show ?thesis using assms by (auto split: if_splits)
qed

lemma init_axis_ok:
  "akm_ok (fst sw) \<Longrightarrow> init_axis K axis j upd sw = Some sw' \<Longrightarrow> akm_ok (fst sw')"
  by (auto simp: init_axis_def akm_ok_def split: prod.splits if_splits Option.bind_splits)

lemma init_axes_ok:
  "akm_ok (fst sw) \<Longrightarrow> init_accel K cv sw = Some sw' \<Longrightarrow> akm_ok (fst sw')"
  "akm_ok (fst sw) \<Longrightarrow> init_magnetic K cv sw = Some sw' \<Longrightarrow> akm_ok (fst sw')"
  "akm_ok (fst sw) \<Longrightarrow> init_orientation K cv sw = Some sw' \<Longrightarrow> akm_ok (fst sw')"
  unfolding init_accel_def init_magnetic_def init_orientation_def bind_eq_Some_conv
  by (blast intro: init_axis_ok)+

lemma init_flag_ok:
  assumes "akm_ok (fst sw)" "j < numSensors" "init_flag K cmd j axes sw = Some sw'"
    and "\<And>a b. akm_ok (fst a) \<Longrightarrow> axes a = Some b \<Longrightarrow> akm_ok (fst b)"
  shows "akm_ok (fst sw')"
proof -
  obtain s w r w1 where sw: "sw = (s, w)" "sk_ioctl K (dev_fd s) cmd 0 w = (r, w1)" by (metis surj_pair)
  have "akm_ok (s\<lparr>akEnabled := akEnabled s OR 2 ^ j\<rparr>)"
    using assms(1,2) mask_ok_ops(3) by (simp add: sw akm_ok_def)
  with assms(1,3) assms(4) [of "(s\<lparr>akEnabled := akEnabled s OR 2 ^ j\<rparr>, w1)" sw'] sw show ?thesis
    by (auto simp: init_flag_def split: if_splits)
qed

lemma AkmSensor_new_ok:
  assumes "AkmSensor_new K cv junk w = Some (s, w')"
  shows "akm_ok s"
proof -
  obtain b0 w1 where b0: "SensorBase_new K (Some ''/dev/akm8973_aot'') (Some ''compass'') w = (b0, w1)" by fastforce
  let ?s = "sensor_base.extend b0 \<lparr>akEnabled = 0, akPendingMask = 0, akReader = new_reader junk 32,
      akEvents = [event_zero cv ID_A SENSOR_TYPE_ACCELEROMETER SENSOR_STATUS_ACCURACY_HIGH,
                  event_zero cv ID_M SENSOR_TYPE_MAGNETIC_FIELD SENSOR_STATUS_ACCURACY_HIGH,
                  event_zero cv ID_O SENSOR_TYPE_ORIENTATION SENSOR_STATUS_ACCURACY_HIGH],
      akDelays = replicate numSensors 200000000\<rparr>"
  have "akm_ok ?s"
    using new_ring_ok [of 32 junk] mask_ok_ops(1)
    by (simp add: akm_ok_def sensor_base.extend_def numSensors_def ring_normal_def)
  then have o: "akm_ok (fst (open_device K ?s w1))" using open_close_ok(1) by (metis prod.collapse)
  obtain a b c where abc: "init_flag K ECS_IOCTL_APP_GET_AFLAG Accelerometer (init_accel K cv) (open_device K ?s w1) = Some a"
      "init_flag K ECS_IOCTL_APP_GET_MVFLAG MagneticField (init_magnetic K cv) a = Some b"
      "init_flag K ECS_IOCTL_APP_GET_MFLAG Orientation (init_orientation K cv) b = Some c"
      and s: "s = fst c \<or> (\<exists>w3. close_device K (fst c) w3 = (s, w'))"
    using assms unfolding AkmSensor_new_def b0 Let_def prod.case bind_eq_Some_conv
    by (elim exE conjE) (rule that, assumption, assumption, assumption, auto split: prod.splits if_splits)
  have "akm_ok (fst c)"
    by (rule init_flag_ok [OF init_flag_ok [OF init_flag_ok [OF o _ abc(1)] _ abc(2)] _ abc(3)])
      (auto simp: Accelerometer_def MagneticField_def Orientation_def numSensors_def intro: init_axes_ok)
  with s show ?thesis by (auto intro: open_close_ok(2))
qed

lemma wanted_loop_least:
  "m = wanted_loop en ds i w \<Longrightarrow> m \<le> w \<and> (\<forall>k < length ds. bit en (i + k) \<longrightarrow> m \<le> ds ! k) \<and>
     (m = w \<or> (\<exists>k < length ds. bit en (i + k) \<and> m = ds ! k))"
proof (induction en ds i w rule: wanted_loop.induct)
  case (2 en ns ds i w)
  define v where "v = (if bit en i then (if w < ns then w else ns) else w)"
  have v: "v \<le> w" "bit en i \<Longrightarrow> v \<le> ns" "v = w \<or> bit en i \<and> v = ns" by (auto simp: v_def)
  have "m = wanted_loop en ds (Suc i) v" using "2.prems" by (simp add: v_def)
  from "2.IH" [folded v_def, OF this] have IH: "m \<le> v" "\<forall>k < length ds. bit en (Suc i + k) \<longrightarrow> m \<le> ds ! k"
    "m = v \<or> (\<exists>k < length ds. bit en (Suc i + k) \<and> m = ds ! k)" by blast+
  have "m \<le> w" using IH(1) v(1) by (rule order_trans)
  moreover have "bit en i \<Longrightarrow> m \<le> ns" using IH(1) v(2) by (meson order_trans)
  ultimately show ?case using IH(2,3) v(3) by (auto simp: All_less_Suc2 Ex_less_Suc2)
qed simp

lemma sint_u64_small: "unat (d :: u64) < 9223372036854775808 \<Longrightarrow> sint d = int (unat d)"
proof -
  assume "unat d < 9223372036854775808"
  then have "int (unat d) < 9223372036854775808" by linarith
  then have "uint d < 9223372036854775808" by simp
  moreover have "- 9223372036854775808 \<le> uint d" using uint_ge_0 [of d] by linarith
  ultimately show ?thesis by (simp add: sint_uint signed_take_bit_int_eq_self_iff)
qed

lemma akm_delay_small:
  assumes "unat d < 32768000000"
  shows "sint (akm_delay d) = int (unat d div 1000000)"
proof -
  have d: "sint d = int (unat d)" using assms by (intro sint_u64_small) linarith
  have "int (unat d) div 1000000 < 32768" "0 \<le> int (unat d) div 1000000" using assms by linarith+
  then have "sint (word_of_int (int (unat d) div 1000000) :: 16 word) = int (unat d) div 1000000"
    by (simp add: signed_of_int signed_take_bit_int_eq_self_iff)
  then show ?thesis using d by (simp add: akm_delay_def Let_def zdiv_int)
qed

text \<open>From 32.768 seconds on the truncation to \<open>short\<close> makes the delay negative.\<close>

lemma akm_delay_wraps:
  assumes "32768000000 \<le> unat d" "unat d < 65536000000"
  shows "sint (akm_delay d) = int (unat d div 1000000) - 65536"
proof -
  have d: "sint d = int (unat d)" using assms by (intro sint_u64_small) linarith
  let ?k = "int (unat d) div 1000000"
  have "32768 \<le> ?k" "?k < 65536" using assms by linarith+
  then have "(?k + 32768) mod 65536 = ?k - 32768" by (simp add: mod_pos_geq)
  then have "sint (word_of_int ?k :: 16 word) = ?k - 65536"
    by (simp add: signed_of_int signed_take_bit_eq_take_bit_shift take_bit_eq_mod)
  then show ?thesis using d by (simp add: akm_delay_def Let_def zdiv_int)
qed

subsection \<open>Properties\<close>

text \<open>
  C25: reading the compass chip in portions of any size loses, repeats and reorders nothing. \<open>readEvents\<close> returns for
  every well-formed driver; unless the device reports an error it delivers a prefix of at most \<open>count\<close> reports of the stream that the unread events and the newly read
  ones stand for and leaves a driver that stands for the rest, and it leaves room unused only when every event has been read.
\<close>

theorem akm_reads_stream:
  assumes K: "normal_kernel K" and ok: "akm_ok s" and count: "1 \<le> count"
  shows "\<exists>n r w' out s'. fill K (data_fd s) (akReader s) w = Some (n, r, w') \<and>
     akm_readEvents K cv count s w = Some (if n < 0 then n else int (length out), out, s', w') \<and> akm_ok s' \<and>
     int (length out) \<le> count \<and>
     (if n < 0 then out = [] \<and> s' = s\<lparr>akReader := r\<rparr>
      else out @ akm_stream cv s' = akm_stream cv (s\<lparr>akReader := r\<rparr>) \<and>
           (int (length out) < count \<longrightarrow> pending (akReader s') = []))"
proof (rule akm_readEvents_delivers [OF K ok count, of w cv], goal_cases)
  case (1 n r w')
  with count show ?case by (intro exI [of _ n] exI [of _ r] exI [of _ w'] exI [of _ "[]"] exI [of _ "s\<lparr>akReader := r\<rparr>"]) simp
next
  case (2 n r w' out s')
  with count show ?case
    by (intro exI [of _ n] exI [of _ r] exI [of _ w'] exI [of _ out] exI [of _ s']) (auto simp: akm_delivers_def akm_stream_todo)
qed

text \<open>
  The device is set to the delay of the fastest enabled sensor. When sensor \<open>j\<close> is enabled and no enabled sensor
  has a smaller delay, \<open>update_delay\<close> makes exactly one system call, with that delay in milliseconds, provided it is below 32.768
  seconds.
\<close>

theorem akm_fastest_rate:
  assumes ok: "akm_ok s" and j: "bit (akEnabled s) j"
    and least: "\<forall>i < numSensors. bit (akEnabled s) i \<longrightarrow> akDelays s ! j \<le> akDelays s ! i"
    and small: "unat (akDelays s ! j) < 32768000000"
  shows "update_delay K s w =
     (let (r, w1) = sk_ioctl K (dev_fd s) ECS_IOCTL_APP_SET_DELAY (int (unat (akDelays s ! j) div 1000000)) w
      in (if io_rc r \<noteq> 0 then - io_errno r else 0, w1))"
proof -
  have jn: "j < numSensors" "length (akDelays s) = numSensors" using ok j by (auto simp: akm_ok_def mask_ok_def)
  let ?m = "wanted_loop (akEnabled s) (akDelays s) 0 (- 1)"
  from wanted_loop_least [OF refl, of "akEnabled s" "akDelays s" 0 "- 1"] have
    m: "\<forall>k < numSensors. bit (akEnabled s) k \<longrightarrow> ?m \<le> akDelays s ! k"
      "?m = - 1 \<or> (\<exists>k < numSensors. bit (akEnabled s) k \<and> ?m = akDelays s ! k)" using jn by auto
  have "?m \<le> akDelays s ! j" using m(1) jn j by blast
  moreover have "akDelays s ! j \<le> ?m" using m(2) least by (metis word_order.extremum)
  ultimately have "?m = akDelays s ! j" by (rule antisym)
  moreover have "akEnabled s \<noteq> 0" using j by auto
  ultimately show ?thesis using akm_delay_small [OF small] by (simp add: update_delay_def Let_def)
qed

text \<open>
  C27: every operation of the compass driver keeps its state well-formed: the two masks have bits for the three sensors only,
  the event and delay arrays have three entries, and the ring buffer is intact. The constructor establishes it.
\<close>

theorem akm_wellformed:
  "(AkmSensor_new K cv junk w = Some (s0, w0) \<longrightarrow> akm_ok s0) \<and>
   (akm_ok s \<and> akm_setEnable K handle en s w = (rc, s1, w1) \<longrightarrow> akm_ok s1) \<and>
   (akm_ok s \<and> akm_setDelay K handle ns s w = (rc, s1, w1) \<longrightarrow> akm_ok s1) \<and>
   (akm_ok s \<and> normal_kernel K \<and> akm_readEvents K cv count s w = Some (n, out, s1, w1) \<longrightarrow> akm_ok s1)"
proof -
  have "akm_ok s1" if "akm_ok s" "normal_kernel K" "akm_readEvents K cv count s w = Some (n, out, s1, w1)"
  proof (cases "count < 1")
    case True
    with that show ?thesis by (simp add: akm_readEvents_def)
  next
    case False
    with akm_driver.read_contract [of K s count cv w] that show ?thesis by (auto simp: akm_driver_ok_def)
  qed
  then show ?thesis using AkmSensor_new_ok akm_setEnable_ok akm_setDelay_ok by metis
qed

text \<open>A driver with unread readings of the accelerometer and the orientation and a synchronisation event.\<close>

definition demo_axis :: "int \<Rightarrow> int \<Rightarrow> input_event" where
  "demo_axis code v = (demo_event v)\<lparr>ev_code := code\<rparr>"

definition demo_syn :: input_event where
  "demo_syn = \<lparr>tv_sec = 1, tv_usec = 2, ev_type = EV_SYN, ev_code = 0, ev_value = 0\<rparr>"

definition demo_akm :: "int akm_sensor" where
  "demo_akm = \<lparr>dev_name = Some ''/dev/akm8973_aot'', data_name = Some ''compass'', dev_fd = 5, data_fd = 5,
     akEnabled = 5, akPendingMask = 0,
     akReader = \<lparr>mBuffer = [demo_axis 0 7, demo_axis 3 90, demo_syn, demo_syn, demo_syn, demo_syn, demo_syn, demo_syn],
       mNum = 4, mHead = 3, mCurr = 0, mFreeSpace = 1\<rparr>,
     akEvents = [event_zero (\<lambda>c i. i) ID_A 1 3, event_zero (\<lambda>c i. i) ID_M 2 3, event_zero (\<lambda>c i. i) ID_O 3 3],
     akDelays = [20000000, 200000000, 66000000]\<rparr>"

lemma demo_akm_pending: "pending (akReader demo_akm) = [demo_axis 0 7, demo_axis 3 90, demo_syn]"
  by (simp add: pending_def demo_akm_def upt_rec)

lemma demo_akm_ok: "akm_ok demo_akm"
proof -
  have "mask_ok (5 :: u32)"
    using mask_ok_ops(3) [OF mask_ok_ops(3) [OF mask_ok_ops(1), of 0], of 2] by (simp add: numSensors_def)
  then show ?thesis
    using demo_akm_pending mask_ok_ops(1)
    by (simp add: akm_ok_def ring_normal_def) (simp add: demo_akm_def ring_ok_def numSensors_def normal_time_def
        demo_axis_def demo_event_def demo_syn_def)
qed

theorem akm_reads_stream_witness:
  "\<exists>out s'. akm_readEvents demo_sensors (\<lambda>c i. i) 1 demo_akm [] = Some (1, out, s', []) \<and>
     map se_sensor out = [ID_A] \<and> map se_sensor (akm_stream (\<lambda>c i. i) s') = [ID_O]"
proof -
  have f: "fill demo_sensors (data_fd demo_akm) (akReader demo_akm) [] = Some (0, akReader demo_akm, [])"
    by (simp add: fill_def demo_sensors_def demo_akm_def reader_fill_def reader_store_def Let_def)
  have st: "map se_sensor (akm_stream (\<lambda>c i. i) demo_akm) = [ID_A, ID_O]"
    unfolding akm_stream_def demo_akm_pending
    by (simp add: demo_akm_def demo_axis_def demo_event_def demo_syn_def EV_ABS_def EV_SYN_def processEvent_def
        set_pending_def EVENT_TYPE_ACCEL_X_def EVENT_TYPE_ACCEL_Y_def EVENT_TYPE_ACCEL_Z_def EVENT_TYPE_YAW_def
        EVENT_TYPE_MAGV_X_def EVENT_TYPE_MAGV_Y_def EVENT_TYPE_MAGV_Z_def sync_reports_def stamped_def numSensors_def
        Accelerometer_def Orientation_def event_zero_def ID_A_def ID_O_def upt_rec)
  obtain out s' where r: "akm_readEvents demo_sensors (\<lambda>c i. i) 1 demo_akm [] = Some (int (length out), out, s', [])"
      "length out \<le> 1" "out @ akm_stream (\<lambda>c i. i) s' = akm_stream (\<lambda>c i. i) demo_akm"
      "length out < 1 \<longrightarrow> pending (akReader s') = []"
    using akm_reads_stream [OF demo_sensors_normal demo_akm_ok, of 1 "[]" "\<lambda>c i. i"] f by auto
  have ne: "out \<noteq> []"
  proof
    assume "out = []"
    then have "akm_stream (\<lambda>c i. i) s' = []" using r(4) by (simp add: akm_stream_def)
    with r(3) st \<open>out = []\<close> show False by simp
  qed
  then obtain a where "out = [a]" using r(2) by (cases out) auto
  moreover have "map se_sensor (out @ akm_stream (\<lambda>c i. i) s') = [ID_A, ID_O]" using r(3) st by simp
  ultimately show ?thesis using r(1) by auto
qed

theorem akm_fastest_rate_witness:
  "update_delay demo_sensors demo_akm [] = (0, [(ECS_IOCTL_APP_SET_DELAY, 20)])"
proof -
  have "bit (akEnabled demo_akm) 0" "unat (akDelays demo_akm ! 0) < 32768000000"
    "\<forall>i < numSensors. bit (akEnabled demo_akm) i \<longrightarrow> akDelays demo_akm ! 0 \<le> akDelays demo_akm ! i"
    by (simp_all add: demo_akm_def numSensors_def All_less_Suc numeral_3_eq_3)
  from akm_fastest_rate [OF demo_akm_ok this(1,3,2), of demo_sensors "[]"] show ?thesis
    by (simp add: demo_sensors_def demo_akm_def Let_def)
qed

theorem akm_wellformed_witness:
  "akm_ok (fst (snd (akm_setEnable demo_sensors ID_M 1 demo_akm [])))"
  using akm_wellformed [where s = demo_akm and K = demo_sensors and handle = ID_M and en = 1 and w = "[]"] demo_akm_ok
  by (metis prod.collapse)

end
