(* ===== verification/Nusensors.thy ===== *)
theory Nusensors
  imports Simple_Sensors Akm_Sensor
begin

text \<open>
  The sensors module, \<open>libsensors/nusensors.cpp\<close> and \<open>libsensors/sensors.c\<close>: the poll context with
  its three drivers, activation, delays, and the poll loop that fills the framework's array.

  The array is a list, \<open>data\<close> an index into it. \<open>poll_drivers\<close> is one pass over the drivers,
  \<open>poll_loop\<close> the loop around it; it waits in \<open>poll\<close> and may do so for ever, so it is a \<open>partial_function\<close>.
\<close>

subsection \<open>State\<close>

record 'f poll_context =
  pc_light :: "'f simple_sensor"
  pc_proximity :: "'f simple_sensor"
  pc_akm :: "'f akm_sensor"
  pc_fds :: "int list"
  pc_revents :: "bool list"
  mWritePipeFd :: int

definition light_index :: nat where "light_index = 0"
definition proximity_index :: nat where "proximity_index = 1"
definition akm_index :: nat where "akm_index = 2"
definition numSensorDrivers :: nat where "numSensorDrivers = 3"
definition wake_index :: nat where "wake_index = 3"

definition handleToDriver :: "int \<Rightarrow> nat option" where
  "handleToDriver handle =
     (if handle = ID_A \<or> handle = ID_M \<or> handle = ID_O then Some akm_index
      else if handle = ID_P then Some proximity_index
      else if handle = ID_L then Some light_index else None)"

definition new_poll_context ::
  "'w sensor_kernel \<Rightarrow> (conv \<Rightarrow> int \<Rightarrow> 'f) \<Rightarrow> (nat \<Rightarrow> input_event) \<Rightarrow> 'w \<Rightarrow> ('f poll_context \<times> 'w) option" where
  "new_poll_context K cv junk w =
     (let (l, w1) = LightSensor_new K cv junk w;
          (p, w2) = ProximitySensor_new K cv junk w1
      in do { (a, w3) \<leftarrow> AkmSensor_new K cv junk w2;
              let (rd, wr, w4) = sk_pipe K w3;
              Some (\<lparr>pc_light = l, pc_proximity = p, pc_akm = a, pc_fds = [getFd l, getFd p, getFd a, rd],
                     pc_revents = [False, False, False, False], mWritePipeFd = wr\<rparr>, w4) })"

definition delete_poll_context :: "'w sensor_kernel \<Rightarrow> 'f poll_context \<Rightarrow> 'w \<Rightarrow> 'w" where
  "delete_poll_context K c w =
     sk_close K (mWritePipeFd c) (sk_close K (pc_fds c ! wake_index)
       (SensorBase_delete K (pc_akm c) (SensorBase_delete K (pc_proximity c) (SensorBase_delete K (pc_light c) w))))"

subsection \<open>Activation and delay\<close>

text \<open>The virtual calls on \<open>mSensors[index]\<close>.\<close>

definition driver_setEnable ::
  "'w sensor_kernel \<Rightarrow> (conv \<Rightarrow> int \<Rightarrow> 'f) \<Rightarrow> nat \<Rightarrow> int \<Rightarrow> int \<Rightarrow> 'f poll_context \<Rightarrow> 'w \<Rightarrow> int \<times> 'f poll_context \<times> 'w" where
  "driver_setEnable K cv i handle en c w =
     (if i = light_index then
        let (err, s, w1) = light_setEnable K cv en (pc_light c) w in (err, c\<lparr>pc_light := s\<rparr>, w1)
      else if i = proximity_index then
        let (err, s, w1) = proximity_setEnable K cv en (pc_proximity c) w in (err, c\<lparr>pc_proximity := s\<rparr>, w1)
      else let (err, s, w1) = akm_setEnable K handle en (pc_akm c) w in (err, c\<lparr>pc_akm := s\<rparr>, w1))"

definition activate ::
  "'w sensor_kernel \<Rightarrow> (conv \<Rightarrow> int \<Rightarrow> 'f) \<Rightarrow> int \<Rightarrow> int \<Rightarrow> 'f poll_context \<Rightarrow> 'w \<Rightarrow> int \<times> 'f poll_context \<times> 'w" where
  "activate K cv handle enabled c w =
     (case handleToDriver handle of
        None \<Rightarrow> (- EINVAL_code, c, w)
      | Some i \<Rightarrow>
          let (err, c1, w1) = driver_setEnable K cv i handle enabled c w in
          if enabled \<noteq> 0 \<and> err = 0
          then let (_, _, w2) = sk_write K (mWritePipeFd c1) ''W'' w1 in (err, c1, w2)
          else (err, c1, w1))"

definition setDelay :: "'w sensor_kernel \<Rightarrow> int \<Rightarrow> int \<Rightarrow> 'f poll_context \<Rightarrow> 'w \<Rightarrow> int \<times> 'f poll_context \<times> 'w" where
  "setDelay K handle ns c w =
     (case handleToDriver handle of
        None \<Rightarrow> (- EINVAL_code, c, w)
      | Some i \<Rightarrow>
          if i = akm_index
          then let (rc, s, w1) = akm_setDelay K handle ns (pc_akm c) w in (rc, c\<lparr>pc_akm := s\<rparr>, w1)
          else (0, c, w))"

subsection \<open>Polling\<close>

definition hasPendingEvents :: "nat \<Rightarrow> 'f poll_context \<Rightarrow> bool" where
  "hasPendingEvents i c =
     (if i = light_index then mHasPendingEvent (pc_light c)
      else if i = proximity_index then mHasPendingEvent (pc_proximity c) else False)"

definition driver_read ::
  "'w sensor_kernel \<Rightarrow> (conv \<Rightarrow> int \<Rightarrow> 'f) \<Rightarrow> nat \<Rightarrow> int \<Rightarrow> 'f poll_context \<Rightarrow> 'w
   \<Rightarrow> (int \<times> 'f sensors_event list \<times> 'f poll_context \<times> 'w) option" where
  "driver_read K cv i count c w =
     (if i = light_index then
        do { (n, out, s, w1) \<leftarrow> light_readEvents K cv count (pc_light c) w; Some (n, out, c\<lparr>pc_light := s\<rparr>, w1) }
      else if i = proximity_index then
        do { (n, out, s, w1) \<leftarrow> proximity_readEvents K cv count (pc_proximity c) w;
             Some (n, out, c\<lparr>pc_proximity := s\<rparr>, w1) }
      else
        do { (n, out, s, w1) \<leftarrow> akm_readEvents K cv count (pc_akm c) w; Some (n, out, c\<lparr>pc_akm := s\<rparr>, w1) })"

record ('f, 'w) poll_state =
  p_ctx :: "'f poll_context"
  p_world :: 'w
  p_buf :: "'f sensors_event list"
  p_data :: int
  p_count :: int
  p_nb :: int

fun poll_drivers ::
  "'w sensor_kernel \<Rightarrow> (conv \<Rightarrow> int \<Rightarrow> 'f) \<Rightarrow> nat list \<Rightarrow> ('f, 'w) poll_state \<Rightarrow> ('f, 'w) poll_state option" where
  "poll_drivers K cv [] p = Some p"
| "poll_drivers K cv (i # is) p =
     (if p_count p = 0 then Some p
      else if pc_revents (p_ctx p) ! i \<or> hasPendingEvents i (p_ctx p) then
        do { (nb, out, c, w) \<leftarrow> driver_read K cv i (p_count p) (p_ctx p) (p_world p);
             buf \<leftarrow> mem_write (p_buf p) (p_data p) out;
             let c1 = (if nb < p_count p then c\<lparr>pc_revents := (pc_revents c)[i := False]\<rparr> else c);
             poll_drivers K cv is
               (p\<lparr>p_ctx := c1, p_world := w, p_buf := buf, p_data := p_data p + nb, p_count := p_count p - nb,
                  p_nb := p_nb p + nb\<rparr>) }
      else poll_drivers K cv is p)"

text \<open>The body of the loop: the state after it and, when the loop ends, the value returned.\<close>

definition poll_round ::
  "'w sensor_kernel \<Rightarrow> (conv \<Rightarrow> int \<Rightarrow> 'f) \<Rightarrow> ('f, 'w) poll_state \<Rightarrow> (('f, 'w) poll_state \<times> int option) option" where
  "poll_round K cv p =
     do { q \<leftarrow> poll_drivers K cv [0..<numSensorDrivers] p;
          Some (if p_count q = 0 then (q, Some (p_nb q))
                else
                  let ((res, rev), w) = sk_poll K (pc_fds (p_ctx q)) (p_nb q \<noteq> 0) (p_world q);
                      c = (p_ctx q)\<lparr>pc_revents := rev\<rparr>
                  in case res of
                       Inl e \<Rightarrow> (q\<lparr>p_ctx := c, p_world := w\<rparr>, Some (- e))
                     | Inr n \<Rightarrow>
                         let q1 = (if rev ! wake_index
                                   then q\<lparr>p_ctx := c\<lparr>pc_revents := rev[wake_index := False]\<rparr>,
                                          p_world := sk_take K (pc_fds c ! wake_index) w\<rparr>
                                   else q\<lparr>p_ctx := c, p_world := w\<rparr>)
                         in (q1, if n \<noteq> 0 then None else Some (p_nb q1))) }"

partial_function (option) poll_loop ::
  "'w sensor_kernel \<Rightarrow> (conv \<Rightarrow> int \<Rightarrow> 'f) \<Rightarrow> ('f, 'w) poll_state \<Rightarrow> (int \<times> ('f, 'w) poll_state) option" where
  "poll_loop K cv p =
     do { (q, fin) \<leftarrow> poll_round K cv p;
          case fin of None \<Rightarrow> poll_loop K cv q | Some r \<Rightarrow> Some (r, q) }"

definition poll_start ::
  "'f sensors_event list \<Rightarrow> int \<Rightarrow> 'f poll_context \<Rightarrow> 'w \<Rightarrow> ('f, 'w) poll_state" where
  "poll_start buf count c w = \<lparr>p_ctx = c, p_world = w, p_buf = buf, p_data = 0, p_count = count, p_nb = 0\<rparr>"

definition pollEvents ::
  "'w sensor_kernel \<Rightarrow> (conv \<Rightarrow> int \<Rightarrow> 'f) \<Rightarrow> 'f sensors_event list \<Rightarrow> int \<Rightarrow> 'f poll_context \<Rightarrow> 'w
   \<Rightarrow> (int \<times> ('f, 'w) poll_state) option" where
  "pollEvents K cv buf count c w =
     poll_loop K cv (poll_start buf count c w)"

subsection \<open>The module\<close>

text \<open>Handle and type of the entries of \<open>sSensorList\<close>; \<open>SENSORS_HANDLE_BASE\<close> is 0.\<close>

definition sSensorList :: "(string \<times> int \<times> int) list" where
  "sSensorList =
     [(''BMA150 3-axis Accelerometer'', ID_A, SENSOR_TYPE_ACCELEROMETER),
      (''AK8973 3-axis Magnetic field sensor'', ID_M, SENSOR_TYPE_MAGNETIC_FIELD),
      (''AK8973 Orientation sensor'', ID_O, SENSOR_TYPE_ORIENTATION),
      (''CM3602 Proximity sensor'', ID_P, SENSOR_TYPE_PROXIMITY),
      (''CM3602 Light sensor'', ID_L, SENSOR_TYPE_LIGHT)]"

definition sensors_get_sensors_list :: "nat \<times> (string \<times> int \<times> int) list" where
  "sensors_get_sensors_list = (length sSensorList, sSensorList)"

definition init_nusensors where
  "init_nusensors K cv junk w = do { (c, w1) \<leftarrow> new_poll_context K cv junk w; Some (0 :: int, c, w1) }"

text \<open>The functions of the device, which forward to the context.\<close>

definition poll_close where
  "poll_close K c w = (0 :: int, case c of None \<Rightarrow> w | Some ctx \<Rightarrow> delete_poll_context K ctx w)"

definition poll_activate where
  "poll_activate K cv c handle enabled w = activate K cv handle enabled c w"

definition poll_setDelay where
  "poll_setDelay K c handle ns w = setDelay K handle ns c w"

definition poll_poll where
  "poll_poll K cv c buf count w = pollEvents K cv buf count c w"

text \<open>Every sensor the module lists has a driver.\<close>

lemma listed_sensors_have_drivers: "list_all (\<lambda>(_, h, _). handleToDriver h \<noteq> None) (snd sensors_get_sensors_list)"
  by (simp add: sensors_get_sensors_list_def sSensorList_def handleToDriver_def)

subsection \<open>Safety of the poll loop\<close>

definition poll_ok :: "'w sensor_kernel \<Rightarrow> 'f poll_context \<Rightarrow> bool" where
  "poll_ok K c \<longleftrightarrow> simple_ok K (pc_light c) \<and> simple_ok K (pc_proximity c) \<and> akm_driver_ok K (pc_akm c)"

lemma driver_read_counts:
  assumes ok: "poll_ok K c" and count: "1 \<le> count"
  obtains n out c' w' where "driver_read K cv i count c w = Some (n, out, c', w')" "poll_ok K c'"
    "n \<le> int (length out)" "int (length out) \<le> count"
proof -
  note k = ok [unfolded poll_ok_def]
  consider "i = light_index" | "i = proximity_index" "i \<noteq> light_index" | "i \<noteq> light_index" "i \<noteq> proximity_index" by blast
  then show ?thesis
  proof cases
    case 1
    with that k light_driver.read_contract [of K "pc_light c" count cv w] count show ?thesis
      by (auto simp: driver_read_def poll_ok_def)
  next
    case 2
    with that k proximity_driver.read_contract [of K "pc_proximity c" count cv w] count show ?thesis
      by (auto simp: driver_read_def poll_ok_def)
  next
    case 3
    with that k akm_driver.read_contract [of K "pc_akm c" count cv w] count show ?thesis
      by (auto simp: driver_read_def poll_ok_def)
  qed
qed

lemma driver_read_reliable:
  assumes "reliable_kernel K" "poll_ok K c" "1 \<le> count" "driver_read K cv i count c w = Some (n, out, c', w')"
  shows "0 \<le> n"
proof -
  note k = assms(1) assms(2) [unfolded poll_ok_def]
  show ?thesis
    using assms(4) k light_reliable.read_reliable [OF _ assms(3), of K "pc_light c" cv w n out]
      proximity_reliable.read_reliable [OF _ assms(3), of K "pc_proximity c" cv w n out]
      akm_reliable.read_reliable [OF _ assms(3), of K "pc_akm c" cv w n out]
    by (auto simp: driver_read_def split: if_splits Option.bind_splits)
qed

text \<open>Whether a driver reports an error in a pass over the drivers.\<close>

fun read_failed :: "'w sensor_kernel \<Rightarrow> (conv \<Rightarrow> int \<Rightarrow> 'f) \<Rightarrow> nat list \<Rightarrow> ('f, 'w) poll_state \<Rightarrow> bool" where
  "read_failed K cv [] p \<longleftrightarrow> False"
| "read_failed K cv (i # is) p \<longleftrightarrow>
     (if p_count p = 0 then False
      else if pc_revents (p_ctx p) ! i \<or> hasPendingEvents i (p_ctx p) then
        case driver_read K cv i (p_count p) (p_ctx p) (p_world p) of
          None \<Rightarrow> False
        | Some (nb, _) \<Rightarrow> nb < 0 \<or> (case poll_drivers K cv [i] p of None \<Rightarrow> False | Some p1 \<Rightarrow> read_failed K cv is p1)
      else read_failed K cv is p)"

definition round_failed :: "'w sensor_kernel \<Rightarrow> (conv \<Rightarrow> int \<Rightarrow> 'f) \<Rightarrow> ('f, 'w) poll_state \<Rightarrow> bool" where
  "round_failed K cv p \<longleftrightarrow> read_failed K cv [0..<numSensorDrivers] p"

text \<open>What holds between the passes: the room the caller gave is split into what is filled and what is left.\<close>

definition poll_inv :: "'w sensor_kernel \<Rightarrow> nat \<Rightarrow> 'f sensors_event list \<Rightarrow> ('f, 'w) poll_state \<Rightarrow> bool" where
  "poll_inv K room buf p \<longleftrightarrow>
     poll_ok K (p_ctx p) \<and> 0 \<le> p_data p \<and> 0 \<le> p_count p \<and> p_data p + p_count p = int room \<and> p_nb p = p_data p \<and>
     length (p_buf p) = length buf \<and> room \<le> length buf \<and> drop room (p_buf p) = drop room buf"

lemma take_le_cong: "m \<le> n \<Longrightarrow> take n xs = take n ys \<Longrightarrow> take m xs = take m ys"
  by (metis min.absorb1 take_take)

lemma poll_drivers_safe:
  assumes "poll_inv K room buf p" "\<not> read_failed K cv is p"
  shows "\<exists>q. poll_drivers K cv is p = Some q \<and> poll_inv K room buf q \<and> p_nb p \<le> p_nb q \<and>
     take (nat (p_nb p)) (p_buf q) = take (nat (p_nb p)) (p_buf p)"
  using assms
proof (induction "is" arbitrary: p)
  case (Cons i "is")
  show ?case
  proof (cases "p_count p = 0 \<or> \<not> (pc_revents (p_ctx p) ! i \<or> hasPendingEvents i (p_ctx p))")
    case True
    with Cons show ?thesis by (auto split: if_splits)
  next
    case False
    with Cons.prems have c: "1 \<le> p_count p" "poll_ok K (p_ctx p)" by (auto simp: poll_inv_def)
    obtain n out c' w' where d: "driver_read K cv i (p_count p) (p_ctx p) (p_world p) = Some (n, out, c', w')"
        "poll_ok K c'" "n \<le> int (length out)" "int (length out) \<le> p_count p"
      using driver_read_counts [OF c(2,1)] by blast
    have n: "0 \<le> n" using Cons.prems(2) False d(1) by auto
    have fits: "0 \<le> p_data p" "p_data p + int (length out) \<le> int (length (p_buf p))"
      using Cons.prems d(4) by (auto simp: poll_inv_def)
    let ?buf = "take (nat (p_data p)) (p_buf p) @ out @ drop (nat (p_data p) + length out) (p_buf p)"
    have w: "mem_write (p_buf p) (p_data p) out = Some ?buf" using fits by (simp add: mem_write_def)
    let ?c = "if n < p_count p then c'\<lparr>pc_revents := (pc_revents c')[i := False]\<rparr> else c'"
    let ?p = "p\<lparr>p_ctx := ?c, p_world := w', p_buf := ?buf, p_data := p_data p + n, p_count := p_count p - n, p_nb := p_nb p + n\<rparr>"
    have "drop room ?buf = drop room buf"
    proof -
      have "nat (p_data p) + length out \<le> room" using Cons.prems d(4) by (auto simp: poll_inv_def)
      then have "drop room ?buf = drop room (p_buf p)" using fits by simp
      with Cons.prems show ?thesis by (simp add: poll_inv_def)
    qed
    moreover have "length ?buf = length (p_buf p)" using fits by simp
    ultimately have "poll_inv K room buf ?p"
      using Cons.prems d n by (auto simp: poll_inv_def poll_ok_def)
    moreover have "\<not> read_failed K cv is ?p" using Cons.prems(2) False d(1) w by (simp add: Let_def)
    ultimately obtain q where q: "poll_drivers K cv is ?p = Some q" "poll_inv K room buf q"
        "p_nb ?p \<le> p_nb q" "take (nat (p_nb ?p)) (p_buf q) = take (nat (p_nb ?p)) ?buf" using Cons.IH [of ?p] by auto
    have "take (nat (p_nb p)) (p_buf q) = take (nat (p_nb p)) (p_buf p)"
    proof -
      have "nat (p_nb p) \<le> nat (p_nb ?p)" using n by simp
      then have "take (nat (p_nb p)) (p_buf q) = take (nat (p_nb p)) ?buf" using q(4) by (rule take_le_cong)
      also have "\<dots> = take (nat (p_nb p)) (p_buf p)" using Cons.prems fits by (simp add: poll_inv_def)
      finally show ?thesis .
    qed
    with False d n w q show ?thesis by (simp add: Let_def)
  qed
qed simp

lemma reliable_drivers:
  assumes "reliable_kernel K" "poll_inv K room buf p"
  shows "\<not> read_failed K cv is p"
  using assms(2)
proof (induction "is" arbitrary: p)
  case (Cons i "is")
  show ?case
  proof (cases "p_count p = 0 \<or> \<not> (pc_revents (p_ctx p) ! i \<or> hasPendingEvents i (p_ctx p))")
    case True
    with Cons show ?thesis by (auto split: if_splits)
  next
    case False
    with Cons.prems have c: "1 \<le> p_count p" "poll_ok K (p_ctx p)" by (auto simp: poll_inv_def)
    obtain nb out c' w' where r: "driver_read K cv i (p_count p) (p_ctx p) (p_world p) = Some (nb, out, c', w')"
      by (rule driver_read_counts [OF c(2,1)])
    have n: "0 \<le> nb" by (rule driver_read_reliable [OF assms(1) c(2,1) r])
    then have "\<not> read_failed K cv [i] p" using r by (simp del: poll_drivers.simps split: option.split)
    from poll_drivers_safe [OF Cons.prems this] obtain q where "poll_drivers K cv [i] p = Some q" "poll_inv K room buf q" by blast
    with Cons.IH [of q] n r False show ?thesis by (simp del: poll_drivers.simps)
  qed
qed simp

text \<open>Iterations of the loop as steps, those in which no driver reports an error, and the value of the loop at the end of them.\<close>

definition poll_step :: "'w sensor_kernel \<Rightarrow> (conv \<Rightarrow> int \<Rightarrow> 'f) \<Rightarrow> ('f, 'w) poll_state \<Rightarrow> ('f, 'w) poll_state \<Rightarrow> bool" where
  "poll_step K cv p q \<longleftrightarrow> poll_round K cv p = Some (q, None)"

definition good_step :: "'w sensor_kernel \<Rightarrow> (conv \<Rightarrow> int \<Rightarrow> 'f) \<Rightarrow> ('f, 'w) poll_state \<Rightarrow> ('f, 'w) poll_state \<Rightarrow> bool" where
  "good_step K cv p q \<longleftrightarrow> poll_step K cv p q \<and> \<not> round_failed K cv p"

lemma good_steps: "steps (good_step K cv) p q \<Longrightarrow> steps (poll_step K cv) p q"
  by (induction rule: steps.induct) (auto simp: good_step_def intro: steps.intros)

lemma poll_loop_steps: "steps (poll_step K cv) p q \<Longrightarrow> poll_loop K cv p = poll_loop K cv q"
proof (induction rule: steps.induct)
  case (steps_step s t u)
  then have "poll_loop K cv t = poll_loop K cv u" by (subst poll_loop.simps) (simp add: poll_step_def)
  with steps_step.IH show ?case by simp
qed simp

lemma poll_loop_end: "poll_round K cv p = Some (q, Some r) \<Longrightarrow> poll_loop K cv p = Some (r, q)"
  by (simp add: poll_loop.simps)

lemma poll_round_safe:
  assumes "poll_inv K room buf p" "\<not> round_failed K cv p"
  obtains q fin where "poll_round K cv p = Some (q, fin)" "poll_inv K room buf q" "p_nb p \<le> p_nb q"
    "take (nat (p_nb p)) (p_buf q) = take (nat (p_nb p)) (p_buf p)"
    "\<forall>r. fin = Some r \<longrightarrow> r = p_nb q \<or> (\<exists>fds now w rev w' e. sk_poll K fds now w = ((Inl e, rev), w') \<and> r = - e)"
proof -
  obtain q1 where q1: "poll_drivers K cv [0..<numSensorDrivers] p = Some q1" "poll_inv K room buf q1" "p_nb p \<le> p_nb q1"
      "take (nat (p_nb p)) (p_buf q1) = take (nat (p_nb p)) (p_buf p)"
    using poll_drivers_safe [OF assms(1)] assms(2) unfolding round_failed_def by blast
  have upd: "poll_inv K room buf (q1\<lparr>p_ctx := (p_ctx q1)\<lparr>pc_revents := rev\<rparr>, p_world := w\<rparr>)" for rev w
    using q1(2) by (simp add: poll_inv_def poll_ok_def)
  show ?thesis
  proof (cases "p_count q1 = 0")
    case True
    with q1 show ?thesis by (intro that [of q1 "Some (p_nb q1)"]) (simp_all add: poll_round_def)
  next
    case False
    obtain res rev w where pl: "sk_poll K (pc_fds (p_ctx q1)) (p_nb q1 \<noteq> 0) (p_world q1) = ((res, rev), w)"
      by (metis prod.exhaust)
    show ?thesis
    proof (cases res)
      case (Inl e)
      let ?q = "q1\<lparr>p_ctx := (p_ctx q1)\<lparr>pc_revents := rev\<rparr>, p_world := w\<rparr>"
      show ?thesis
        by (rule that [of ?q "Some (- e)"]) (use False q1 pl Inl upd in \<open>auto simp: poll_round_def\<close>)
    next
      case (Inr n)
      let ?q = "if rev ! wake_index
         then q1\<lparr>p_ctx := (p_ctx q1)\<lparr>pc_revents := rev[wake_index := False]\<rparr>,
                 p_world := sk_take K (pc_fds (p_ctx q1) ! wake_index) w\<rparr>
         else q1\<lparr>p_ctx := (p_ctx q1)\<lparr>pc_revents := rev\<rparr>, p_world := w\<rparr>"
      show ?thesis
        by (rule that [of ?q "if n \<noteq> 0 then None else Some (p_nb ?q)"])
          (use False q1 pl Inr upd in \<open>auto simp: poll_round_def Let_def split: if_splits\<close>)
    qed
  qed
qed

interpretation poll_system: invariant_system "poll_inv K room buf" "good_step K cv" "poll_inv K room buf" for K cv room buf
proof (unfold_locales, goal_cases)
  case (2 s t)
  then have "\<not> round_failed K cv s" by (simp add: good_step_def)
  from poll_round_safe [OF 2(1) this] show ?case using 2(2) by (auto simp: good_step_def poll_step_def)
qed

text \<open>On devices whose reads do not fail every iteration is a good one.\<close>

lemma reliable_step:
  assumes "reliable_kernel K" "poll_inv K room buf p"
  shows "\<not> round_failed K cv p" "poll_step K cv p q \<Longrightarrow> poll_inv K room buf q"
proof -
  show ok: "\<not> round_failed K cv p" unfolding round_failed_def by (rule reliable_drivers [OF assms])
  show "poll_inv K room buf q" if "poll_step K cv p q"
    using poll_system.inv_step [OF assms(2), of cv q] that ok by (simp add: good_step_def)
qed

subsection \<open>Properties\<close>

text \<open>
  C26: as long as no driver reports an error, polling never writes outside the array the framework passes. After any number of iterations in which
  every read of a driver succeeded, if the reads of the next iteration succeed too, that iteration is defined, leaves everything beyond the first \<open>count\<close> entries alone and keeps the events reported so far; and
  when it is the last one, the loop returns the number of events reported, at most \<open>count\<close>, or the error of \<open>poll\<close>. The drivers have well-formed rings and event times with less than a million
  microseconds. An iteration in which a read fails is the subject of the next theorem.
\<close>

theorem poll_events_safe:
  assumes "poll_ok K c" "nat count \<le> length buf" "0 \<le> count"
    and "steps (good_step K cv) (poll_start buf count c w) p" "\<not> round_failed K cv p"
  shows "\<exists>q fin. poll_round K cv p = Some (q, fin) \<and> length (p_buf q) = length buf \<and>
     drop (nat count) (p_buf q) = drop (nat count) buf \<and> p_nb p \<le> p_nb q \<and> p_nb q \<le> count \<and>
     take (nat (p_nb p)) (p_buf q) = take (nat (p_nb p)) (p_buf p) \<and>
     (\<forall>r. fin = Some r \<longrightarrow> pollEvents K cv buf count c w = Some (r, q) \<and>
        (r = p_nb q \<or> (\<exists>fds now v rev v' e. sk_poll K fds now v = ((Inl e, rev), v') \<and> r = - e)))"
proof -
  have "poll_inv K (nat count) buf (poll_start buf count c w)"
    using assms(1-3) by (simp add: poll_inv_def poll_start_def)
  with assms(4) have inv: "poll_inv K (nat count) buf p" using poll_system.inv_steps by blast
  obtain q fin where q: "poll_round K cv p = Some (q, fin)" "poll_inv K (nat count) buf q" "p_nb p \<le> p_nb q"
      "take (nat (p_nb p)) (p_buf q) = take (nat (p_nb p)) (p_buf p)"
      "\<forall>r. fin = Some r \<longrightarrow> r = p_nb q \<or> (\<exists>fds now w rev w' e. sk_poll K fds now w = ((Inl e, rev), w') \<and> r = - e)"
    by (rule poll_round_safe [OF inv assms(5)])
  have "pollEvents K cv buf count c w = Some (r, q)" if "fin = Some r" for r
    using poll_loop_steps [OF good_steps [OF assms(4)]] poll_loop_end [of K cv p q r] q(1) that by (simp add: pollEvents_def)
  with q assms(3) show ?thesis by (intro exI [of _ q] exI [of _ fin]) (auto simp: poll_inv_def)
qed

text \<open>
  An error of a driver corrupts the poll. When reading the light sensor fails with error \<open>e\<close>, the position in the
  array moves \<open>e\<close> entries back, and if the proximity sensor has an initial event pending, that event is written before the array.
\<close>

theorem poll_error_writes_before_array:
  assumes "pc_revents c ! light_index" "\<not> mHasPendingEvent (pc_light c)" "mHasPendingEvent (pc_proximity c)"
    and "mFreeSpace (mInputReader (pc_light c)) \<noteq> 0" "1 \<le> count" "0 < e"
    and "sk_read K (data_fd (pc_light c)) (mFreeSpace (mInputReader (pc_light c))) w = (ReadError e, w')"
  shows "poll_round K cv (poll_start buf count c w) = None"
proof -
  let ?l = "pc_light c"
  have l: "driver_read K cv light_index count c w = Some (- e, [], c\<lparr>pc_light := ?l\<lparr>mInputReader := mInputReader ?l\<rparr>\<rparr>, w')"
    using assms by (simp add: driver_read_def light_readEvents_def simple_readEvents_def fill_def reader_fill_def)
  have "[0..<numSensorDrivers] = [light_index, proximity_index, akm_index]"
    by (simp add: numSensorDrivers_def light_index_def proximity_index_def akm_index_def upt_rec)
  then show ?thesis
    using assms l
    by (simp add: poll_round_def poll_start_def mem_write_def Let_def hasPendingEvents_def light_index_def
        proximity_index_def driver_read_def proximity_readEvents_def simple_readEvents_def)
qed

definition demo_simple :: "int simple_sensor" where
  "demo_simple = \<lparr>dev_name = None, data_name = None, dev_fd = 5, data_fd = 5, mEnabled = 1,
     mInputReader = new_reader (\<lambda>_. demo_event 0) 4, mPendingEvent = event_zero (\<lambda>c i. i) ID_P 8 0,
     mHasPendingEvent = True\<rparr>"

definition demo_ctx :: "int poll_context" where
  "demo_ctx = \<lparr>pc_light = demo_simple\<lparr>mHasPendingEvent := False\<rparr>, pc_proximity = demo_simple, pc_akm = demo_akm,
     pc_fds = [5, 5, 5, 6], pc_revents = [True, False, True, False], mWritePipeFd = 7\<rparr>"

lemma demo_ctx_ok: "poll_ok demo_sensors demo_ctx"
proof -
  have "ring_normal (new_reader (\<lambda>_. demo_event 0) 4)"
    using new_ring_ok [of 4 "\<lambda>_. demo_event 0"] by (simp add: ring_normal_def)
  then show ?thesis
    using demo_akm_ok demo_sensors_normal
    by (simp add: poll_ok_def simple_ok_def akm_driver_ok_def demo_ctx_def demo_simple_def)
qed

theorem poll_events_safe_witness:
  "\<exists>q fin. poll_round demo_sensors (\<lambda>c i. i) (poll_start (replicate 2 (mPendingEvent demo_simple)) 2 demo_ctx []) = Some (q, fin) \<and>
     length (p_buf q) = 2 \<and> p_nb q \<le> 2"
proof -
  let ?p = "poll_start (replicate 2 (mPendingEvent demo_simple)) 2 demo_ctx []"
  have "reliable_kernel demo_sensors"
    using demo_sensors_normal by (simp add: reliable_kernel_def) (simp add: demo_sensors_def)
  moreover have "poll_inv demo_sensors 2 (replicate 2 (mPendingEvent demo_simple)) ?p"
    using demo_ctx_ok by (simp add: poll_inv_def poll_start_def)
  ultimately have "\<not> round_failed demo_sensors (\<lambda>c i. i) ?p" by (rule reliable_step)
  from poll_events_safe [OF demo_ctx_ok _ _ steps_refl this] obtain q fin where
    "poll_round demo_sensors (\<lambda>c i. i) ?p = Some (q, fin)" "length (p_buf q) = 2" "p_nb q \<le> 2" by auto
  then show ?thesis by blast
qed

text \<open>The same context with a light sensor whose device has gone.\<close>

theorem poll_error_writes_before_array_witness:
  "poll_round (demo_sensors\<lparr>sk_read := (\<lambda>fd n w. (ReadError 19, w))\<rparr>) (\<lambda>c i. i)
     (poll_start (replicate 2 (mPendingEvent demo_simple)) 2 demo_ctx []) = None"
  by (rule poll_error_writes_before_array [where e = 19 and w' = "[]"])
    (simp_all add: demo_ctx_def demo_simple_def light_index_def new_reader_def)

end
