(* ===== verification/Sensor_Stack.thy ===== *)
theory Sensor_Stack
  imports Nusensors "HOL-Library.Sublist"
begin

text \<open>
  The sensor stack end to end: from the events the compass device produces, through the read of the input event ring
  (\<open>InputEventReader.cpp\<close>), the driver (\<open>AkmSensor.cpp\<close>) and the poll loop (\<open>nusensors.cpp\<close>), to the array of the framework.

  The kernel's side of an input device is a history \<open>arr\<close> of the events the device has produced and the number \<open>got\<close> of them that
  have been read; \<open>input_log\<close> says what the system calls do to the two. Events may arrive during any call, a read may return
  fewer events than it was asked for, and it may fail, having read nothing.

  A session is a sequence of calls of the framework, \<open>module_step\<close>, in which no driver reports a failed read to the poll loop: after such a report the loop writes before its
  array (\<open>poll_error_writes_before_array\<close>). A call that another thread makes while \<open>poll\<close> waits
  (which the wake pipe is for) is not interleaved with it.
\<close>

subsection \<open>Input devices of the kernel\<close>

type_synonym 'w history = "int \<Rightarrow> 'w \<Rightarrow> input_event list"
type_synonym 'w position = "int \<Rightarrow> 'w \<Rightarrow> nat"

text \<open>What a call does to the devices it does not read, and to the histories of all.\<close>

definition log_step :: "'w history \<Rightarrow> 'w position \<Rightarrow> int \<Rightarrow> 'w \<Rightarrow> 'w \<Rightarrow> bool" where
  "log_step arr got fd w w' \<longleftrightarrow>
     (\<forall>fd'. prefix (arr fd' w) (arr fd' w')) \<and> (\<forall>fd'. fd' \<noteq> fd \<longrightarrow> got fd' w' = got fd' w)"

definition read_log :: "'w history \<Rightarrow> 'w position \<Rightarrow> int \<Rightarrow> 'w \<Rightarrow> input_event list \<Rightarrow> 'w \<Rightarrow> bool" where
  "read_log arr got fd w evs w' \<longleftrightarrow>
     log_step arr got fd w w' \<and> got fd w' = got fd w + length evs \<and> prefix evs (drop (got fd w) (arr fd w'))"

definition input_log :: "'w sensor_kernel \<Rightarrow> 'w history \<Rightarrow> 'w position \<Rightarrow> bool" where
  "input_log K arr got \<longleftrightarrow>
     (\<forall>fd n w.
        (\<exists>evs w'. sk_read K fd n w = (ReadEvents evs False, w') \<and> length evs \<le> n \<and> read_log arr got fd w evs w') \<or>
        (\<exists>e w'. sk_read K fd n w = (ReadError e, w') \<and> 0 < e \<and> read_log arr got fd w [] w')) \<and>
     (\<forall>fds now w fd. log_step arr got fd w (snd (sk_poll K fds now w))) \<and>
     (\<forall>fd w. log_step arr got fd w (sk_take K fd w))"

lemma log_step_refl [simp]: "log_step arr got fd w w"
  by (simp add: log_step_def)

lemma read_log_none [simp]: "read_log arr got fd w [] w"
  by (simp add: read_log_def)

text \<open>Whatever the device goes on to produce, the events just read are the ones that were next.\<close>

lemma read_log_drop:
  assumes "read_log arr got fd w evs w'" "prefix (arr fd w') a"
  shows "evs @ drop (got fd w') a = drop (got fd w) a"
proof -
  obtain rest where "drop (got fd w) (arr fd w') = evs @ rest" "got fd w' = got fd w + length evs"
    using assms(1) by (auto simp: read_log_def prefix_def)
  moreover from this have "evs = [] \<or> got fd w \<le> length (arr fd w')"
    by (metis append_is_Nil_conv drop_eq_Nil linear)
  ultimately show ?thesis
    using assms(2) by (auto simp: prefix_def add.commute [of "got fd w"] simp flip: drop_drop)
qed

lemma log_step_prefix: "log_step arr got fd w w' \<Longrightarrow> prefix (arr fd' w') a \<Longrightarrow> prefix (arr fd' w) a"
  unfolding log_step_def by (meson prefix_order.trans)

subsection \<open>Reading a device\<close>

lemma fill_log:
  assumes K: "input_log K arr got" and r: "ring_ok r" and f: "fill K fd r w = Some (n, r', w')"
  obtains evs where "read_log arr got fd w evs w'" "pending r' = pending r @ evs"
proof (cases "mFreeSpace r = 0")
  case True
  with f reader_fill_queue [OF r, of "ReadEvents [] False"] show ?thesis by (intro that [of "[]"]) (auto simp: fill_def)
next
  case False
  consider (ok) evs w1 where "sk_read K fd (mFreeSpace r) w = (ReadEvents evs False, w1)" "length evs \<le> mFreeSpace r"
      "read_log arr got fd w evs w1"
    | (bad) e w1 where "sk_read K fd (mFreeSpace r) w = (ReadError e, w1)" "read_log arr got fd w [] w1"
    using K unfolding input_log_def by blast
  then show ?thesis
  proof cases
    case ok
    with False f reader_fill_queue [OF r, of "ReadEvents evs False"] show ?thesis by (intro that [of evs]) (auto simp: fill_def)
  next
    case bad
    with False f reader_fill_queue [OF r, of "ReadError e"] show ?thesis by (intro that [of "[]"]) (auto simp: fill_def)
  qed
qed

text \<open>What reading a driver does to the devices, and the reports it hands over.\<close>

lemma simple_run_ids:
  fixes on_abs :: "input_event \<Rightarrow> 'f sensors_event \<Rightarrow> 'f sensors_event"
  assumes abs: "\<And>e p. se_sensor (on_abs e p) = se_sensor p"
  shows "simple_run on_abs en c es p = (out, p', rest) \<Longrightarrow>
     se_sensor p' = se_sensor p \<and> (\<forall>e \<in> set out. se_sensor e = se_sensor p)"
proof (induction es arbitrary: c p out)
  case Nil
  then show ?case by (cases c) auto
next
  case (Cons e es)
  show ?case
  proof (cases c)
    case 0
    with Cons.prems show ?thesis by simp
  next
    case (Suc d)
    with Cons.prems Cons.IH [of "Suc d" "on_abs e p" out] Cons.IH [of "Suc d" p out]
      Cons.IH [of "Suc d" "p\<lparr>se_timestamp := tv_sec e * 1000000000 + tv_usec e * 1000\<rparr>" out]
      Cons.IH [of d "p\<lparr>se_timestamp := tv_sec e * 1000000000 + tv_usec e * 1000\<rparr>" "tl out"]
    show ?thesis by (auto simp: abs Let_def split: if_splits prod.splits)
  qed
qed

lemma simple_read_log:
  fixes on_abs :: "input_event \<Rightarrow> 'f sensors_event \<Rightarrow> 'f sensors_event"
  assumes K: "input_log K arr got" and ok: "simple_ok K s" and abs: "\<And>e p. se_sensor (on_abs e p) = se_sensor p"
    and rd: "simple_readEvents K on_abs count s w = Some (n, out, s', w')"
  shows "log_step arr got (data_fd s) w w' \<and> data_fd s' = data_fd s \<and>
     se_sensor (mPendingEvent s') = se_sensor (mPendingEvent s) \<and> (\<forall>e \<in> set out. se_sensor e = se_sensor (mPendingEvent s))"
proof (cases "count < 1 \<or> mHasPendingEvent s")
  case True
  with rd show ?thesis by (auto simp: simple_readEvents_def Let_def split: if_splits)
next
  case False
  have ring: "ring_normal (mInputReader s)" "normal_kernel K" using ok by (simp_all add: simple_ok_def)
  obtain m r w1 where f: "fill K (data_fd s) (mInputReader s) w = Some (m, r, w1)" "ring_normal r"
    using fill_normal [OF ring(2,1)] by blast
  obtain evs where "read_log arr got (data_fd s) w evs w1"
    using fill_log [OF K _ f(1)] ring(1) by (auto simp: ring_normal_def)
  then have log: "log_step arr got (data_fd s) w w1" by (simp add: read_log_def)
  obtain o1 p1 rest where run: "simple_run on_abs (mEnabled s \<noteq> 0) (nat count) (pending r) (mPendingEvent s) = (o1, p1, rest)"
    by (metis prod_cases3)
  obtain r2 where "simple_loop on_abs (nat count) (s\<lparr>mInputReader := r\<rparr>) [] = Some (s\<lparr>mInputReader := r2, mPendingEvent := p1\<rparr>, o1)"
    using simple_loop_run [of "s\<lparr>mInputReader := r\<rparr>" on_abs "nat count" "[]"] f(2) run by auto
  with False f(1) log rd simple_run_ids [OF abs run] show ?thesis
    by (cases "m < 0") (auto simp: simple_readEvents_def Let_def)
qed

lemma akm_read_log:
  assumes K: "input_log K arr got" "normal_kernel K" and ok: "akm_ok s" and count: "1 \<le> count"
    and rd: "akm_readEvents K cv count s w = Some (n, out, s', w')"
  shows "log_step arr got (data_fd s) w w' \<and> nat n = length out \<and> akm_same s s' \<and>
     set (sensor_ids out) \<subseteq> set (sensor_ids (akEvents s)) \<and>
     (\<forall>a. prefix (arr (data_fd s) w') a \<longrightarrow>
        out @ akm_todo cv s' (drop (got (data_fd s) w') a) = akm_todo cv s (drop (got (data_fd s) w) a))"
proof -
  have ring: "ring_ok (akReader s)" using ok by (simp add: akm_ok_def ring_normal_def)
  obtain m r w1 where f: "fill K (data_fd s) (akReader s) w = Some (m, r, w1)" using fill_normal [OF K(2), of "akReader s"] ok
    unfolding akm_ok_def by blast
  obtain evs where ev: "read_log arr got (data_fd s) w evs w1" "pending r = pending (akReader s) @ evs"
    using fill_log [OF K(1) ring f] by blast
  let ?s = "s\<lparr>akReader := r\<rparr>"
  have rest: "akm_todo cv ?s (drop (got (data_fd s) w1) a) = akm_todo cv s (drop (got (data_fd s) w) a)"
    if "prefix (arr (data_fd s) w1) a" for a
    using read_log_drop [OF ev(1) that] by (simp add: akm_todo_def ev(2))
  show ?thesis
  proof (rule akm_readEvents_delivers [OF K(2) ok count, of w cv])
    fix n1 r1 w2
    assume "fill K (data_fd s) (akReader s) w = Some (n1, r1, w2)" "n1 < 0" "akm_readEvents K cv count s w = Some (n1, [], s\<lparr>akReader := r1\<rparr>, w2)"
    then have "w' = w1" "n < 0" "out = []" "s' = ?s" using f rd by simp_all
    then show ?thesis using ev(1) rest by (simp add: read_log_def akm_same_def sensor_ids_def)
  next
    fix n1 r1 w2 out1 s1
    assume "fill K (data_fd s) (akReader s) w = Some (n1, r1, w2)" "akm_readEvents K cv count s w = Some (int (length out1), out1, s1, w2)"
      "akm_delivers cv (nat count) (s\<lparr>akReader := r1\<rparr>) out1 s1"
    then have d: "w' = w1" "n = int (length out)" "akm_delivers cv (nat count) ?s out s'" using f rd by simp_all
    have todo: "out @ akm_todo cv s' q = akm_todo cv ?s q" for q using d(3) by (simp add: akm_delivers_def)
    have "set (sensor_ids (akm_todo cv ?s [])) \<subseteq> set (sensor_ids (akEvents s))"
      using akm_reports_ids [of "akEvents s"] ok by (simp add: akm_todo_def akm_ok_def)
    then have "set (sensor_ids out) \<subseteq> set (sensor_ids (akEvents s))"
      unfolding todo [of "[]", symmetric] sensor_ids_append by simp
    moreover have "akm_same s s'" using d(3) by (simp add: akm_delivers_def akm_same_def)
    ultimately show ?thesis using d(1,2) ev(1) todo rest by (simp add: read_log_def)
  qed
qed

subsection \<open>Through the poll loop\<close>

text \<open>The driver that a report belongs to, by the sensor it names.\<close>

definition from_driver :: "nat \<Rightarrow> 'f sensors_event \<Rightarrow> bool" where
  "from_driver i e \<longleftrightarrow> handleToDriver (se_sensor e) = Some i"

text \<open>The sensors that the drivers of a context report for, and the device of the compass chip, which no one else reads.\<close>

definition wired :: "'f poll_context \<Rightarrow> bool" where
  "wired c \<longleftrightarrow> sensor_ids (akEvents (pc_akm c)) = [ID_A, ID_M, ID_O] \<and> se_sensor (mPendingEvent (pc_light c)) = ID_L \<and>
     se_sensor (mPendingEvent (pc_proximity c)) = ID_P \<and>
     data_fd (pc_akm c) \<notin> {data_fd (pc_light c), data_fd (pc_proximity c), pc_fds c ! wake_index}"

lemmas sensor_id_defs = ID_A_def ID_M_def ID_O_def ID_P_def ID_L_def

lemma wired_revents [simp]: "wired (c\<lparr>pc_revents := rv\<rparr>) = wired c"
  by (simp add: wired_def)

lemma handle_driver:
  "handleToDriver ID_L = Some light_index" "handleToDriver ID_P = Some proximity_index"
  "h \<in> set [ID_A, ID_M, ID_O] \<Longrightarrow> handleToDriver h = Some akm_index"
  by (auto simp: handleToDriver_def sensor_id_defs)

lemma filter_from_driver:
  "(\<And>e. e \<in> set out \<Longrightarrow> from_driver i e) \<Longrightarrow> filter (from_driver j) (take n out) = (if i = j then take n out else [])"
  by (auto simp: from_driver_def filter_id_conv filter_empty_conv dest!: in_set_takeD)

lemma light_read_log:
  assumes "input_log K arr got" "simple_ok K s" "light_readEvents K cv count s w = Some (n, out, s', w')"
  shows "log_step arr got (data_fd s) w w' \<and> data_fd s' = data_fd s \<and>
     se_sensor (mPendingEvent s') = se_sensor (mPendingEvent s) \<and> (\<forall>e \<in> set out. se_sensor e = se_sensor (mPendingEvent s))"
  by (rule simple_read_log [OF assms(1,2) _ assms(3) [unfolded light_readEvents_def]]) (simp add: light_on_abs_def)

lemma proximity_read_log:
  assumes "input_log K arr got" "simple_ok K s" "proximity_readEvents K cv count s w = Some (n, out, s', w')"
  shows "log_step arr got (data_fd s) w w' \<and> data_fd s' = data_fd s \<and>
     se_sensor (mPendingEvent s') = se_sensor (mPendingEvent s) \<and> (\<forall>e \<in> set out. se_sensor e = se_sensor (mPendingEvent s))"
  by (rule simple_read_log [OF assms(1,2) _ assms(3) [unfolded proximity_readEvents_def]]) (simp add: proximity_on_abs_def)

lemma other_flow:
  assumes "log_step arr got fd' w w'" "fd' \<noteq> fd" "\<forall>e \<in> set out. se_sensor e = h" "handleToDriver h = Some i" "i \<noteq> j"
  shows "got fd w' = got fd w \<and> (\<forall>fd. prefix (arr fd w) (arr fd w')) \<and> filter (from_driver j) (take n out) = []"
  using assms filter_from_driver [of out i j] by (simp add: log_step_def from_driver_def)

text \<open>One driver: the reports of the compass it hands over come off the front of those owed.\<close>

lemma driver_read_flow:
  assumes K: "input_log K arr got" and ok: "poll_ok K c" and wd: "wired c" and count: "1 \<le> count"
    and rd: "driver_read K cv i count c w = Some (n, out, c', w')" and fd: "data_fd (pc_akm c) = fd"
  shows "wired c' \<and> data_fd (pc_akm c') = fd \<and> (\<forall>fd'. prefix (arr fd' w) (arr fd' w')) \<and>
     (\<forall>a. prefix (arr fd w') a \<longrightarrow>
        filter (from_driver akm_index) (take (nat n) out) @ akm_todo cv (pc_akm c') (drop (got fd w') a) =
        akm_todo cv (pc_akm c) (drop (got fd w) a))"
proof -
  note k = ok [unfolded poll_ok_def]
  note w = wd [unfolded wired_def]
  consider "i = light_index" | "i = proximity_index" "i \<noteq> light_index" | "i \<noteq> light_index" "i \<noteq> proximity_index" by blast
  then show ?thesis
  proof cases
    case 1
    with rd obtain s where s: "light_readEvents K cv count (pc_light c) w = Some (n, out, s, w')" "c' = c\<lparr>pc_light := s\<rparr>"
      by (auto simp: driver_read_def split: Option.bind_splits)
    have "simple_ok K (pc_light c)" using k by simp
    note l = light_read_log [OF K this s(1)]
    have "got fd w' = got fd w \<and> (\<forall>fd. prefix (arr fd w) (arr fd w')) \<and> filter (from_driver akm_index) (take (nat n) out) = []"
      by (rule other_flow [OF _ _ _ handle_driver(1)]) (use l w fd in \<open>auto simp: light_index_def akm_index_def\<close>)
    then show ?thesis using l w s(2) fd by (simp add: wired_def)
  next
    case 2
    with rd obtain s where s: "proximity_readEvents K cv count (pc_proximity c) w = Some (n, out, s, w')"
        "c' = c\<lparr>pc_proximity := s\<rparr>"
      by (auto simp: driver_read_def split: Option.bind_splits)
    have "simple_ok K (pc_proximity c)" using k by simp
    note l = proximity_read_log [OF K this s(1)]
    have "got fd w' = got fd w \<and> (\<forall>fd. prefix (arr fd w) (arr fd w')) \<and> filter (from_driver akm_index) (take (nat n) out) = []"
      by (rule other_flow [OF _ _ _ handle_driver(2)]) (use l w fd in \<open>auto simp: proximity_index_def akm_index_def\<close>)
    then show ?thesis using l w s(2) fd by (simp add: wired_def)
  next
    case 3
    with rd obtain s where s: "akm_readEvents K cv count (pc_akm c) w = Some (n, out, s, w')" "c' = c\<lparr>pc_akm := s\<rparr>"
      by (auto simp: driver_read_def split: Option.bind_splits)
    from k have "normal_kernel K" "akm_ok (pc_akm c)" by (simp_all add: akm_driver_ok_def)
    note l = akm_read_log [OF K this count s(1)]
    have "sensor_ids (akEvents (pc_akm c)) = [ID_A, ID_M, ID_O]" using w by blast
    then have ids: "set (sensor_ids out) \<subseteq> set [ID_A, ID_M, ID_O]" using l by metis
    have "from_driver akm_index e" if "e \<in> set out" for e
      using that ids handle_driver(3) [of "se_sensor e"] by (auto simp: from_driver_def sensor_ids_def)
    then have "filter (from_driver akm_index) (take (nat n) out) = out"
      using filter_from_driver [of out akm_index akm_index] l by simp
    with l w s(2) fd show ?thesis by (auto simp: wired_def log_step_def akm_same_def)
  qed
qed

text \<open>
  What holds between two drivers and between two iterations: the compass reports in the array, followed by those still owed,
  are the reports that were owed at the start; \<open>a\<close> is any continuation of the history of the device.
\<close>

definition compass_flow ::
  "'w history \<Rightarrow> 'w position \<Rightarrow> (conv \<Rightarrow> int \<Rightarrow> 'f) \<Rightarrow> int \<Rightarrow> (input_event list \<Rightarrow> 'f sensors_event list) \<Rightarrow> ('f, 'w) poll_state \<Rightarrow> bool" where
  "compass_flow arr got cv fd owed p \<longleftrightarrow>
     wired (p_ctx p) \<and> data_fd (pc_akm (p_ctx p)) = fd \<and>
     (\<forall>a. prefix (arr fd (p_world p)) a \<longrightarrow>
        filter (from_driver akm_index) (take (nat (p_nb p)) (p_buf p)) @
          akm_todo cv (pc_akm (p_ctx p)) (drop (got fd (p_world p)) a) = owed a)"

lemma compass_flow_world:
  assumes "compass_flow arr got cv fd owed p" "\<And>fd'. prefix (arr fd' (p_world p)) (arr fd' w)" "got fd w = got fd (p_world p)"
  shows "compass_flow arr got cv fd owed (p\<lparr>p_ctx := (p_ctx p)\<lparr>pc_revents := rv\<rparr>, p_world := w\<rparr>)"
  using assms unfolding compass_flow_def by (auto intro: prefix_order.trans)

lemma poll_drivers_flow:
  assumes "input_log K arr got" "poll_inv K room buf p" "compass_flow arr got cv fd owed p" "poll_drivers K cv is p = Some q"
    and "\<not> read_failed K cv is p"
  shows "compass_flow arr got cv fd owed q"
  using assms(2-)
proof (induction "is" arbitrary: p)
  case (Cons i "is")
  show ?case
  proof (cases "p_count p = 0 \<or> \<not> (pc_revents (p_ctx p) ! i \<or> hasPendingEvents i (p_ctx p))")
    case True
    with Cons show ?thesis by (auto split: if_splits)
  next
    case False
    then have nz: "p_count p \<noteq> 0" by simp
    with Cons.prems have c: "1 \<le> p_count p" "poll_ok K (p_ctx p)" "wired (p_ctx p)" "data_fd (pc_akm (p_ctx p)) = fd"
      by (auto simp: poll_inv_def compass_flow_def)
    obtain n out c' w' where d: "driver_read K cv i (p_count p) (p_ctx p) (p_world p) = Some (n, out, c', w')"
        "poll_ok K c'" "n \<le> int (length out)" "int (length out) \<le> p_count p"
      by (rule driver_read_counts [OF c(2,1)])
    have n: "0 \<le> n" "\<not> read_failed K cv [i] p" using Cons.prems(4) False d(1) by (auto split: option.splits)
    note fl = driver_read_flow [OF assms(1) c(2,3,1) d(1) c(4)]
    obtain q1 where q1: "poll_drivers K cv [i] p = Some q1" "poll_inv K room buf q1"
      using poll_drivers_safe [OF Cons.prems(1) n(2)] by blast
    have rest: "\<not> read_failed K cv is q1" using Cons.prems(4) False d(1) q1(1) by (simp del: poll_drivers.simps)
    from q1 have q: "poll_drivers K cv is q1 = Some q"
      using Cons.prems(3) False d(1) by (auto simp: Let_def split: Option.bind_splits)
    have e: "p_nb q1 = p_nb p + n" "p_world q1 = w'" "wired (p_ctx q1) = wired c'" "pc_akm (p_ctx q1) = pc_akm c'"
        "mem_write (p_buf p) (p_data p) out = Some (p_buf q1)"
      using q1(1) False d(1) by (auto simp: Let_def split: Option.bind_splits if_splits)
    have "take (nat (p_nb q1)) (p_buf q1) = take (nat (p_nb p)) (p_buf p) @ take (nat n) out"
      using Cons.prems(1) n(1) d(3) e(1,5) by (auto simp: poll_inv_def mem_write_Some_iff nat_add_distrib)
    with fl e Cons.prems(2) have "compass_flow arr got cv fd owed q1"
      unfolding compass_flow_def by (auto intro: prefix_order.trans)
    from Cons.IH [OF q1(2) this q rest] show ?thesis .
  qed
qed simp

lemma poll_round_flow:
  assumes K: "input_log K arr got" and inv: "poll_inv K room buf p" and fl: "compass_flow arr got cv fd owed p"
    and rd: "poll_round K cv p = Some (q, fin)" "\<not> round_failed K cv p"
  shows "compass_flow arr got cv fd owed q"
proof -
  obtain q1 where q1: "poll_drivers K cv [0..<numSensorDrivers] p = Some q1"
    using rd(1) by (auto simp: poll_round_def split: Option.bind_splits)
  have f1: "compass_flow arr got cv fd owed q1" by (rule poll_drivers_flow [OF K inv fl q1 rd(2) [unfolded round_failed_def]])
  obtain res rv w where pl: "sk_poll K (pc_fds (p_ctx q1)) (p_nb q1 \<noteq> 0) (p_world q1) = ((res, rv), w)"
    by (metis prod.exhaust)
  let ?wake = "pc_fds (p_ctx q1) ! wake_index"
  have polled: "log_step arr got fd' (p_world q1) w" for fd'
    using K pl unfolding input_log_def by (metis snd_conv)
  have w: "prefix (arr fd' (p_world q1)) (arr fd' w)" "got fd' w = got fd' (p_world q1)" for fd'
    using polled [of "fd' + 1"] by (simp_all add: log_step_def)
  have wake: "fd \<noteq> ?wake" using f1 by (auto simp: compass_flow_def wired_def)
  have "log_step arr got ?wake w (sk_take K ?wake w)" using K by (simp add: input_log_def)
  then have t: "prefix (arr fd' (p_world q1)) (arr fd' (sk_take K ?wake w))" "got fd (sk_take K ?wake w) = got fd (p_world q1)" for fd'
    using w wake by (auto simp: log_step_def intro: prefix_order.trans)
  note flow = compass_flow_world [OF f1 w] compass_flow_world [OF f1 t]
  have "q = q1 \<or> (\<exists>rv'. q = q1\<lparr>p_ctx := (p_ctx q1)\<lparr>pc_revents := rv'\<rparr>, p_world := w\<rparr>) \<or>
      (\<exists>rv'. q = q1\<lparr>p_ctx := (p_ctx q1)\<lparr>pc_revents := rv'\<rparr>, p_world := sk_take K ?wake w\<rparr>)"
    using rd(1) q1 pl by (auto simp: poll_round_def Let_def split: if_splits sum.splits)
  with f1 flow show ?thesis by blast
qed

lemma poll_steps_flow:
  assumes K: "input_log K arr got" and inv: "poll_inv K room buf p" and fl: "compass_flow arr got cv fd owed p"
    and st: "steps (good_step K cv) p q"
  shows "poll_inv K room buf q \<and> compass_flow arr got cv fd owed q"
  using st inv fl
proof (induction rule: steps.induct)
  case (steps_step s t u)
  then have "poll_inv K room buf t" "compass_flow arr got cv fd owed t" by auto
  with steps_step(2) poll_system.inv_step poll_round_flow [OF K] show ?case unfolding good_step_def poll_step_def by blast
qed simp

subsection \<open>The contexts a framework can reach\<close>

lemma open_close_base:
  "open_device K s w = (s', w') \<Longrightarrow> \<exists>fd. s' = s\<lparr>dev_fd := fd\<rparr>"
  "close_device K s w = (s', w') \<Longrightarrow> \<exists>fd. s' = s\<lparr>dev_fd := fd\<rparr>"
proof -
  have "\<exists>fd. s = s\<lparr>dev_fd := fd\<rparr>" by (rule exI [of _ "dev_fd s"]) simp
  then show "open_device K s w = (s', w') \<Longrightarrow> \<exists>fd. s' = s\<lparr>dev_fd := fd\<rparr>"
    "close_device K s w = (s', w') \<Longrightarrow> \<exists>fd. s' = s\<lparr>dev_fd := fd\<rparr>"
    by (auto simp: open_device_def close_device_def split: option.splits if_splits prod.splits)
qed

text \<open>A sensor of the simple kind keeps its device and the sensor it reports for.\<close>

definition simple_same :: "'f simple_sensor \<Rightarrow> 'f simple_sensor \<Rightarrow> bool" where
  "simple_same s s' \<longleftrightarrow> data_fd s' = data_fd s \<and> se_sensor (mPendingEvent s') = se_sensor (mPendingEvent s) \<and>
     mInputReader s' = mInputReader s"

lemma setInitialState_same:
  "setInitialState K axis f s w = (s', w') \<Longrightarrow> simple_same s s' \<and> mEnabled s' = mEnabled s"
  by (auto simp: setInitialState_def simple_same_def split: prod.splits if_splits)

lemma simple_setEnable_same:
  assumes ok: "simple_ok K s" and en: "simple_setEnable K cmd axis f en s w = (rc, s', w')"
  shows "simple_ok K s' \<and> simple_same s s'"
proof -
  let ?flags = "if en \<noteq> 0 then 1 else 0 :: int"
  obtain s1 w1 where o: "(if mEnabled s = 0 then open_device K s w else (s, w)) = (s1, w1)" by fastforce
  then have s1: "simple_same s s1" "mEnabled s1 = mEnabled s"
    by (auto simp: simple_same_def split: if_splits dest!: open_close_base)
  obtain r w2 where io: "sk_ioctl K (dev_fd s1) cmd ?flags w1 = (r, w2)" by fastforce
  define err where "err = (if io_rc r < 0 then - io_errno r else 0)"
  obtain s2 w3 where s2: "(if err = 0 then if en \<noteq> 0 then setInitialState K axis f (s1\<lparr>mEnabled := ?flags\<rparr>) w2
      else (s1\<lparr>mEnabled := ?flags\<rparr>, w2) else (s1, w2)) = (s2, w3)" by fastforce
  then have e2: "simple_same s1 s2 \<and> (mEnabled s2 = ?flags \<or> mEnabled s2 = mEnabled s)"
    using s1 setInitialState_same [of K axis f "s1\<lparr>mEnabled := ?flags\<rparr>" w2 s2 w3]
    by (auto simp: simple_same_def split: if_splits)
  obtain s3 w4 where s3: "(if mEnabled s2 = 0 then close_device K s2 w3 else (s2, w3)) = (s3, w4)" by fastforce
  then have e3: "simple_same s2 s3 \<and> mEnabled s3 = mEnabled s2"
    by (auto simp: simple_same_def split: if_splits dest!: open_close_base)
  have "simple_setEnable K cmd axis f en s w = (if ?flags = mEnabled s then (0, s, w) else (err, s3, w4))"
    unfolding simple_setEnable_def Let_def o prod.case io err_def [symmetric] s2 s3 ..
  with en s1 e2 e3 ok show ?thesis by (auto simp: simple_ok_def simple_same_def split: if_splits)
qed

text \<open>So does the driver of the compass chip.\<close>

definition akm_wiring :: "'f akm_sensor \<Rightarrow> int \<times> int list" where
  "akm_wiring s = (data_fd s, sensor_ids (akEvents s))"

lemma akm_set_wiring:
  "akm_setEnable K handle en s w = (rc, s', w') \<Longrightarrow> akm_wiring s' = akm_wiring s"
  "akm_setDelay K handle ns s w = (rc, s', w') \<Longrightarrow> akm_wiring s' = akm_wiring s"
  by (auto simp: akm_wiring_def akm_setEnable_def akm_setDelay_def open_device_def close_device_def Let_def
      split: option.splits if_splits prod.splits)

lemma init_axis_wiring:
  assumes "init_axis K axis j upd sw = Some sw'" "\<And>v e e'. upd v e = Some e' \<Longrightarrow> se_sensor e' = se_sensor e"
  shows "akm_wiring (fst sw') = akm_wiring (fst sw)"
proof -
  obtain s w where sw: "sw = (s, w)" by fastforce
  obtain r w1 where r: "sk_ioctl K (data_fd s) (EVIOCGABS axis) 0 w = (r, w1)" by fastforce
  show ?thesis
  proof (cases "io_rc r = 0")
    case True
    with assms(1) sw r obtain e where e: "upd (io_value r) (akEvents s ! j) = Some e" "sw' = (s\<lparr>akEvents := (akEvents s)[j := e]\<rparr>, w1)"
      by (auto simp: init_axis_def split: Option.bind_splits)
    with assms(2) [OF e(1)] sw show ?thesis
      by (cases "j < length (akEvents s)")
        (auto simp: akm_wiring_def sensor_ids_def map_update list_update_same_conv not_less list_update_beyond)
  qed (use assms(1) sw r in \<open>auto simp: init_axis_def\<close>)
qed

lemma init_axes_wiring:
  "init_accel K cv sw = Some sw' \<Longrightarrow> akm_wiring (fst sw') = akm_wiring (fst sw)"
  "init_magnetic K cv sw = Some sw' \<Longrightarrow> akm_wiring (fst sw') = akm_wiring (fst sw)"
  "init_orientation K cv sw = Some sw' \<Longrightarrow> akm_wiring (fst sw') = akm_wiring (fst sw)"
  unfolding init_accel_def init_magnetic_def init_orientation_def bind_eq_Some_conv axis_x_def axis_y_def axis_z_def
  by (auto dest!: init_axis_wiring split: Option.bind_splits)

lemma init_flag_wiring:
  assumes "init_flag K cmd j axes sw = Some sw'" "\<And>a b. axes a = Some b \<Longrightarrow> akm_wiring (fst b) = akm_wiring (fst a)"
  shows "akm_wiring (fst sw') = akm_wiring (fst sw)"
  using assms by (auto simp: init_flag_def akm_wiring_def split: prod.splits if_splits)

lemma AkmSensor_new_ids:
  assumes "AkmSensor_new K cv junk w = Some (s, w')"
  shows "sensor_ids (akEvents s) = [ID_A, ID_M, ID_O]"
proof -
  obtain b0 w1 where b0: "SensorBase_new K (Some ''/dev/akm8973_aot'') (Some ''compass'') w = (b0, w1)" by fastforce
  let ?s = "sensor_base.extend b0 \<lparr>akEnabled = 0, akPendingMask = 0, akReader = new_reader junk 32,
      akEvents = [event_zero cv ID_A SENSOR_TYPE_ACCELEROMETER SENSOR_STATUS_ACCURACY_HIGH,
                  event_zero cv ID_M SENSOR_TYPE_MAGNETIC_FIELD SENSOR_STATUS_ACCURACY_HIGH,
                  event_zero cv ID_O SENSOR_TYPE_ORIENTATION SENSOR_STATUS_ACCURACY_HIGH],
      akDelays = replicate numSensors 200000000\<rparr>"
  have dev: "snd (akm_wiring (t\<lparr>dev_fd := fd\<rparr>)) = snd (akm_wiring t)" for t :: "'a akm_sensor" and fd
    by (simp add: akm_wiring_def)
  have "snd (akm_wiring ?s) = [ID_A, ID_M, ID_O]"
    by (simp add: akm_wiring_def sensor_base.extend_def sensor_ids_def event_zero_def)
  then have o: "snd (akm_wiring (fst (open_device K ?s w1))) = [ID_A, ID_M, ID_O]"
    using open_close_base(1) [of K ?s w1] dev by (metis prod.collapse)
  obtain a b c where abc: "init_flag K ECS_IOCTL_APP_GET_AFLAG Accelerometer (init_accel K cv) (open_device K ?s w1) = Some a"
      "init_flag K ECS_IOCTL_APP_GET_MVFLAG MagneticField (init_magnetic K cv) a = Some b"
      "init_flag K ECS_IOCTL_APP_GET_MFLAG Orientation (init_orientation K cv) b = Some c"
      and s: "s = fst c \<or> (\<exists>w3. close_device K (fst c) w3 = (s, w'))"
    using assms unfolding AkmSensor_new_def b0 Let_def prod.case bind_eq_Some_conv
    by (elim exE conjE) (rule that, assumption, assumption, assumption, auto split: prod.splits if_splits)
  have "akm_wiring (fst c) = akm_wiring (fst (open_device K ?s w1))"
    using init_flag_wiring [OF abc(1) init_axes_wiring(1)] init_flag_wiring [OF abc(2) init_axes_wiring(2)]
      init_flag_wiring [OF abc(3) init_axes_wiring(3)] by simp
  then have "snd (akm_wiring s) = [ID_A, ID_M, ID_O]" using s o open_close_base(2) dev by metis
  then show ?thesis by (simp add: akm_wiring_def)
qed

lemma new_reader_normal: "0 < n \<Longrightarrow> ring_normal (new_reader junk n)"
  using new_ring_ok [of n junk] by (simp add: ring_normal_def)

text \<open>The two constructors of the simple kind, after their common part.\<close>

definition fresh_simple :: "int \<Rightarrow> 'f simple_sensor \<Rightarrow> bool" where
  "fresh_simple h s \<longleftrightarrow> ring_normal (mInputReader s) \<and> mEnabled s \<in> {0, 1} \<and> se_sensor (mPendingEvent s) = h"

lemma fresh_simple_ops:
  "fresh_simple h s \<Longrightarrow> open_device K s w = (s', w') \<Longrightarrow> fresh_simple h s'"
  "fresh_simple h s \<Longrightarrow> close_device K s w = (s', w') \<Longrightarrow> fresh_simple h s'"
  "fresh_simple h s \<Longrightarrow> setInitialState K axis f s w = (s', w') \<Longrightarrow> fresh_simple h s'"
  "fresh_simple h s \<Longrightarrow> fresh_simple h (s\<lparr>mEnabled := 1\<rparr>)"
  by (auto simp: fresh_simple_def simple_same_def dest!: open_close_base setInitialState_same)

lemma simple_new_fresh:
  "LightSensor_new K cv junk w = (s, w') \<Longrightarrow> fresh_simple ID_L s"
  "ProximitySensor_new K cv junk w = (s, w') \<Longrightarrow> fresh_simple ID_P s"
proof -
  have f: "fresh_simple h (sensor_base.extend b \<lparr>mEnabled = 0, mInputReader = new_reader junk 4,
      mPendingEvent = event_zero cv h t 0, mHasPendingEvent = False\<rparr>)" for h b t
    using new_reader_normal [of 4 junk] by (simp add: fresh_simple_def sensor_base.extend_def event_zero_def)
  show "LightSensor_new K cv junk w = (s, w') \<Longrightarrow> fresh_simple ID_L s"
    unfolding LightSensor_new_def Let_def
    by (auto split: prod.splits if_splits dest!: fresh_simple_ops(1) [OF f] intro: fresh_simple_ops(2)
        intro: fresh_simple_ops(3) [OF fresh_simple_ops(4)] fresh_simple_ops(4))
  show "ProximitySensor_new K cv junk w = (s, w') \<Longrightarrow> fresh_simple ID_P s"
    unfolding ProximitySensor_new_def Let_def
    by (auto split: prod.splits if_splits dest!: fresh_simple_ops(1) [OF f] intro: fresh_simple_ops(2)
        intro: fresh_simple_ops(3) [OF fresh_simple_ops(4)] fresh_simple_ops(4))
qed

lemma new_poll_context_ok:
  assumes "normal_kernel K" "new_poll_context K cv junk w = Some (c, w')"
  shows "poll_ok K c \<and> se_sensor (mPendingEvent (pc_light c)) = ID_L \<and> se_sensor (mPendingEvent (pc_proximity c)) = ID_P \<and>
     sensor_ids (akEvents (pc_akm c)) = [ID_A, ID_M, ID_O]"
proof -
  obtain l w1 where l: "LightSensor_new K cv junk w = (l, w1)" by fastforce
  obtain p w2 where p: "ProximitySensor_new K cv junk w1 = (p, w2)" by fastforce
  obtain a w3 where a: "AkmSensor_new K cv junk w2 = Some (a, w3)" and c: "pc_light c = l" "pc_proximity c = p" "pc_akm c = a"
    using assms(2) l p by (auto simp: new_poll_context_def Let_def split: prod.splits Option.bind_splits)
  show ?thesis
    using simple_new_fresh(1) [OF l] simple_new_fresh(2) [OF p] AkmSensor_new_ok [OF a] AkmSensor_new_ids [OF a] assms(1)
    by (simp add: c poll_ok_def simple_ok_def akm_driver_ok_def fresh_simple_def)
qed

text \<open>What the framework may do with the module; a call of \<open>poll\<close> in none of whose iterations a read fails.\<close>

definition poll_failed :: "'w sensor_kernel \<Rightarrow> (conv \<Rightarrow> int \<Rightarrow> 'f) \<Rightarrow> ('f, 'w) poll_state \<Rightarrow> bool" where
  "poll_failed K cv p \<longleftrightarrow> (\<exists>q. steps (poll_step K cv) p q \<and> round_failed K cv q)"

lemma unfailed_steps: "steps (poll_step K cv) p q \<Longrightarrow> \<not> poll_failed K cv p \<Longrightarrow> steps (good_step K cv) p q"
proof (induction rule: steps.induct)
  case (steps_step s t u)
  then have "\<not> round_failed K cv t" by (auto simp: poll_failed_def)
  with steps_step show ?case by (auto simp: good_step_def intro: steps.steps_step)
qed (rule steps_refl)

inductive module_step ::
  "'w sensor_kernel \<Rightarrow> (conv \<Rightarrow> int \<Rightarrow> 'f) \<Rightarrow> 'f poll_context \<times> 'w \<Rightarrow> 'f poll_context \<times> 'w \<Rightarrow> bool" for K cv where
  do_activate: "poll_activate K cv c handle en w = (rc, c', w') \<Longrightarrow> module_step K cv (c, w) (c', w')"
| do_setDelay: "poll_setDelay K c handle ns w = (rc, c', w') \<Longrightarrow> module_step K cv (c, w) (c', w')"
| do_poll: "poll_poll K cv c buf count w = Some (rc, q) \<Longrightarrow> 0 \<le> count \<Longrightarrow> nat count \<le> length buf \<Longrightarrow>
    \<not> poll_failed K cv (poll_start buf count c w) \<Longrightarrow> module_step K cv (c, w) (p_ctx q, p_world q)"

lemma poll_loop_rounds:
  assumes "poll_loop K cv p = Some y"
  shows "\<exists>p'. steps (poll_step K cv) p p' \<and> poll_round K cv p' = Some (snd y, Some (fst y))"
proof (rule poll_loop.raw_induct [where P = "\<lambda>K cv p y. \<exists>p'. steps (poll_step K cv) p p' \<and> poll_round K cv p' = Some (snd y, Some (fst y))",
      OF _ assms], goal_cases)
  case (1 loop K cv p y)
  then obtain q fin where q: "poll_round K cv p = Some (q, fin)" "(case fin of None \<Rightarrow> loop K cv q | Some r \<Rightarrow> Some (r, q)) = Some y"
    by (auto split: Option.bind_splits)
  show ?case
  proof (cases fin)
    case None
    with q(2) have "loop K cv q = Some y" by simp
    from 1(1) [OF this] obtain p' where "steps (poll_step K cv) q p'" "poll_round K cv p' = Some (snd y, Some (fst y))" by blast
    moreover have "poll_step K cv p q" using q(1) None by (simp add: poll_step_def)
    ultimately show ?thesis using steps_trans [OF steps_one] by metis
  next
    case (Some r)
    with q show ?thesis by (intro exI [of _ p]) (auto intro: steps_refl)
  qed
qed

text \<open>A context that has its drivers in order keeps them so, whatever the framework calls.\<close>

definition module_ok :: "'w sensor_kernel \<Rightarrow> 'f poll_context \<times> 'w \<Rightarrow> bool" where
  "module_ok K cw \<longleftrightarrow> poll_ok K (fst cw) \<and> wired (fst cw)"

lemma driver_setEnable_module:
  assumes ok: "module_ok K (c, w)" and en: "driver_setEnable K cv i handle en c w = (rc, c', w')"
  shows "module_ok K (c', w')"
proof -
  from ok have k: "poll_ok K c" "wired c" by (simp_all add: module_ok_def)
  note k' = k(1) [unfolded poll_ok_def] k(2) [unfolded wired_def]
  consider "i = light_index" | "i = proximity_index" "i \<noteq> light_index" | "i \<noteq> light_index" "i \<noteq> proximity_index" by blast
  then show ?thesis
  proof cases
    case 1
    with en obtain s where s: "light_setEnable K cv en (pc_light c) w = (rc, s, w')" "c' = c\<lparr>pc_light := s\<rparr>"
      by (auto simp: driver_setEnable_def split: prod.splits)
    have "simple_ok K s \<and> simple_same (pc_light c) s"
      by (rule simple_setEnable_same [OF _ s(1) [unfolded light_setEnable_def]]) (use k' in simp)
    with k' s(2) show ?thesis by (simp add: module_ok_def poll_ok_def wired_def simple_same_def)
  next
    case 2
    with en obtain s where s: "proximity_setEnable K cv en (pc_proximity c) w = (rc, s, w')" "c' = c\<lparr>pc_proximity := s\<rparr>"
      by (auto simp: driver_setEnable_def split: prod.splits)
    have "simple_ok K s \<and> simple_same (pc_proximity c) s"
      by (rule simple_setEnable_same [OF _ s(1) [unfolded proximity_setEnable_def]]) (use k' in simp)
    with k' s(2) show ?thesis by (simp add: module_ok_def poll_ok_def wired_def simple_same_def)
  next
    case 3
    with en obtain s where s: "akm_setEnable K handle en (pc_akm c) w = (rc, s, w')" "c' = c\<lparr>pc_akm := s\<rparr>"
      by (auto simp: driver_setEnable_def split: prod.splits)
    from k' have "akm_ok (pc_akm c)" by (simp add: akm_driver_ok_def)
    from akm_setEnable_ok [OF this s(1)] akm_set_wiring(1) [OF s(1)] k' s(2) show ?thesis
      by (simp add: module_ok_def poll_ok_def wired_def akm_wiring_def akm_driver_ok_def)
  qed
qed

lemma setDelay_module:
  assumes ok: "module_ok K (c, w)" and d: "setDelay K handle ns c w = (rc, c', w')"
  shows "module_ok K (c', w')"
proof (cases "handleToDriver handle = Some akm_index")
  case True
  with d obtain s where s: "akm_setDelay K handle ns (pc_akm c) w = (rc, s, w')" "c' = c\<lparr>pc_akm := s\<rparr>"
    by (auto simp: setDelay_def split: prod.splits)
  from ok have "akm_ok (pc_akm c)" by (simp add: module_ok_def poll_ok_def akm_driver_ok_def)
  from akm_setDelay_ok [OF this s(1)] akm_set_wiring(2) [OF s(1)] ok s(2) show ?thesis
    by (simp add: module_ok_def poll_ok_def wired_def akm_wiring_def akm_driver_ok_def)
next
  case False
  with d ok show ?thesis by (auto simp: setDelay_def module_ok_def split: option.splits if_splits)
qed

lemma poll_start_flow:
  assumes "module_ok K (c, w)" "nat count \<le> length buf" "0 \<le> count"
  shows "poll_inv K (nat count) buf (poll_start buf count c w)"
    "compass_flow arr got cv (data_fd (pc_akm c)) (\<lambda>a. akm_todo cv (pc_akm c) (drop (got (data_fd (pc_akm c)) w) a)) (poll_start buf count c w)"
  using assms by (simp_all add: poll_inv_def poll_start_def compass_flow_def module_ok_def)

lemma pollEvents_module:
  assumes K: "input_log K arr got" and ok: "module_ok K (c, w)" "nat count \<le> length buf" "0 \<le> count"
    and p: "pollEvents K cv buf count c w = Some (rc, q)" "\<not> poll_failed K cv (poll_start buf count c w)"
  shows "module_ok K (p_ctx q, p_world q)"
proof -
  obtain p' where p': "steps (poll_step K cv) (poll_start buf count c w) p'" "poll_round K cv p' = Some (q, Some rc)"
    using poll_loop_rounds [OF p(1) [unfolded pollEvents_def]] by auto
  have ok': "\<not> round_failed K cv p'" using p(2) p'(1) by (auto simp: poll_failed_def)
  from poll_steps_flow [OF K poll_start_flow [OF ok] unfailed_steps [OF p'(1) p(2)]]
  have i: "poll_inv K (nat count) buf p'" "\<exists>owed. compass_flow arr got cv (data_fd (pc_akm c)) owed p'" by blast+
  have "poll_inv K (nat count) buf q" using poll_round_safe [OF i(1) ok'] p'(2) by auto
  moreover have "\<exists>owed. compass_flow arr got cv (data_fd (pc_akm c)) owed q"
    using i(2) poll_round_flow [OF K i(1) _ p'(2) ok'] by blast
  ultimately show ?thesis by (auto simp: module_ok_def poll_inv_def compass_flow_def)
qed

lemma module_step_ok:
  assumes "input_log K arr got" "module_ok K s" "module_step K cv s t"
  shows "module_ok K t"
  using assms(3,2)
proof (cases rule: module_step.cases)
  case (do_activate c handle en w rc c' w')
  show ?thesis
  proof (cases "handleToDriver handle")
    case (Some i)
    obtain e c1 w1 where d: "driver_setEnable K cv i handle en c w = (e, c1, w1)" by (metis prod_cases3)
    have "c' = c1" using do_activate(3) Some d by (auto simp: poll_activate_def activate_def split: if_splits prod.splits)
    with driver_setEnable_module [OF _ d] assms(2) do_activate show ?thesis by (simp add: module_ok_def)
  qed (use do_activate assms(2) in \<open>simp add: poll_activate_def activate_def\<close>)
next
  case (do_setDelay c handle ns w rc c' w')
  with setDelay_module [of K c w handle ns rc c' w'] assms(2) show ?thesis by (simp add: poll_setDelay_def)
next
  case (do_poll c buf count w rc q)
  with pollEvents_module [OF assms(1), of c w count buf cv rc q] assms(2) show ?thesis by (simp add: poll_poll_def)
qed

interpretation sensor_module: invariant_system "\<lambda>s. (\<exists>arr got. input_log K arr got) \<and> module_ok K s" "module_step K cv"
    "\<lambda>s. (\<exists>arr got. input_log K arr got) \<and> module_ok K s" for K cv
  by unfold_locales (auto intro: module_step_ok)

lemma new_context_module:
  assumes "normal_kernel K" "new_poll_context K cv junk w = Some (c, w')"
    and "data_fd (pc_akm c) \<notin> {data_fd (pc_light c), data_fd (pc_proximity c), pc_fds c ! wake_index}"
  shows "module_ok K (c, w')"
  using new_poll_context_ok [OF assms(1,2)] assms(3) by (simp add: module_ok_def wired_def)

subsection \<open>Properties\<close>

text \<open>
  C5: from the device to the framework no report of the compass chip is lost, repeated or reordered, in any session in which no read of an input device fails. Let \<open>arr\<close> be
  everything the device has produced and \<open>got\<close> the number of events read from it. Start from the constructor, with the compass
  device on a descriptor of its own, and let the framework make any calls to activate sensors, set delays and poll, one after the other, no driver meeting a failed read; then poll
  again. After any number of iterations of the loop without a failed read, if the next one has none either, it is defined, and then the compass reports in the framework's
  array, followed by those that the driver still owes for its pending state, the unread events of its ring buffer and the unread
  events in the kernel, are exactly the reports owed before this call for everything the device has produced by now. The
  reports of the other two drivers in the same array do not disturb this. When the iteration is the last one, its state is the one
  that \<open>pollEvents\<close> returns. (After a failed read the loop may write before its array: \<open>poll_error_writes_before_array\<close>.)
\<close>

theorem compass_session_polled:
  assumes K: "input_log K arr got" "normal_kernel K" and new: "new_poll_context K cv junk w0 = Some (c0, w1)"
    and own: "data_fd (pc_akm c0) \<notin> {data_fd (pc_light c0), data_fd (pc_proximity c0), pc_fds c0 ! wake_index}"
    and session: "steps (module_step K cv) (c0, w1) (c, w)"
    and room: "nat count \<le> length buf" "0 \<le> count"
    and st: "steps (good_step K cv) (poll_start buf count c w) p" "\<not> round_failed K cv p" and fd: "fd = data_fd (pc_akm c)"
  shows "\<exists>q fin. poll_round K cv p = Some (q, fin) \<and>
     filter (from_driver akm_index) (take (nat (p_nb q)) (p_buf q)) @
       akm_todo cv (pc_akm (p_ctx q)) (drop (got fd (p_world q)) (arr fd (p_world q))) =
     akm_todo cv (pc_akm c) (drop (got fd w) (arr fd (p_world q))) \<and>
     (\<forall>r. fin = Some r \<longrightarrow> pollEvents K cv buf count c w = Some (r, q))"
proof -
  have "module_ok K (c, w)"
    using sensor_module.reachable_inv [OF _ session] new_context_module [OF K(2) new own] K(1) by blast
  note p = poll_steps_flow [OF K(1) poll_start_flow [OF this room] st(1), folded fd]
  obtain q fin where q: "poll_round K cv p = Some (q, fin)" by (rule poll_round_safe [OF conjunct1 [OF p] st(2)])
  note flow = poll_round_flow [OF K(1) conjunct1 [OF p] conjunct2 [OF p] q st(2)]
  have "pollEvents K cv buf count c w = Some (r, q)" if "fin = Some r" for r
    using poll_loop_steps [OF good_steps [OF st(1)]] poll_loop_end [of K cv p q r] q that by (simp add: pollEvents_def)
  with q flow show ?thesis by (intro exI [of _ q] exI [of _ fin]) (simp add: compass_flow_def)
qed

text \<open>
  A kernel with the three input devices, in which every sensor is switched on; the compass device, descriptor 9, has produced two
  events, and the world counts those read.
\<close>

definition demo_history :: "input_event list" where
  "demo_history = [demo_axis 0 8, demo_syn]"

definition demo_devices :: "nat sensor_kernel" where
  "demo_devices = \<lparr>sk_open = (\<lambda>n w. (if n = ''/dev/input/event0'' then 7 else if n = ''/dev/input/event1'' then 8
        else if n = ''/dev/input/event2'' then 9 else 5, w)),
     sk_close = (\<lambda>fd w. w), sk_ioctl = (\<lambda>fd c a w. (\<lparr>io_rc = 0, io_value = 1, io_errno = 0\<rparr>, w)),
     sk_read = (\<lambda>fd n w. if fd = 9 then (ReadEvents (take n (drop w demo_history)) False, w + length (take n (drop w demo_history)))
        else (ReadEvents [] False, w)),
     sk_clock = (\<lambda>w. (0, 0)), sk_dir = (\<lambda>w. Some [''.'', ''event0'', ''event1'', ''event2'']),
     sk_name = (\<lambda>fd w. Some (if fd = 7 then ''lightsensor-level'' else if fd = 8 then ''proximity'' else ''compass'')),
     sk_write = (\<lambda>fd s w. (int (length s), 0, w)), sk_pipe = (\<lambda>w. (3, 4, w)), sk_take = (\<lambda>fd w. w),
     sk_poll = (\<lambda>fds now w. ((Inr 0, map (\<lambda>_. False) fds), w))\<rparr>"

definition demo_arr :: "nat history" where
  "demo_arr fd w = (if fd = 9 then demo_history else [])"

definition demo_got :: "nat position" where
  "demo_got fd w = (if fd = 9 then w else 0)"

lemma demo_input_log: "input_log demo_devices demo_arr demo_got"
  by (auto simp: input_log_def demo_devices_def read_log_def log_step_def demo_arr_def demo_got_def take_is_prefix)

lemma demo_devices_normal: "normal_kernel demo_devices"
  by (auto simp: normal_kernel_def demo_devices_def demo_history_def normal_time_def demo_axis_def demo_event_def
      demo_syn_def list_all_iff dest!: in_set_takeD in_set_dropD)

lemma demo_devices_reliable: "reliable_kernel demo_devices"
  using demo_devices_normal by (simp add: reliable_kernel_def) (simp add: demo_devices_def)

lemma demo_context: "\<exists>c. new_poll_context demo_devices (\<lambda>c i. i) (\<lambda>_. demo_event 0) 0 = Some (c, 0) \<and> data_fd (pc_light c) = 7 \<and>
   data_fd (pc_proximity c) = 8 \<and> data_fd (pc_akm c) = 9 \<and> pc_fds c ! wake_index = 3 \<and> akEnabled (pc_akm c) = 7 \<and>
   akPendingMask (pc_akm c) = 0 \<and> akReader (pc_akm c) = new_reader (\<lambda>_. demo_event 0) 32 \<and>
   sensor_ids (akEvents (pc_akm c)) = [ID_A, ID_M, ID_O]"
  by (simp add: new_poll_context_def LightSensor_new_def ProximitySensor_new_def AkmSensor_new_def demo_devices_def Let_def
      SensorBase_new_def openInput_def sensor_base.extend_def open_device_def close_device_def setInitialState_def
      init_flag_def init_accel_def init_magnetic_def init_orientation_def init_axis_def axis_x_def axis_y_def axis_z_def
      smul_def int32_ok_def wake_index_def sensor_ids_def event_zero_def Accelerometer_def MagneticField_def Orientation_def)

lemma demo_owed:
  assumes "akEnabled s = 7" "akPendingMask s = 0" "pending (akReader s) = []" "sensor_ids (akEvents s) = [ID_A, ID_M, ID_O]"
  shows "sensor_ids (akm_todo (\<lambda>c i. i) s demo_history) = [ID_A]"
proof -
  have "length (akEvents s) = 3" "se_sensor (akEvents s ! 0) = ID_A"
    using assms(4) by (auto simp: sensor_ids_def map_eq_Cons_conv)
  then show ?thesis
    using assms(1-3)
    by (simp add: akm_todo_def demo_history_def demo_axis_def demo_event_def demo_syn_def EV_ABS_def EV_SYN_def processEvent_def
        set_pending_def EVENT_TYPE_ACCEL_X_def sync_reports_def stamped_def numSensors_def Accelerometer_def sensor_ids_def upt_rec)
qed

theorem compass_session_polled_witness:
  "\<exists>c q fin. new_poll_context demo_devices (\<lambda>c i. i) (\<lambda>_. demo_event 0) 0 = Some (c, 0) \<and>
     poll_round demo_devices (\<lambda>c i. i) (poll_start (replicate 4 (event_zero (\<lambda>c i. i) 0 0 0)) 4 c 0) = Some (q, fin) \<and>
     sensor_ids (filter (from_driver akm_index) (take (nat (p_nb q)) (p_buf q)) @
       akm_todo (\<lambda>c i. i) (pc_akm (p_ctx q)) (drop (p_world q) demo_history)) = [ID_A]"
proof -
  obtain c where c: "new_poll_context demo_devices (\<lambda>c i. i) (\<lambda>_. demo_event 0) 0 = Some (c, 0)"
      "data_fd (pc_light c) = 7" "data_fd (pc_proximity c) = 8" "data_fd (pc_akm c) = 9" "pc_fds c ! wake_index = 3"
      "akEnabled (pc_akm c) = 7" "akPendingMask (pc_akm c) = 0" "akReader (pc_akm c) = new_reader (\<lambda>_. demo_event 0) 32"
      "sensor_ids (akEvents (pc_akm c)) = [ID_A, ID_M, ID_O]"
    using demo_context by blast
  have "pending (akReader (pc_akm c)) = []" using new_ring_ok [of 32 "\<lambda>_. demo_event 0"] by (simp add: c(8))
  from demo_owed [OF c(6,7) this c(9)]
  have owed: "sensor_ids (akm_todo (\<lambda>c i. i) (pc_akm c) (drop (demo_got 9 0) (demo_arr 9 v))) = [ID_A]" for v
    by (simp add: demo_got_def demo_arr_def)
  have own: "data_fd (pc_akm c) \<notin> {data_fd (pc_light c), data_fd (pc_proximity c), pc_fds c ! wake_index}" by (simp add: c)
  let ?buf = "replicate 4 (event_zero (\<lambda>c i. i) 0 0 0)"
  have "module_ok demo_devices (c, 0)" by (rule new_context_module [OF demo_devices_normal c(1) own])
  then have good: "\<not> round_failed demo_devices (\<lambda>c i. i) (poll_start ?buf 4 c 0)"
    using reliable_step(1) [OF demo_devices_reliable, of 4 ?buf] by (simp add: poll_inv_def poll_start_def module_ok_def)
  have "\<exists>q fin. poll_round demo_devices (\<lambda>c i. i) (poll_start ?buf 4 c 0) = Some (q, fin) \<and>
      filter (from_driver akm_index) (take (nat (p_nb q)) (p_buf q)) @
        akm_todo (\<lambda>c i. i) (pc_akm (p_ctx q)) (drop (demo_got 9 (p_world q)) (demo_arr 9 (p_world q))) =
      akm_todo (\<lambda>c i. i) (pc_akm c) (drop (demo_got 9 0) (demo_arr 9 (p_world q))) \<and>
      (\<forall>r. fin = Some r \<longrightarrow> pollEvents demo_devices (\<lambda>c i. i) ?buf 4 c 0 = Some (r, q))"
    by (rule compass_session_polled [OF demo_input_log demo_devices_normal c(1) own steps_refl _ _ steps_refl good]) (simp_all add: c)
  then show ?thesis using c(1) owed by (auto simp: demo_got_def demo_arr_def)
qed

end
