(* ===== verification/Leo_Sensors.thy ===== *)
theory Leo_Sensors
  imports Akm_Sensor
begin

text \<open>
  The older sensors module, \<open>libsensors/leosensors.c\<close>, which the build no longer compiles: a control device that switches
  sensors on and off and a data device that delivers their events one at a time.

  System calls are those of \<open>sensor_kernel\<close>; \<open>select\<close> and the write of an input event, which the newer module does not
  make, are arguments of the functions that use them. The three operands of the bitwise or in
  \<open>control__activate\<close> are evaluated from left to right. A loop over the bits of a mask from the highest one is a loop over the
  bit numbers in descending order. The loop of \<open>data__poll\<close> is a \<open>partial_function\<close>.
\<close>

subsection \<open>Constants and state\<close>

definition MAX_NUM_SENSORS :: nat where "MAX_NUM_SENSORS = 6"
definition SUPPORTED_SENSORS :: u32 where "SUPPORTED_SENSORS = 0x3F"

definition LEO_A :: nat where "LEO_A = 0"
definition LEO_M :: nat where "LEO_M = 1"
definition LEO_O :: nat where "LEO_O = 2"
definition LEO_T :: nat where "LEO_T = 3"
definition LEO_P :: nat where "LEO_P = 4"
definition LEO_L :: nat where "LEO_L = 5"

lemmas leo_ids = LEO_A_def LEO_M_def LEO_O_def LEO_T_def LEO_P_def LEO_L_def

definition SENSOR_TYPE_TEMPERATURE :: int where "SENSOR_TYPE_TEMPERATURE = 7"

definition id_to_sensor :: "int list" where
  "id_to_sensor = [SENSOR_TYPE_ACCELEROMETER, SENSOR_TYPE_MAGNETIC_FIELD, SENSOR_TYPE_ORIENTATION, SENSOR_TYPE_TEMPERATURE,
     SENSOR_TYPE_PROXIMITY, SENSOR_TYPE_LIGHT]"

definition SENSORS_AKM_GROUP :: u32 where "SENSORS_AKM_GROUP = 0x0F"
definition SENSORS_CM_GROUP :: u32 where "SENSORS_CM_GROUP = 0x10"
definition SENSORS_LIGHT_GROUP :: u32 where "SENSORS_LIGHT_GROUP = 0x20"

abbreviation sensor_bit :: "nat \<Rightarrow> u32" where "sensor_bit i \<equiv> push_bit i 1"

record leo_control =
  akmd_fd :: int
  cmd_fd :: int
  lsd_fd :: int
  active_sensors :: u32
  g_delay :: int

record 'f leo_data =
  events_fd :: "int list"
  leo_sensors :: "'f sensors_event list"
  pendingSensors :: u32

subsection \<open>The devices\<close>

text \<open>The input devices: result and descriptors of compass, proximity and light. \<open>l_fd\<close> is not initialised.\<close>

fun open_inputs_loop :: "'w sensor_kernel \<Rightarrow> string list \<Rightarrow> int \<times> int \<times> int \<Rightarrow> 'w \<Rightarrow> (int \<times> int \<times> int) \<times> 'w" where
  "open_inputs_loop K [] fds w = (fds, w)"
| "open_inputs_loop K (d # ds) fds w =
     (if d = ''.'' \<or> d = ''..'' then open_inputs_loop K ds fds w
      else
        let (fd, w1) = sk_open K (''/dev/input/'' @ d) w; (akm_fd, p_fd, l_fd) = fds in
        if fd \<ge> 0 then
          let name = (case sk_name K fd w1 of None \<Rightarrow> [] | Some n \<Rightarrow> n) in
          if name = ''compass'' then open_inputs_loop K ds (fd, p_fd, l_fd) w1
          else if name = ''proximity'' then open_inputs_loop K ds (akm_fd, fd, l_fd) w1
          else if name = ''lightsensor-level'' then open_inputs_loop K ds (akm_fd, p_fd, fd) w1
          else open_inputs_loop K ds fds (sk_close K fd w1)
        else open_inputs_loop K ds fds w1)"

definition open_inputs :: "'w sensor_kernel \<Rightarrow> int \<Rightarrow> 'w \<Rightarrow> int \<times> (int \<times> int \<times> int) \<times> 'w" where
  "open_inputs K l_fd w =
     (case sk_dir K w of
        None \<Rightarrow> (- 1, (0, 0, l_fd), w)
      | Some ds \<Rightarrow>
          let ((a, p, l), w1) = open_inputs_loop K ds (- 1, - 1, l_fd) w
          in (if a < 0 \<or> p < 0 \<or> l < 0 then - 1 else 0, (a, p, l), w1))"

definition open_akm :: "'w sensor_kernel \<Rightarrow> leo_control \<Rightarrow> 'w \<Rightarrow> int \<times> leo_control \<times> 'w" where
  "open_akm K dev w =
     (if akmd_fd dev < 0 then
        let (fd, w1) = sk_open K ''/dev/akm8973_aot'' w; dev1 = dev\<lparr>akmd_fd := fd\<rparr> in
        (fd, if fd \<ge> 0 then dev1\<lparr>active_sensors := active_sensors dev1 AND NOT SENSORS_AKM_GROUP\<rparr> else dev1, w1)
      else (akmd_fd dev, dev, w))"

definition close_akm :: "'w sensor_kernel \<Rightarrow> leo_control \<Rightarrow> 'w \<Rightarrow> leo_control \<times> 'w" where
  "close_akm K dev w = (if akmd_fd dev \<ge> 0 then (dev\<lparr>akmd_fd := - 1\<rparr>, sk_close K (akmd_fd dev) w) else (dev, w))"

definition open_cm :: "'w sensor_kernel \<Rightarrow> leo_control \<Rightarrow> 'w \<Rightarrow> int \<times> leo_control \<times> 'w" where
  "open_cm K dev w =
     (if cmd_fd dev < 0 then
        let (fd, w1) = sk_open K ''/dev/cm3602'' w; dev1 = dev\<lparr>cmd_fd := fd\<rparr> in
        (fd, if fd \<ge> 0 then dev1\<lparr>active_sensors := active_sensors dev1 AND NOT SENSORS_CM_GROUP\<rparr> else dev1, w1)
      else (cmd_fd dev, dev, w))"

definition close_cm :: "'w sensor_kernel \<Rightarrow> leo_control \<Rightarrow> 'w \<Rightarrow> leo_control \<times> 'w" where
  "close_cm K dev w = (if cmd_fd dev \<ge> 0 then (dev\<lparr>cmd_fd := - 1\<rparr>, sk_close K (cmd_fd dev) w) else (dev, w))"

definition open_ls :: "'w sensor_kernel \<Rightarrow> leo_control \<Rightarrow> 'w \<Rightarrow> int \<times> leo_control \<times> 'w" where
  "open_ls K dev w =
     (if lsd_fd dev < 0 then
        let (fd, w1) = sk_open K ''/dev/lightsensor'' w; dev1 = dev\<lparr>lsd_fd := fd\<rparr> in
        (fd, if fd \<ge> 0 then dev1\<lparr>active_sensors := active_sensors dev1 AND NOT SENSORS_LIGHT_GROUP\<rparr> else dev1, w1)
      else (lsd_fd dev, dev, w))"

definition close_ls :: "'w sensor_kernel \<Rightarrow> leo_control \<Rightarrow> 'w \<Rightarrow> leo_control \<times> 'w" where
  "close_ls K dev w = (if lsd_fd dev \<ge> 0 then (dev\<lparr>lsd_fd := - 1\<rparr>, sk_close K (lsd_fd dev) w) else (dev, w))"

text \<open>One flag read from a device, and one flag written to it when the mask asks for it.\<close>

definition read_flag :: "'w sensor_kernel \<Rightarrow> int \<Rightarrow> sensor_ioctl \<Rightarrow> nat \<Rightarrow> u32 \<times> 'w \<Rightarrow> u32 \<times> 'w" where
  "read_flag K fd cmd i sw =
     (let (sensors, w) = sw; (r, w1) = sk_ioctl K fd cmd 0 w in
      (if io_rc r = 0 then if io_value r \<noteq> 0 then sensors OR sensor_bit i else sensors AND NOT (sensor_bit i) else sensors, w1))"

definition write_flag :: "'w sensor_kernel \<Rightarrow> int \<Rightarrow> sensor_ioctl \<Rightarrow> nat \<Rightarrow> u32 \<Rightarrow> u32 \<Rightarrow> 'w \<Rightarrow> 'w" where
  "write_flag K fd cmd i sensors msk w =
     (if msk AND sensor_bit i \<noteq> 0 then snd (sk_ioctl K fd cmd (if sensors AND sensor_bit i \<noteq> 0 then 1 else 0) w) else w)"

definition read_akm_sensors_state :: "'w sensor_kernel \<Rightarrow> int \<Rightarrow> 'w \<Rightarrow> u32 \<times> 'w" where
  "read_akm_sensors_state K fd w =
     read_flag K fd ECS_IOCTL_APP_GET_MVFLAG LEO_M (read_flag K fd ECS_IOCTL_APP_GET_TFLAG LEO_T
       (read_flag K fd ECS_IOCTL_APP_GET_AFLAG LEO_A (read_flag K fd ECS_IOCTL_APP_GET_MFLAG LEO_O (0, w))))"

definition enable_disable_akm :: "'w sensor_kernel \<Rightarrow> u32 \<Rightarrow> u32 \<Rightarrow> leo_control \<Rightarrow> 'w \<Rightarrow> u32 \<times> leo_control \<times> 'w" where
  "enable_disable_akm K sensors msk dev w =
     (let (fd, dev1, w1) = open_akm K dev w in
      if fd < 0 then (0, dev1, w1)
      else
        let w2 = write_flag K fd ECS_IOCTL_APP_SET_MFLAG LEO_O sensors msk w1;
            w3 = write_flag K fd ECS_IOCTL_APP_SET_AFLAG LEO_A sensors msk w2;
            w4 = write_flag K fd ECS_IOCTL_APP_SET_TFLAG LEO_T sensors msk w3;
            w5 = write_flag K fd ECS_IOCTL_APP_SET_MVFLAG LEO_M sensors msk w4;
            (now_active, w6) = read_akm_sensors_state K fd w5;
            (dev2, w7) = (if sensors = 0 then close_akm K dev1 w6 else (dev1, w6))
        in (now_active, dev2, w7))"

definition read_cm_sensors_state :: "'w sensor_kernel \<Rightarrow> int \<Rightarrow> 'w \<Rightarrow> u32 \<times> 'w" where
  "read_cm_sensors_state K fd w = read_flag K fd CAPELLA_CM3602_IOCTL_GET_ENABLED LEO_P (0, w)"

definition enable_disable_cm :: "'w sensor_kernel \<Rightarrow> u32 \<Rightarrow> u32 \<Rightarrow> leo_control \<Rightarrow> 'w \<Rightarrow> u32 \<times> leo_control \<times> 'w" where
  "enable_disable_cm K sensors msk dev w =
     (let (fd, dev1, w1) = open_cm K dev w in
      if fd < 0 then (0, dev1, w1)
      else
        let w2 = write_flag K fd CAPELLA_CM3602_IOCTL_ENABLE LEO_P sensors msk w1;
            (now_active, w3) = read_cm_sensors_state K fd w2
        in (now_active, dev1, w3))"

definition read_ls_sensors_state :: "'w sensor_kernel \<Rightarrow> int \<Rightarrow> 'w \<Rightarrow> u32 \<times> 'w" where
  "read_ls_sensors_state K fd w = read_flag K fd LIGHTSENSOR_IOCTL_GET_ENABLED LEO_L (0, w)"

definition enable_disable_ls :: "'w sensor_kernel \<Rightarrow> u32 \<Rightarrow> u32 \<Rightarrow> leo_control \<Rightarrow> 'w \<Rightarrow> u32 \<times> leo_control \<times> 'w" where
  "enable_disable_ls K sensors msk dev w =
     (let (fd, dev1, w1) = open_ls K dev w in
      if fd < 0 then (0, dev1, w1)
      else
        let w2 = write_flag K fd LIGHTSENSOR_IOCTL_ENABLE LEO_L sensors msk w1;
            (now_active, w3) = read_ls_sensors_state K fd w2
        in (now_active, dev1, w3))"

subsection \<open>The control device\<close>

definition control_open_data_source :: "'w sensor_kernel \<Rightarrow> int \<Rightarrow> 'w \<Rightarrow> int list option \<times> 'w" where
  "control_open_data_source K l_fd w =
     (let (rc, (a, p, l), w1) = open_inputs K l_fd w in
      (if rc < 0 \<or> a < 0 \<or> p < 0 \<or> l < 0 then None else Some [a, p, l], w1))"

definition control_activate :: "'w sensor_kernel \<Rightarrow> int \<Rightarrow> bool \<Rightarrow> leo_control \<Rightarrow> 'w \<Rightarrow> int \<times> leo_control \<times> 'w" where
  "control_activate K handle enabled dev w =
     (if handle < 0 \<or> handle \<ge> int MAX_NUM_SENSORS then (- 1, dev, w)
      else
        let msk = sensor_bit (nat handle);
            sensors = (if enabled then msk else 0);
            active = active_sensors dev;
            new_sensors = (active AND NOT msk) OR (sensors AND msk);
            changed = active XOR new_sensors
        in if changed \<noteq> 0 then
             let changed = (if active = 0 \<and> new_sensors \<noteq> 0 then SUPPORTED_SENSORS else changed);
                 (a, dev1, w1) = enable_disable_akm K (new_sensors AND SENSORS_AKM_GROUP) (changed AND SENSORS_AKM_GROUP) dev w;
                 (c, dev2, w2) = enable_disable_cm K (new_sensors AND SENSORS_CM_GROUP) (changed AND SENSORS_CM_GROUP) dev1 w1;
                 (l, dev3, w3) = enable_disable_ls K (new_sensors AND SENSORS_LIGHT_GROUP) (changed AND SENSORS_LIGHT_GROUP) dev2 w2
             in (0, dev3\<lparr>active_sensors := a OR c OR l\<rparr>, w3)
           else (0, dev, w))"

text \<open>The condition is the wrong way round: a call that succeeded returns the negated \<open>errno\<close>.\<close>

definition control_set_delay :: "'w sensor_kernel \<Rightarrow> int \<Rightarrow> leo_control \<Rightarrow> 'w \<Rightarrow> int \<times> leo_control \<times> 'w" where
  "control_set_delay K ms dev w =
     (if akmd_fd dev \<le> 0 then (- 1, dev, w)
      else
        let dev1 = dev\<lparr>g_delay := ms\<rparr>; (r, w1) = sk_ioctl K (akmd_fd dev) ECS_IOCTL_APP_SET_DELAY ms w in
        (if io_rc r = 0 then - io_errno r else 0, dev1, w1))"

definition SYN_CONFIG :: int where "SYN_CONFIG = 1"

definition control_wake ::
  "'w sensor_kernel \<Rightarrow> (int \<Rightarrow> input_event \<Rightarrow> 'w \<Rightarrow> int \<times> 'w) \<Rightarrow> input_event \<Rightarrow> int \<Rightarrow> 'w \<Rightarrow> int \<times> 'w" where
  "control_wake K wr junk l_fd w =
     (let (rc, (a, p, l), w1) = open_inputs K l_fd w in
      if rc < 0 \<or> a < 0 \<or> p < 0 \<or> l < 0 then (- 1, w1)
      else
        let event = junk\<lparr>ev_type := EV_SYN, ev_code := SYN_CONFIG, ev_value := 0\<rparr>;
            (err1, w2) = wr a event w1;
            (err2, w3) = wr p event (sk_close K a w2);
            (err3, w4) = wr l event (sk_close K p w3)
        in (err3, sk_close K l w4))"

definition control_close :: "'w sensor_kernel \<Rightarrow> leo_control \<Rightarrow> 'w \<Rightarrow> int \<times> 'w" where
  "control_close K dev w =
     (let (dev1, w1) = close_akm K dev w; (dev2, w2) = close_cm K dev1 w1; (dev3, w3) = close_ls K dev2 w2 in (0, w3))"

subsection \<open>The data device\<close>

definition data_data_open ::
  "'w sensor_kernel \<Rightarrow> (conv \<Rightarrow> int \<Rightarrow> 'f) \<Rightarrow> (int \<Rightarrow> 'w \<Rightarrow> int \<times> 'w) \<Rightarrow> int list \<Rightarrow> 'f leo_data \<Rightarrow> 'w
   \<Rightarrow> int \<times> 'f leo_data \<times> 'w" where
  "data_data_open K cv dup handle dev w =
     (let sensors = map (\<lambda>t. event_zero cv t 0 SENSOR_STATUS_ACCURACY_HIGH) id_to_sensor;
          (f0, w1) = dup (handle ! 0) w; (f1, w2) = dup (handle ! 1) w1; (f2, w3) = dup (handle ! 2) w2;
          (r, w4) = sk_ioctl K f1 (EVIOCGABS EVENT_TYPE_PROXIMITY) 0 w3
      in (0, if io_rc r = 0
          then dev\<lparr>events_fd := [f0, f1, f2], pendingSensors := sensor_bit LEO_P,
                   leo_sensors := sensors[LEO_P := (sensors ! LEO_P)\<lparr>se_x := cv UNIT (io_value r)\<rparr>]\<rparr>
          else dev\<lparr>events_fd := [f0, f1, f2], pendingSensors := 0, leo_sensors := sensors\<rparr>, w4))"

fun close_fds :: "'w sensor_kernel \<Rightarrow> int list \<Rightarrow> 'w \<Rightarrow> int list \<times> 'w" where
  "close_fds K [] w = ([], w)"
| "close_fds K (fd # fds) w =
     (let (fds1, w1) = close_fds K fds (if fd \<ge> 0 then sk_close K fd w else w) in ((if fd \<ge> 0 then - 1 else fd) # fds1, w1))"

definition data_data_close :: "'w sensor_kernel \<Rightarrow> 'f leo_data \<Rightarrow> 'w \<Rightarrow> int \<times> 'f leo_data \<times> 'w" where
  "data_data_close K dev w = (let (fds, w1) = close_fds K (events_fd dev) w in (0, dev\<lparr>events_fd := fds\<rparr>, w1))"

definition data_close :: "'w sensor_kernel \<Rightarrow> 'f leo_data \<Rightarrow> 'w \<Rightarrow> int \<times> 'w" where
  "data_close K dev w = (let (rc, dev1, w1) = data_data_close K dev w in (0, w1))"

text \<open>The result is the number of the sensor and its values.\<close>

fun pick_loop :: "nat list \<Rightarrow> 'f leo_data \<Rightarrow> (int \<times> 'f sensors_event option) \<times> 'f leo_data" where
  "pick_loop [] dev = ((- 1, None), dev)"
| "pick_loop (i # is) dev =
     (if pendingSensors dev AND sensor_bit i \<noteq> 0
      then ((int i, Some ((leo_sensors dev ! i)\<lparr>se_sensor := id_to_sensor ! i\<rparr>)),
            dev\<lparr>pendingSensors := pendingSensors dev AND NOT (sensor_bit i)\<rparr>)
      else pick_loop is dev)"

definition pick_sensor :: "'f leo_data \<Rightarrow> (int \<times> 'f sensors_event option) \<times> 'f leo_data" where
  "pick_sensor dev = pick_loop [5, 4, 3, 2, 1, 0] dev"

definition fix_azimuth :: "u32 \<Rightarrow> u32" where
  "fix_azimuth val = (if 271 \<le> val \<and> val \<le> 360 then val - 270 else if val \<le> 270 then val + 90 else val)"

definition EVENT_TYPE_TEMPERATURE :: int where "EVENT_TYPE_TEMPERATURE = 0x06"

definition leo_update :: "nat \<Rightarrow> ('f sensors_event \<Rightarrow> 'f sensors_event) \<Rightarrow> 'f leo_data \<Rightarrow> (u32 \<times> 'f leo_data) option" where
  "leo_update i f dev = Some (sensor_bit i, dev\<lparr>leo_sensors := (leo_sensors dev)[i := f (leo_sensors dev ! i)]\<rparr>)"

definition data_poll_process_akm_abs ::
  "(conv \<Rightarrow> int \<Rightarrow> 'f) \<Rightarrow> input_event \<Rightarrow> 'f leo_data \<Rightarrow> (u32 \<times> 'f leo_data) option" where
  "data_poll_process_akm_abs cv event dev =
     (let code = ev_code event; v = ev_value event in
      if ev_type event \<noteq> EV_ABS then Some (0, dev)
      else if code = EVENT_TYPE_ACCEL_X then leo_update LEO_A (se_x_update (\<lambda>_. cv CONVERT_A_X v)) dev
      else if code = EVENT_TYPE_ACCEL_Y then leo_update LEO_A (se_y_update (\<lambda>_. cv CONVERT_A_Y v)) dev
      else if code = EVENT_TYPE_ACCEL_Z then leo_update LEO_A (se_z_update (\<lambda>_. cv CONVERT_A_Z v)) dev
      else if code = EVENT_TYPE_MAGV_X then leo_update LEO_M (se_x_update (\<lambda>_. cv CONVERT_M_X v)) dev
      else if code = EVENT_TYPE_MAGV_Y then leo_update LEO_M (se_y_update (\<lambda>_. cv CONVERT_M_Y v)) dev
      else if code = EVENT_TYPE_MAGV_Z then leo_update LEO_M (se_z_update (\<lambda>_. cv CONVERT_M_Z v)) dev
      else if code = EVENT_TYPE_YAW then leo_update LEO_O (se_x_update (\<lambda>_. cv UNIT (uint (fix_azimuth (word_of_int v))))) dev
      else if code = EVENT_TYPE_PITCH then leo_update LEO_O (se_y_update (\<lambda>_. cv UNIT v)) dev
      else if code = EVENT_TYPE_ROLL then do { n \<leftarrow> smul (- 1) v; leo_update LEO_O (se_z_update (\<lambda>_. cv UNIT n)) dev }
      else if code = EVENT_TYPE_TEMPERATURE then leo_update LEO_T (se_x_update (\<lambda>_. cv UNIT v)) dev
      else if code = EVENT_TYPE_ORIENT_STATUS then
        Some (0, dev\<lparr>leo_sensors := (leo_sensors dev)[LEO_O := (leo_sensors dev ! LEO_O)\<lparr>se_status := orient_status v\<rparr>]\<rparr>)
      else Some (0, dev))"

definition data_poll_process_cm_abs ::
  "(conv \<Rightarrow> int \<Rightarrow> 'f) \<Rightarrow> input_event \<Rightarrow> 'f leo_data \<Rightarrow> (u32 \<times> 'f leo_data) option" where
  "data_poll_process_cm_abs cv event dev =
     (if ev_type event = EV_ABS \<and> ev_code event = EVENT_TYPE_PROXIMITY
      then leo_update LEO_P (se_x_update (\<lambda>_. cv PROXIMITY_THRESHOLD_CM (ev_value event))) dev
      else Some (0, dev))"

definition sLuxValues :: "int list" where
  "sLuxValues = [10, 160, 225, 320, 640, 1280, 2600, 10240]"

definition data_poll_process_ls_abs ::
  "'w sensor_kernel \<Rightarrow> (conv \<Rightarrow> int \<Rightarrow> 'f) \<Rightarrow> int \<Rightarrow> input_event \<Rightarrow> 'f leo_data \<times> 'w \<Rightarrow> (u32 \<times> 'f leo_data \<times> 'w) option" where
  "data_poll_process_ls_abs K cv fd event dw =
     (let (dev, w) = dw in
      if ev_type event = EV_ABS \<and> ev_code event = EVENT_TYPE_LIGHT then
        let (r, w1) = sk_ioctl K fd (EVIOCGABS EVENT_TYPE_PROXIMITY) 0 w in
        if io_rc r = 0 \<and> ev_value event \<ge> 0 then
          let index = (if ev_value event \<ge> int (length sLuxValues) then length sLuxValues - 1 else nat (ev_value event)) in
          do { (n, dev1) \<leftarrow> leo_update LEO_L (se_x_update (\<lambda>_. cv UNIT (sLuxValues ! index))) dev; Some (n, dev1, w1) }
        else Some (0, dev, w1)
      else Some (0, dev, w))"

text \<open>The time is stored for every sensor in the mask; a bit beyond the sensors leaves the array.\<close>

fun stamp_loop :: "int \<Rightarrow> u32 \<Rightarrow> nat list \<Rightarrow> 'f sensors_event list \<Rightarrow> 'f sensors_event list option" where
  "stamp_loop t msk [] evs = Some evs"
| "stamp_loop t msk (i # is) evs =
     (if bit msk i then
        if i < length evs then stamp_loop t msk is (evs[i := (evs ! i)\<lparr>se_timestamp := t\<rparr>]) else None
      else stamp_loop t msk is evs)"

definition data_poll_process_syn :: "input_event \<Rightarrow> u32 \<Rightarrow> 'f leo_data \<Rightarrow> 'f leo_data option" where
  "data_poll_process_syn event new_sensors dev =
     (if new_sensors \<noteq> 0 then
        do { t \<leftarrow> timevalToNano event;
             evs \<leftarrow> stamp_loop t new_sensors (rev [0..<32]) (leo_sensors dev);
             Some (dev\<lparr>pendingSensors := pendingSensors dev OR new_sensors, leo_sensors := evs\<rparr>) }
      else Some dev)"

text \<open>One of the three sections of the loop: flags and mask are the variables \<open>got_syn\<close>, \<open>exit\<close> and \<open>new_sensors\<close>.\<close>

record 'f poll_vars =
  pv_syn :: bool
  pv_exit :: bool
  pv_new :: u32
  pv_dev :: "'f leo_data"

definition poll_section ::
  "'w sensor_kernel \<Rightarrow> (input_event \<Rightarrow> 'f leo_data \<times> 'w \<Rightarrow> (u32 \<times> 'f leo_data \<times> 'w) option) \<Rightarrow> int \<Rightarrow> bool
   \<Rightarrow> 'f poll_vars \<times> 'w \<Rightarrow> ('f poll_vars \<times> 'w) option" where
  "poll_section K process fd isset vw =
     (let (v, w) = vw in
      if isset then
        let (res, w1) = sk_read K fd 1 w in
        case res of
          ReadEvents [event] False \<Rightarrow>
            do { (n, dev, w2) \<leftarrow> process event (pv_dev v, w1);
                 let new = pv_new v OR n;
                     syn = (pv_syn v \<or> ev_type event = EV_SYN);
                     v1 = v\<lparr>pv_syn := syn, pv_exit := pv_exit v \<or> (syn \<and> ev_code event = SYN_CONFIG), pv_new := new, pv_dev := dev\<rparr>
                 in if syn then do { dev1 \<leftarrow> data_poll_process_syn event new dev; Some (v1\<lparr>pv_new := 0, pv_dev := dev1\<rparr>, w2) }
                    else Some (v1, w2) }
        | _ \<Rightarrow> Some (v, w1)
      else Some (v, w))"

definition no_world :: "(input_event \<Rightarrow> 'f leo_data \<Rightarrow> (u32 \<times> 'f leo_data) option) \<Rightarrow>
    input_event \<Rightarrow> 'f leo_data \<times> 'w \<Rightarrow> (u32 \<times> 'f leo_data \<times> 'w) option" where
  "no_world p event dw = do { (n, dev) \<leftarrow> p event (fst dw); Some (n, dev, snd dw) }"

text \<open>\<open>sel\<close> is \<open>select\<close>: \<open>None\<close> for an error, otherwise which descriptors are ready. One round of the loop either
  ends the call or goes on with the sensors that have changed since the last \<open>EV_SYN\<close>.\<close>

type_synonym 'f leo_result = "int \<times> 'f sensors_event option"

definition wait_round ::
  "'w sensor_kernel \<Rightarrow> (conv \<Rightarrow> int \<Rightarrow> 'f) \<Rightarrow> (int list \<Rightarrow> 'w \<Rightarrow> (bool \<times> bool \<times> bool) option \<times> 'w) \<Rightarrow> u32 \<times> 'f leo_data \<times> 'w
   \<Rightarrow> ('f leo_result option \<times> u32 \<times> 'f leo_data \<times> 'w) option" where
  "wait_round K cv sel s =
     (let (new_sensors, dev, w) = s; fds = events_fd dev; (res, w1) = sel fds w in
      case res of
        None \<Rightarrow> Some (Some (- 1, None), new_sensors, dev, w1)
      | Some (a, c, l) \<Rightarrow>
          do { (v2, w2) \<leftarrow> poll_section K (no_world (data_poll_process_akm_abs cv)) (fds ! 0) a
                 (\<lparr>pv_syn = False, pv_exit = False, pv_new = new_sensors, pv_dev = dev\<rparr>, w1);
               (v3, w3) \<leftarrow> poll_section K (no_world (data_poll_process_cm_abs cv)) (fds ! 1) c (v2, w2);
               (v4, w4) \<leftarrow> poll_section K (data_poll_process_ls_abs K cv (fds ! 2)) (fds ! 2) l (v3, w3);
               if pv_exit v4 then Some (Some (0x7FFFFFFF, None), pv_new v4, pv_dev v4, w4)
               else if pv_syn v4 \<and> pendingSensors (pv_dev v4) \<noteq> 0 then
                 (let (r, dev1) = pick_sensor (pv_dev v4) in Some (Some r, pv_new v4, dev1, w4))
               else Some (None, pv_new v4, pv_dev v4, w4) })"

partial_function (option) poll_wait ::
  "'w sensor_kernel \<Rightarrow> (conv \<Rightarrow> int \<Rightarrow> 'f) \<Rightarrow> (int list \<Rightarrow> 'w \<Rightarrow> (bool \<times> bool \<times> bool) option \<times> 'w) \<Rightarrow> u32 \<times> 'f leo_data \<times> 'w
   \<Rightarrow> ('f leo_result \<times> 'f leo_data \<times> 'w) option" where
  "poll_wait K cv sel s =
     do { (fin, t) \<leftarrow> wait_round K cv sel s;
          case fin of None \<Rightarrow> poll_wait K cv sel t | Some r \<Rightarrow> Some (r, snd t) }"

definition data_poll ::
  "'w sensor_kernel \<Rightarrow> (conv \<Rightarrow> int \<Rightarrow> 'f) \<Rightarrow> (int list \<Rightarrow> 'w \<Rightarrow> (bool \<times> bool \<times> bool) option \<times> 'w) \<Rightarrow> 'f leo_data \<Rightarrow> 'w
   \<Rightarrow> ('f leo_result \<times> 'f leo_data \<times> 'w) option" where
  "data_poll K cv sel dev w =
     (if \<exists>fd\<in>set (events_fd dev). fd < 0 then Some ((- 1, None), dev, w)
      else if pendingSensors dev \<noteq> 0 then (let (r, dev1) = pick_sensor dev in Some (r, dev1, w))
      else poll_wait K cv sel (0, dev, w))"

text \<open>The status is never set to 0, so opening fails although the device is stored.\<close>

datatype leo_device = LeoControl leo_control | LeoData "int list"

datatype leo_name = SENSORS_HARDWARE_CONTROL | SENSORS_HARDWARE_DATA | other_name string

definition open_sensors :: "leo_name \<Rightarrow> int \<times> leo_device option" where
  "open_sensors name =
     (let status = - EINVAL_code in
      case name of
        SENSORS_HARDWARE_CONTROL \<Rightarrow>
          (status, Some (LeoControl \<lparr>akmd_fd = - 1, cmd_fd = - 1, lsd_fd = - 1, active_sensors = 0, g_delay = - 1\<rparr>))
      | SENSORS_HARDWARE_DATA \<Rightarrow> (status, Some (LeoData [- 1, - 1, - 1]))
      | other_name _ \<Rightarrow> (status, None))"

text \<open>Name, handle and type of the sensors the module lists; the temperature is not among them.\<close>

definition leo_sSensorList :: "(string \<times> nat \<times> int) list" where
  "leo_sSensorList =
     [(''BMA150 3-axis Accelerometer'', LEO_A, SENSOR_TYPE_ACCELEROMETER),
      (''AK8973 3-axis Magnetic field sensor'', LEO_M, SENSOR_TYPE_MAGNETIC_FIELD),
      (''AK8973 Orientation sensor'', LEO_O, SENSOR_TYPE_ORIENTATION),
      (''CM3602 Proximity sensor'', LEO_P, SENSOR_TYPE_PROXIMITY),
      (''CM3602 Light sensor'', LEO_L, SENSOR_TYPE_LIGHT)]"

definition leo_get_sensors_list :: "nat \<times> (string \<times> nat \<times> int) list" where
  "leo_get_sensors_list = (length leo_sSensorList, leo_sSensorList)"

subsection \<open>What the drivers promise\<close>

text \<open>
  The kernel keeps one flag per sensor and, for every open descriptor, the device file behind it. A \<open>SET\<close> call on a descriptor
  of the sensor's own device changes the flag of that sensor and no other, a \<open>GET\<close> call on it reads the flag; nothing is promised of
  a call on any other descriptor. Opening one of the three device files succeeds with a new descriptor of that file, closing
  a descriptor forgets its file, and both leave the flags alone.
\<close>

definition leo_get :: "nat \<Rightarrow> sensor_ioctl" where
  "leo_get i =
     [ECS_IOCTL_APP_GET_AFLAG, ECS_IOCTL_APP_GET_MVFLAG, ECS_IOCTL_APP_GET_MFLAG, ECS_IOCTL_APP_GET_TFLAG,
      CAPELLA_CM3602_IOCTL_GET_ENABLED, LIGHTSENSOR_IOCTL_GET_ENABLED] ! i"

definition leo_set :: "nat \<Rightarrow> sensor_ioctl" where
  "leo_set i =
     [ECS_IOCTL_APP_SET_AFLAG, ECS_IOCTL_APP_SET_MVFLAG, ECS_IOCTL_APP_SET_MFLAG, ECS_IOCTL_APP_SET_TFLAG,
      CAPELLA_CM3602_IOCTL_ENABLE, LIGHTSENSOR_IOCTL_ENABLE] ! i"

definition leo_file :: "nat \<Rightarrow> string" where
  "leo_file i = (if i < 4 then ''/dev/akm8973_aot'' else if i = 4 then ''/dev/cm3602'' else ''/dev/lightsensor'')"

definition leo_driver :: "'w sensor_kernel \<Rightarrow> ('w \<Rightarrow> nat \<Rightarrow> bool) \<Rightarrow> ('w \<Rightarrow> int \<Rightarrow> string option) \<Rightarrow> bool" where
  "leo_driver K flag file \<longleftrightarrow>
     (\<forall>i<6. \<forall>fd w. file w fd = Some (leo_file i) \<longrightarrow>
        io_rc (fst (sk_ioctl K fd (leo_get i) 0 w)) = 0 \<and>
        (io_value (fst (sk_ioctl K fd (leo_get i) 0 w)) \<noteq> 0 \<longleftrightarrow> flag w i) \<and>
        flag (snd (sk_ioctl K fd (leo_get i) 0 w)) = flag w \<and> file (snd (sk_ioctl K fd (leo_get i) 0 w)) = file w) \<and>
     (\<forall>i<6. \<forall>fd v w. file w fd = Some (leo_file i) \<longrightarrow>
        flag (snd (sk_ioctl K fd (leo_set i) v w)) = (flag w)(i := v \<noteq> 0) \<and> file (snd (sk_ioctl K fd (leo_set i) v w)) = file w) \<and>
     (\<forall>i<6. \<forall>w fd w'. sk_open K (leo_file i) w = (fd, w') \<longrightarrow>
        0 \<le> fd \<and> file w fd = None \<and> file w' = (file w)(fd \<mapsto> leo_file i) \<and> flag w' = flag w) \<and>
     (\<forall>fd w. flag (sk_close K fd w) = flag w \<and> file (sk_close K fd w) = (file w)(fd := None))"

text \<open>The descriptors the module holds are open on the devices they stand for.\<close>

definition leo_wired :: "('w \<Rightarrow> int \<Rightarrow> string option) \<Rightarrow> leo_control \<Rightarrow> 'w \<Rightarrow> bool" where
  "leo_wired file dev w \<longleftrightarrow>
     (0 \<le> akmd_fd dev \<longrightarrow> file w (akmd_fd dev) = Some ''/dev/akm8973_aot'') \<and>
     (0 \<le> cmd_fd dev \<longrightarrow> file w (cmd_fd dev) = Some ''/dev/cm3602'') \<and>
     (0 \<le> lsd_fd dev \<longrightarrow> file w (lsd_fd dev) = Some ''/dev/lightsensor'')"

lemma leo_file_ids [simp]:
  "leo_file LEO_A = ''/dev/akm8973_aot''" "leo_file LEO_M = ''/dev/akm8973_aot''" "leo_file LEO_O = ''/dev/akm8973_aot''"
  "leo_file LEO_T = ''/dev/akm8973_aot''" "leo_file LEO_P = ''/dev/cm3602''" "leo_file LEO_L = ''/dev/lightsensor''"
  by (simp_all add: leo_file_def leo_ids)

lemma leo_driver_open:
  assumes "leo_driver K flag file" "sk_open K n w = (fd, w')"
    and "n = ''/dev/akm8973_aot'' \<or> n = ''/dev/cm3602'' \<or> n = ''/dev/lightsensor''"
  shows "0 \<le> fd" "file w fd = None" "file w' = (file w)(fd \<mapsto> n)" "flag w' = flag w"
proof -
  have "leo_file 0 = ''/dev/akm8973_aot''" "leo_file 4 = ''/dev/cm3602''" "leo_file 5 = ''/dev/lightsensor''"
    by (simp_all add: leo_file_def)
  then obtain i where "i < 6" "n = leo_file i"
    using assms(3) that [of 0] that [of 4] that [of 5] by (elim disjE) simp_all
  then show "0 \<le> fd" "file w fd = None" "file w' = (file w)(fd \<mapsto> n)" "flag w' = flag w"
    using assms(1,2) unfolding leo_driver_def by blast+
qed

lemma leo_cmds:
  "ECS_IOCTL_APP_GET_AFLAG = leo_get LEO_A" "ECS_IOCTL_APP_GET_MVFLAG = leo_get LEO_M"
  "ECS_IOCTL_APP_GET_MFLAG = leo_get LEO_O" "ECS_IOCTL_APP_GET_TFLAG = leo_get LEO_T"
  "CAPELLA_CM3602_IOCTL_GET_ENABLED = leo_get LEO_P" "LIGHTSENSOR_IOCTL_GET_ENABLED = leo_get LEO_L"
  "ECS_IOCTL_APP_SET_AFLAG = leo_set LEO_A" "ECS_IOCTL_APP_SET_MVFLAG = leo_set LEO_M"
  "ECS_IOCTL_APP_SET_MFLAG = leo_set LEO_O" "ECS_IOCTL_APP_SET_TFLAG = leo_set LEO_T"
  "CAPELLA_CM3602_IOCTL_ENABLE = leo_set LEO_P" "LIGHTSENSOR_IOCTL_ENABLE = leo_set LEO_L"
  by (simp_all add: leo_get_def leo_set_def leo_ids)

lemma write_flag_flag:
  assumes "leo_driver K flag file" "i < 6" "file w fd = Some (leo_file i)"
  shows "flag (write_flag K fd (leo_set i) i sensors msk w) = (if bit msk i then (flag w)(i := bit sensors i) else flag w)"
    "file (write_flag K fd (leo_set i) i sensors msk w) = file w"
  using assms unfolding write_flag_def bit_iff_and_push_bit_not_eq_0 [symmetric] leo_driver_def by simp_all

lemma read_flag_flag:
  assumes "leo_driver K flag file" "i < 6" "file (snd sw) fd = Some (leo_file i)"
  shows "flag (snd (read_flag K fd (leo_get i) i sw)) = flag (snd sw)" "file (snd (read_flag K fd (leo_get i) i sw)) = file (snd sw)"
    "bit (fst (read_flag K fd (leo_get i) i sw)) j = (if j = i then flag (snd sw) i else bit (fst sw) j)"
proof -
  obtain r w1 where r: "sk_ioctl K fd (leo_get i) 0 (snd sw) = (r, w1)" by fastforce
  have d: "io_rc r = 0" "io_value r \<noteq> 0 \<longleftrightarrow> flag (snd sw) i" "flag w1 = flag (snd sw)" "file w1 = file (snd sw)"
    using assms r unfolding leo_driver_def by (metis fst_conv, metis fst_conv, metis snd_conv, metis snd_conv)
  have i: "i < 32" using assms(2) by simp
  show "flag (snd (read_flag K fd (leo_get i) i sw)) = flag (snd sw)" "file (snd (read_flag K fd (leo_get i) i sw)) = file (snd sw)"
    using d r by (cases sw, simp add: read_flag_def)+
  show "bit (fst (read_flag K fd (leo_get i) i sw)) j = (if j = i then flag (snd sw) i else bit (fst sw) j)"
    using d r i by (cases sw) (auto simp: read_flag_def bit_simps dest: bit_imp_le_length)
qed

lemma open_leo:
  assumes K: "leo_driver K flag file" and wd: "leo_wired file dev w"
  shows "open_akm K dev w = (fd, dev', w') \<Longrightarrow>
      0 \<le> fd \<and> akmd_fd dev' = fd \<and> leo_wired file dev' w' \<and> flag w' = flag w"
    "open_cm K dev w = (fd, dev', w') \<Longrightarrow>
      0 \<le> fd \<and> cmd_fd dev' = fd \<and> leo_wired file dev' w' \<and> flag w' = flag w"
    "open_ls K dev w = (fd, dev', w') \<Longrightarrow>
      0 \<le> fd \<and> lsd_fd dev' = fd \<and> leo_wired file dev' w' \<and> flag w' = flag w"
  using wd leo_driver_open [OF K]
  by (auto simp: open_akm_def open_cm_def open_ls_def leo_wired_def split: if_splits prod.splits)

text \<open>What each group does: the flags in the mask are set, and the result holds the flags of the group.\<close>

definition group_result :: "('w \<Rightarrow> nat \<Rightarrow> bool) \<Rightarrow> ('w \<Rightarrow> int \<Rightarrow> string option) \<Rightarrow> nat set \<Rightarrow> u32 \<Rightarrow> u32 \<Rightarrow> 'w
    \<Rightarrow> u32 \<times> leo_control \<times> 'w \<Rightarrow> bool" where
  "group_result flag file G sensors msk w r \<longleftrightarrow>
     flag (snd (snd r)) = (\<lambda>j. if j \<in> G \<and> bit msk j then bit sensors j else flag w j) \<and>
     (\<forall>j. bit (fst r) j \<longleftrightarrow> j \<in> G \<and> flag (snd (snd r)) j) \<and> leo_wired file (fst (snd r)) (snd (snd r))"

lemma close_akm_wired:
  assumes "leo_driver K flag file" "leo_wired file dev w" "close_akm K dev w = (dev', w')"
  shows "leo_wired file dev' w' \<and> flag w' = flag w"
proof -
  have "flag (sk_close K fd w) = flag w" "file (sk_close K fd w) = (file w)(fd := None)" for fd
    using assms(1) unfolding leo_driver_def by blast+
  then show ?thesis using assms(2,3) by (auto simp: close_akm_def leo_wired_def split: if_splits)
qed

lemma enable_disable_akm_group:
  assumes K: "leo_driver K flag file" and wd: "leo_wired file dev w"
  shows "group_result flag file {0, 1, 2, 3} sensors msk w (enable_disable_akm K sensors msk dev w)"
proof -
  obtain fd dev1 w1 where o: "open_akm K dev w = (fd, dev1, w1)" by (metis prod_cases3)
  have fd: "fd \<ge> 0" "akmd_fd dev1 = fd" "leo_wired file dev1 w1" "flag w1 = flag w" using open_leo(1) [OF K wd o] by simp_all
  then have f1: "file w1 fd = Some ''/dev/akm8973_aot''" by (simp add: leo_wired_def)
  define w5 where "w5 = write_flag K fd (leo_set LEO_M) LEO_M sensors msk (write_flag K fd (leo_set LEO_T) LEO_T sensors msk
    (write_flag K fd (leo_set LEO_A) LEO_A sensors msk (write_flag K fd (leo_set LEO_O) LEO_O sensors msk w1)))"
  define st where "st = read_akm_sensors_state K fd w5"
  have six: "LEO_A < 6" "LEO_M < 6" "LEO_O < 6" "LEO_T < 6" by (simp_all add: leo_ids)
  note wf = write_flag_flag [OF K six(1), of _ fd] write_flag_flag [OF K six(2), of _ fd]
    write_flag_flag [OF K six(3), of _ fd] write_flag_flag [OF K six(4), of _ fd]
  note rf = read_flag_flag [OF K six(1), of _ fd] read_flag_flag [OF K six(2), of _ fd]
    read_flag_flag [OF K six(3), of _ fd] read_flag_flag [OF K six(4), of _ fd]
  have file5: "file w5 = file w1" by (simp add: w5_def wf f1)
  have f5: "flag w5 = (\<lambda>j. if j \<in> {0, 1, 2, 3} \<and> bit msk j then bit sensors j else flag w j)"
    by (rule ext) (simp add: w5_def wf f1 fd(4), auto simp: leo_ids)
  have rd: "flag (snd st) = flag w5" "file (snd st) = file w1" "bit (fst st) j \<longleftrightarrow> j \<in> {0, 1, 2, 3} \<and> flag w5 j" for j
    unfolding st_def read_akm_sensors_state_def leo_cmds by (simp_all add: rf f1 file5) (auto simp: leo_ids)
  obtain a w6 where st: "st = (a, w6)" by fastforce
  obtain dev2 w7 where c: "(if sensors = 0 then close_akm K dev1 w6 else (dev1, w6)) = (dev2, w7)" by fastforce
  have "leo_wired file dev1 w6" using fd(3) rd(2) st by (simp add: leo_wired_def)
  then have "leo_wired file dev2 w7 \<and> flag w7 = flag w6" using c close_akm_wired [OF K] by (auto split: if_splits)
  moreover have "enable_disable_akm K sensors msk dev w = (a, dev2, w7)"
    using o fd(1) c st unfolding st_def w5_def leo_cmds [symmetric]
    by (simp add: enable_disable_akm_def Let_def)
  ultimately show ?thesis using rd f5 st by (simp add: group_result_def)
qed

text \<open>The other two groups have one sensor each.\<close>

lemma single_group:
  assumes K: "leo_driver K flag file" and i: "i < 6" and fd: "file w1 fd = Some (leo_file i)" "leo_wired file dev1 w1" "flag w1 = flag w"
    and r: "r = (let st = read_flag K fd (leo_get i) i (0, write_flag K fd (leo_set i) i sensors msk w1) in (fst st, dev1, snd st))"
  shows "group_result flag file {i} sensors msk w r"
proof -
  note wf = write_flag_flag [OF K i fd(1), of sensors msk]
  note rf = read_flag_flag [OF K i, of "(0, write_flag K fd (leo_set i) i sensors msk w1)" fd, unfolded snd_conv wf(2), OF fd(1)]
  have "leo_wired file dev1 (snd (read_flag K fd (leo_get i) i (0, write_flag K fd (leo_set i) i sensors msk w1)))"
    using fd(2) rf(2) by (simp add: leo_wired_def)
  then show ?thesis using wf rf fd(3) by (auto simp: group_result_def r Let_def fun_eq_iff)
qed

lemma enable_disable_cm_group:
  assumes K: "leo_driver K flag file" and wd: "leo_wired file dev w"
  shows "group_result flag file {4} sensors msk w (enable_disable_cm K sensors msk dev w)"
proof -
  obtain fd dev1 w1 where o: "open_cm K dev w = (fd, dev1, w1)" by (metis prod_cases3)
  have fd: "fd \<ge> 0" "cmd_fd dev1 = fd" "leo_wired file dev1 w1" "flag w1 = flag w" using open_leo(2) [OF K wd o] by simp_all
  then have "file w1 fd = Some (leo_file LEO_P)" by (simp add: leo_wired_def)
  moreover have "enable_disable_cm K sensors msk dev w =
      (let st = read_flag K fd (leo_get LEO_P) LEO_P (0, write_flag K fd (leo_set LEO_P) LEO_P sensors msk w1) in (fst st, dev1, snd st))"
    using o fd(1) unfolding enable_disable_cm_def read_cm_sensors_state_def leo_cmds
    by (simp add: Let_def split: prod.splits)
  ultimately show ?thesis using single_group [OF K, of LEO_P] fd(3,4) by (simp add: leo_ids)
qed

lemma enable_disable_ls_group:
  assumes K: "leo_driver K flag file" and wd: "leo_wired file dev w"
  shows "group_result flag file {5} sensors msk w (enable_disable_ls K sensors msk dev w)"
proof -
  obtain fd dev1 w1 where o: "open_ls K dev w = (fd, dev1, w1)" by (metis prod_cases3)
  have fd: "fd \<ge> 0" "lsd_fd dev1 = fd" "leo_wired file dev1 w1" "flag w1 = flag w" using open_leo(3) [OF K wd o] by simp_all
  then have "file w1 fd = Some (leo_file LEO_L)" by (simp add: leo_wired_def)
  moreover have "enable_disable_ls K sensors msk dev w =
      (let st = read_flag K fd (leo_get LEO_L) LEO_L (0, write_flag K fd (leo_set LEO_L) LEO_L sensors msk w1) in (fst st, dev1, snd st))"
    using o fd(1) unfolding enable_disable_ls_def read_ls_sensors_state_def leo_cmds
    by (simp add: Let_def split: prod.splits)
  ultimately show ?thesis using single_group [OF K, of LEO_L] fd(3,4) by (simp add: leo_ids)
qed

lemma group_bits:
  "bit (m AND SENSORS_AKM_GROUP) j \<longleftrightarrow> bit m j \<and> j \<in> {0, 1, 2, 3}"
  "bit (m AND SENSORS_CM_GROUP) j \<longleftrightarrow> bit m j \<and> j = 4"
  "bit (m AND SENSORS_LIGHT_GROUP) j \<longleftrightarrow> bit m j \<and> j = 5"
  "bit SUPPORTED_SENSORS j \<longleftrightarrow> j < 6"
proof -
  have "(0x0F :: u32) = 2 ^ 0 OR 2 ^ 1 OR 2 ^ 2 OR 2 ^ 3" "(0x10 :: u32) = 2 ^ 4" "(0x20 :: u32) = 2 ^ 5" "(0x3F :: u32) = mask 6"
    by (simp_all add: mask_numeral)
  then show "bit (m AND SENSORS_AKM_GROUP) j \<longleftrightarrow> bit m j \<and> j \<in> {0, 1, 2, 3}"
    "bit (m AND SENSORS_CM_GROUP) j \<longleftrightarrow> bit m j \<and> j = 4"
    "bit (m AND SENSORS_LIGHT_GROUP) j \<longleftrightarrow> bit m j \<and> j = 5"
    "bit SUPPORTED_SENSORS j \<longleftrightarrow> j < 6"
    unfolding SENSORS_AKM_GROUP_def SENSORS_CM_GROUP_def SENSORS_LIGHT_GROUP_def SUPPORTED_SENSORS_def
    by (auto simp only: bit_and_iff bit_or_iff bit_exp_iff bit_mask_iff possible_bit_word) simp_all
qed

lemma activate_groups:
  assumes K: "leo_driver K flag file" and wd: "leo_wired file dev w"
    and a: "enable_disable_akm K (new AND SENSORS_AKM_GROUP) (ch AND SENSORS_AKM_GROUP) dev w = (a, dev1, w1)"
    and c: "enable_disable_cm K (new AND SENSORS_CM_GROUP) (ch AND SENSORS_CM_GROUP) dev1 w1 = (c, dev2, w2)"
    and l: "enable_disable_ls K (new AND SENSORS_LIGHT_GROUP) (ch AND SENSORS_LIGHT_GROUP) dev2 w2 = (l, dev3, w3)"
  shows "flag w3 = (\<lambda>j. if j < 6 \<and> bit ch j then bit new j else flag w j)" "bit (a OR c OR l) j \<longleftrightarrow> j < 6 \<and> flag w3 j"
    "leo_wired file dev3 w3"
proof -
  note ga = enable_disable_akm_group [OF K wd, of "new AND SENSORS_AKM_GROUP" "ch AND SENSORS_AKM_GROUP", unfolded a]
  then have wd1: "leo_wired file dev1 w1" by (simp add: group_result_def)
  note gc = enable_disable_cm_group [OF K wd1, of "new AND SENSORS_CM_GROUP" "ch AND SENSORS_CM_GROUP", unfolded c]
  then have wd2: "leo_wired file dev2 w2" by (simp add: group_result_def)
  note gl = enable_disable_ls_group [OF K wd2, of "new AND SENSORS_LIGHT_GROUP" "ch AND SENSORS_LIGHT_GROUP", unfolded l]
  then show "leo_wired file dev3 w3" by (simp add: group_result_def)
  have f1: "flag w1 j = (if j \<in> {0, 1, 2, 3} \<and> bit ch j then bit new j else flag w j)" "bit a j \<longleftrightarrow> j \<in> {0, 1, 2, 3} \<and> flag w1 j" for j
    using ga by (auto simp: group_result_def group_bits)
  have f2: "flag w2 j = (if j = 4 \<and> bit ch j then bit new j else flag w1 j)" "bit c j \<longleftrightarrow> j = 4 \<and> flag w2 j" for j
    using gc by (auto simp: group_result_def group_bits)
  have f3: "flag w3 j = (if j = 5 \<and> bit ch j then bit new j else flag w2 j)" "bit l j \<longleftrightarrow> j = 5 \<and> flag w3 j" for j
    using gl by (auto simp: group_result_def group_bits)
  have six: "j < 6 \<longleftrightarrow> j \<in> {0, 1, 2, 3} \<or> j = 4 \<or> j = 5" for j :: nat by auto
  show "flag w3 = (\<lambda>j. if j < 6 \<and> bit ch j then bit new j else flag w j)"
    unfolding six using f1(1) f2(1) f3(1) by (auto simp: fun_eq_iff)
  show "bit (a OR c OR l) j \<longleftrightarrow> j < 6 \<and> flag w3 j"
    unfolding six bit_or_iff using f1(2) f2 f3 by auto
qed

subsection \<open>Properties\<close>

text \<open>
  C40: switching a sensor on or off changes exactly that sensor, in the record of the module and in the drivers. Let the three
  device files open and the calls on their descriptors succeed (\<open>leo_driver\<close>), the descriptors the module holds be those of
  the right devices, and the record of active sensors agree with the flags of the drivers or be empty. Then after the
  call the record is the old one with the bit of this sensor replaced. If the sensor was not already as asked for, the record agrees with the
  flags of all six sensors, also when it is empty, so the last sensor is switched off in its driver; if it was, nothing is done at all. The
  descriptors are still those of the right devices.
\<close>

theorem leo_activate_correct:
  assumes K: "leo_driver K flag file" and wd: "leo_wired file dev w" and h: "0 \<le> handle" "handle < 6"
    and inv: "active_sensors dev = 0 \<or> (\<forall>j. bit (active_sensors dev) j \<longleftrightarrow> j < 6 \<and> flag w j)"
    and r: "control_activate K handle enabled dev w = (rc, dev', w')"
  shows "rc = 0 \<and> (\<forall>j. bit (active_sensors dev') j = (if j = nat handle then enabled else bit (active_sensors dev) j)) \<and>
    leo_wired file dev' w' \<and>
    (if bit (active_sensors dev) (nat handle) = enabled then dev' = dev \<and> w' = w
     else \<forall>j. bit (active_sensors dev') j \<longleftrightarrow> j < 6 \<and> flag w' j)"
proof -
  let ?i = "nat handle"
  define act where "act = active_sensors dev"
  define new where "new = (act AND NOT (sensor_bit ?i)) OR ((if enabled then sensor_bit ?i else 0) AND sensor_bit ?i)"
  have i: "?i < 6" "?i < 32" using h by simp_all
  have bn: "bit new j \<longleftrightarrow> (if j = ?i then enabled else bit act j)" for j
    using i by (auto simp: new_def bit_simps dest: bit_imp_le_length)
  show ?thesis
  proof (cases "act XOR new = 0")
    case True
    have "bit act j = bit new j" for j using arg_cong [OF True, of "\<lambda>w. bit w j"] by (simp add: bit_xor_iff)
    then have "bit (active_sensors dev) j = (if j = ?i then enabled else bit (active_sensors dev) j)" for j
      unfolding act_def [symmetric] using bn [of j] by (rule trans)
    moreover have "rc = 0" "dev' = dev" "w' = w"
      using r h True unfolding control_activate_def act_def [symmetric] Let_def new_def [symmetric]
      by (simp_all add: MAX_NUM_SENSORS_def)
    moreover have "bit (active_sensors dev) ?i = enabled" using calculation(1) [of ?i] by simp
    ultimately show ?thesis using wd by (simp add: if_split)
  next
    case False
    have changed: "bit (active_sensors dev) ?i \<noteq> enabled"
    proof
      assume e: "bit (active_sensors dev) ?i = enabled"
      have "bit act j = bit new j" for j using e bn [of j] by (auto simp: act_def)
      then have "act = new" by (rule bit_word_eqI)
      with False show False by simp
    qed
    define ch where "ch = (if act = 0 \<and> new \<noteq> 0 then SUPPORTED_SENSORS else act XOR new)"
    obtain a dev1 w1 where a: "enable_disable_akm K (new AND SENSORS_AKM_GROUP) (ch AND SENSORS_AKM_GROUP) dev w = (a, dev1, w1)"
      by (metis prod_cases3)
    obtain c dev2 w2 where c: "enable_disable_cm K (new AND SENSORS_CM_GROUP) (ch AND SENSORS_CM_GROUP) dev1 w1 = (c, dev2, w2)"
      by (metis prod_cases3)
    obtain l dev3 w3 where l: "enable_disable_ls K (new AND SENSORS_LIGHT_GROUP) (ch AND SENSORS_LIGHT_GROUP) dev2 w2 = (l, dev3, w3)"
      by (metis prod_cases3)
    have res: "rc = 0" "dev' = dev3\<lparr>active_sensors := a OR c OR l\<rparr>" "w' = w3"
      using r h False a c l unfolding control_activate_def act_def [symmetric] Let_def new_def [symmetric] ch_def [symmetric]
      by (simp_all add: MAX_NUM_SENSORS_def eq_commute [of _ dev'])
    note g = activate_groups [OF K wd a c l]
    have "j < 6 \<and> flag w3 j \<longleftrightarrow> bit new j" for j
    proof (cases "act = 0")
      case True
      then have "ch = SUPPORTED_SENSORS" using False by (auto simp: ch_def)
      then show ?thesis unfolding g(1) using bn [of j] True i by (auto simp: group_bits)
    next
      case nz: False
      then have ch: "ch = act XOR new" by (simp add: ch_def)
      have "bit ch j \<longleftrightarrow> j = ?i \<and> bit act j \<noteq> enabled" using bn [of j] by (auto simp: ch bit_xor_iff)
      moreover have "bit act j \<longleftrightarrow> j < 6 \<and> flag w j" using inv nz by (simp add: act_def)
      ultimately show ?thesis unfolding g(1) bn [of j] using i(1) by (cases "j = ?i") auto
    qed
    then show ?thesis using res g(2,3) bn changed by (auto simp: act_def leo_wired_def)
  qed
qed

text \<open>A world of flags and of the files that have been opened; a descriptor is a position in that list.\<close>

definition demo_leo :: "((nat \<Rightarrow> bool) \<times> string option list) sensor_kernel" where
  "demo_leo = \<lparr>sk_open = (\<lambda>n (f, d). (int (length d), f, d @ [Some n])), sk_close = (\<lambda>fd (f, d). (f, if 0 \<le> fd then d[nat fd := None] else d)),
     sk_ioctl = (\<lambda>fd c v (f, d).
       (\<lparr>io_rc = 0, io_value = (case find (\<lambda>i. leo_get i = c) [0, 1, 2, 3, 4, 5] of None \<Rightarrow> 0 | Some i \<Rightarrow> if f i then 1 else 0), io_errno = 0\<rparr>,
        case find (\<lambda>i. leo_set i = c) [0, 1, 2, 3, 4, 5] of None \<Rightarrow> f | Some i \<Rightarrow> f(i := v \<noteq> 0), d)),
     sk_read = (\<lambda>fd n w. (ReadEvents [] False, w)), sk_clock = (\<lambda>w. (0, 0)),
     sk_dir = (\<lambda>w. Some []), sk_name = (\<lambda>fd w. None), sk_write = (\<lambda>fd s w. (0, 0, w)), sk_pipe = (\<lambda>w. (6, 7, w)),
     sk_take = (\<lambda>fd w. w), sk_poll = (\<lambda>fds now w. ((Inr 0, map (\<lambda>_. False) fds), w))\<rparr>"

definition demo_file :: "(nat \<Rightarrow> bool) \<times> string option list \<Rightarrow> int \<Rightarrow> string option" where
  "demo_file w fd = (if 0 \<le> fd \<and> fd < int (length (snd w)) then snd w ! nat fd else None)"

lemma demo_leo_driver: "leo_driver demo_leo fst demo_file"
proof -
  have six: "(\<forall>i<6. P i) \<longleftrightarrow> P 0 \<and> P 1 \<and> P 2 \<and> P 3 \<and> P 4 \<and> P (5 :: nat)" for P
    by (simp add: numeral_eq_Suc All_less_Suc2)
  have open_file: "demo_file (f, d @ [Some n]) = (demo_file (f, d))(int (length d) \<mapsto> n)" for f :: "nat \<Rightarrow> bool" and d n
    by (auto simp: demo_file_def fun_eq_iff nth_append)
  have close_file: "demo_file (f, if 0 \<le> fd then d[nat fd := None] else d) = (demo_file (f, d))(fd := None)" for f :: "nat \<Rightarrow> bool" and d fd
    by (auto simp: demo_file_def fun_eq_iff nth_list_update)
  have same: "demo_file (f, d) = demo_file (g, d)" for f g d by (simp add: demo_file_def fun_eq_iff)
  show ?thesis
    unfolding leo_driver_def six
    by (auto simp: demo_leo_def leo_get_def leo_set_def open_file close_file split: prod.splits) (simp_all add: demo_file_def fun_eq_iff)
qed

definition demo_leo_control :: leo_control where
  "demo_leo_control = \<lparr>akmd_fd = - 1, cmd_fd = - 1, lsd_fd = - 1, active_sensors = 0, g_delay = - 1\<rparr>"

text \<open>The compass chip is on by mistake and nothing is recorded; the proximity sensor is switched on, and off again as the last one.\<close>

theorem leo_activate_correct_witness:
  "\<exists>rc dev' w' rc2 dev2 w2.
     control_activate demo_leo 4 True demo_leo_control (\<lambda>j. j = 1, []) = (rc, dev', w') \<and> fst w' 4 \<and> \<not> fst w' 1 \<and>
     control_activate demo_leo 4 False dev' w' = (rc2, dev2, w2) \<and> \<not> fst w2 4"
proof -
  obtain rc dev' w' where r: "control_activate demo_leo 4 True demo_leo_control (\<lambda>j. j = 1, []) = (rc, dev', w')"
    by (metis prod_cases3)
  obtain rc2 dev2 w2 where r2: "control_activate demo_leo 4 False dev' w' = (rc2, dev2, w2)" by (metis prod_cases3)
  have c: "active_sensors demo_leo_control = 0" "leo_wired demo_file demo_leo_control (\<lambda>j. j = 1, [])"
    by (simp_all add: demo_leo_control_def leo_wired_def)
  have h: "(0 :: int) \<le> 4" "(4 :: int) < 6" by simp_all
  note one = leo_activate_correct [OF demo_leo_driver c(2) h disjI1 [OF c(1)] r]
  have b: "bit (active_sensors dev') j \<longleftrightarrow> j < 6 \<and> fst w' j" "bit (active_sensors dev') j \<longleftrightarrow> j = 4" for j
  proof -
    have "\<forall>j. bit (active_sensors dev') j = (if j = nat 4 then True else bit (active_sensors demo_leo_control) j)"
      using one by (elim conjE)
    then show "bit (active_sensors dev') j \<longleftrightarrow> j = 4" by (simp add: c(1))
    have "\<forall>j. bit (active_sensors dev') j \<longleftrightarrow> j < 6 \<and> fst w' j" using one by (elim conjE) (simp add: c(1))
    then show "bit (active_sensors dev') j \<longleftrightarrow> j < 6 \<and> fst w' j" by blast
  qed
  have d: "leo_wired demo_file dev' w'" "active_sensors dev' = 0 \<or> (\<forall>j. bit (active_sensors dev') j \<longleftrightarrow> j < 6 \<and> fst w' j)"
    using one b(1) by blast+
  note two = leo_activate_correct [OF demo_leo_driver d(1) h d(2) r2]
  have "\<forall>j. bit (active_sensors dev2) j = (if j = nat 4 then False else bit (active_sensors dev') j)" using two by (elim conjE)
  from spec [OF this, of 4] have e1: "\<not> bit (active_sensors dev2) 4" by simp
  have "\<forall>j. bit (active_sensors dev2) j \<longleftrightarrow> j < 6 \<and> fst w2 j" using two b(2) [of 4] by (elim conjE) simp
  from spec [OF this, of 4] have e: "bit (active_sensors dev2) 4 \<longleftrightarrow> fst w2 4" by simp
  have "fst w' 4" "\<not> fst w' 1" "\<not> fst w2 4" using b [of 4] b [of 1] e e1 by auto
  with r r2 show ?thesis by blast
qed

subsection \<open>Picking a sensor\<close>

text \<open>Of the pending sensors the one with the highest number is delivered and no longer pending.\<close>

lemma pick_loop_find:
  "pick_loop is dev =
     (case find (bit (pendingSensors dev)) is of
        None \<Rightarrow> ((- 1, None), dev)
      | Some i \<Rightarrow> ((int i, Some ((leo_sensors dev ! i)\<lparr>se_sensor := id_to_sensor ! i\<rparr>)),
                   dev\<lparr>pendingSensors := pendingSensors dev AND NOT (sensor_bit i)\<rparr>))"
proof (induction "is")
  case (Cons i "is")
  have "pendingSensors dev AND sensor_bit i \<noteq> 0 \<longleftrightarrow> bit (pendingSensors dev) i"
    by (simp only: bit_iff_and_push_bit_not_eq_0)
  then show ?case using Cons by (simp only: pick_loop.simps find.simps split: if_split option.split) auto
qed simp

subsection \<open>The poll loop\<close>

text \<open>
  No round leaves the array of sensors and every result names one of the six: the masks only ever hold bits of sensors.
  The contract of the three functions that read an event is a locale; what a section of the loop does with any of them is
  proved once.
\<close>

definition six_bits :: "u32 \<Rightarrow> bool" where
  "six_bits m \<longleftrightarrow> (\<forall>j. bit m j \<longrightarrow> j < 6)"

definition leo_ok :: "'f leo_data \<Rightarrow> bool" where
  "leo_ok dev \<longleftrightarrow> length (leo_sensors dev) = 6 \<and> six_bits (pendingSensors dev)"

definition plain_event :: "input_event \<Rightarrow> bool" where
  "plain_event e \<longleftrightarrow> normal_time e \<and> int32_ok (ev_value e) \<and> int32_ok (- ev_value e)"

definition plain_kernel :: "'w sensor_kernel \<Rightarrow> bool" where
  "plain_kernel K \<longleftrightarrow> (\<forall>fd n w evs part w'. sk_read K fd n w = (ReadEvents evs part, w') \<longrightarrow> list_all plain_event evs)"

lemma six_bits_or: "six_bits m \<Longrightarrow> six_bits n \<Longrightarrow> six_bits (m OR n)"
  by (auto simp: six_bits_def bit_or_iff)

lemma six_bits_zero: "six_bits 0"
  by (simp add: six_bits_def)

lemma six_bits_one: "i < 6 \<Longrightarrow> six_bits (2 ^ i)"
  by (auto simp: six_bits_def bit_simps)

lemma stamp_loop_total:
  "(\<And>i. i \<in> set is \<Longrightarrow> bit m i \<Longrightarrow> i < length evs) \<Longrightarrow> \<exists>evs'. stamp_loop t m is evs = Some evs' \<and> length evs' = length evs"
proof (induction "is" arbitrary: evs)
  case (Cons i "is")
  show ?case
  proof (cases "bit m i")
    case True
    then show ?thesis using Cons.IH [of "evs[i := (evs ! i)\<lparr>se_timestamp := t\<rparr>]"] Cons.prems by auto
  next
    case False
    then show ?thesis using Cons.IH [of evs] Cons.prems by auto
  qed
qed simp

lemma process_syn_total:
  assumes "leo_ok dev" "six_bits new" "plain_event e"
  shows "\<exists>dev'. data_poll_process_syn e new dev = Some dev' \<and> leo_ok dev'"
proof -
  let ?t = "tv_sec e * 1000000000 + tv_usec e * 1000"
  obtain evs where "stamp_loop ?t new (rev [0..<32]) (leo_sensors dev) = Some evs" "length evs = length (leo_sensors dev)"
    using stamp_loop_total [of "rev [0..<32]" new "leo_sensors dev" ?t] assms(1,2) by (auto simp: leo_ok_def six_bits_def)
  moreover have "timevalToNano e = Some ?t"
    using assms(3) by (simp add: plain_event_def timevalToNano_normal)
  ultimately show ?thesis using assms(1,2) by (auto simp: data_poll_process_syn_def leo_ok_def intro: six_bits_or)
qed

locale leo_processor =
  fixes process :: "input_event \<Rightarrow> 'f leo_data \<times> 'w \<Rightarrow> (u32 \<times> 'f leo_data \<times> 'w) option"
  assumes process_ok: "leo_ok dev \<Longrightarrow> plain_event e \<Longrightarrow> \<exists>n dev' w'. process e (dev, w) = Some (n, dev', w') \<and> six_bits n \<and> leo_ok dev'"
begin

lemma section_ok:
  assumes K: "plain_kernel K" and v: "leo_ok (pv_dev v)" "six_bits (pv_new v)"
  shows "\<exists>v' w'. poll_section K process fd isset (v, w) = Some (v', w') \<and> leo_ok (pv_dev v') \<and> six_bits (pv_new v')"
proof (cases isset)
  case True
  obtain res w1 where r: "sk_read K fd 1 w = (res, w1)" by fastforce
  show ?thesis
  proof (cases "\<exists>e. res = ReadEvents [e] False")
    case one: True
    then obtain e where e: "res = ReadEvents [e] False" by blast
    then have pe: "plain_event e" using K r unfolding plain_kernel_def by fastforce
    obtain n dev' w' where p: "process e (pv_dev v, w1) = Some (n, dev', w')" "six_bits n" "leo_ok dev'"
      using process_ok [OF v(1) pe] by blast
    have new: "six_bits (pv_new v OR n)" using v(2) p(2) by (rule six_bits_or)
    obtain dev1 where "data_poll_process_syn e (pv_new v OR n) dev' = Some dev1" "leo_ok dev1"
      using process_syn_total [OF p(3) new pe] by blast
    then show ?thesis using True r e p new by (simp add: poll_section_def Let_def six_bits_zero)
  next
    case False
    then have "poll_section K process fd isset (v, w) = Some (v, w1)"
      using True r by (auto simp: poll_section_def split: read_result.split list.split bool.split)
    then show ?thesis using v by simp
  qed
next
  case False
  then show ?thesis using v by (simp add: poll_section_def)
qed

end

definition processed :: "(u32 \<times> 'f leo_data) option \<Rightarrow> bool" where
  "processed r \<longleftrightarrow> (\<exists>n dev. r = Some (n, dev) \<and> six_bits n \<and> leo_ok dev)"

lemma processed_same: "leo_ok dev \<Longrightarrow> processed (Some (0, dev))"
  by (simp add: processed_def six_bits_zero)

lemma processed_update: "leo_ok dev \<Longrightarrow> i < 6 \<Longrightarrow> processed (leo_update i f dev)"
  by (simp add: processed_def leo_update_def leo_ok_def six_bits_one)

lemma processed_if: "processed x \<Longrightarrow> processed y \<Longrightarrow> processed (if b then x else y)"
  by simp

lemma ids_below: "LEO_A < 6" "LEO_M < 6" "LEO_O < 6" "LEO_T < 6" "LEO_P < 6" "LEO_L < 6"
  by (simp_all add: leo_ids)

lemmas processed_intros = processed_if processed_same processed_update ids_below

lemma processed_roll:
  assumes "leo_ok dev" "plain_event e"
  shows "processed (do { n \<leftarrow> smul (- 1) (ev_value e); leo_update LEO_O (f n) dev })"
  using assms by (simp add: smul_def plain_event_def processed_update ids_below)

lemma processed_status:
  assumes "leo_ok dev"
  shows "processed (Some (0, dev\<lparr>leo_sensors := (leo_sensors dev)[LEO_O := (leo_sensors dev ! LEO_O)\<lparr>se_status := v\<rparr>]\<rparr>))"
  using assms by (intro processed_same) (simp add: leo_ok_def)

lemma akm_abs_processed: "leo_ok dev \<Longrightarrow> plain_event e \<Longrightarrow> processed (data_poll_process_akm_abs cv e dev)"
  unfolding data_poll_process_akm_abs_def Let_def
  by (intro processed_intros processed_roll processed_status)

lemma cm_abs_processed: "leo_ok dev \<Longrightarrow> plain_event e \<Longrightarrow> processed (data_poll_process_cm_abs cv e dev)"
  unfolding data_poll_process_cm_abs_def by (intro processed_intros)

interpretation akm_abs: leo_processor "no_world (data_poll_process_akm_abs cv)" for cv
  by unfold_locales (drule (1) akm_abs_processed [where cv = cv], auto simp: no_world_def processed_def)

interpretation cm_abs: leo_processor "no_world (data_poll_process_cm_abs cv)" for cv
  by unfold_locales (drule (1) cm_abs_processed [where cv = cv], auto simp: no_world_def processed_def)

interpretation ls_abs: leo_processor "data_poll_process_ls_abs K cv fd" for K cv fd
  by unfold_locales
    (auto simp: data_poll_process_ls_abs_def Let_def leo_update_def leo_ok_def six_bits_zero six_bits_one ids_below split: prod.split)

text \<open>What a caller may get: an error, the request to end, or a pending sensor under its type.\<close>

definition leo_reported :: "'f leo_result \<Rightarrow> bool" where
  "leo_reported r \<longleftrightarrow> r = (- 1, None) \<or> r = (0x7FFFFFFF, None) \<or>
     (\<exists>i e. r = (int i, Some e) \<and> i < MAX_NUM_SENSORS \<and> se_sensor e = id_to_sensor ! i)"

lemma pick_sensor_reported:
  assumes "leo_ok dev" "pick_sensor dev = (r, dev')"
  shows "leo_reported r \<and> leo_ok dev'"
proof (cases "find (bit (pendingSensors dev)) [5, 4, 3, 2, 1, 0]")
  case None
  then show ?thesis using assms by (simp add: pick_sensor_def pick_loop_find leo_reported_def)
next
  case (Some i)
  then have "i < 6" by (simp split: if_splits)
  then show ?thesis using assms Some
    by (auto simp: pick_sensor_def pick_loop_find leo_reported_def MAX_NUM_SENSORS_def leo_ok_def six_bits_def bit_and_iff)
qed

definition wait_ok :: "u32 \<times> 'f leo_data \<times> 'w \<Rightarrow> bool" where
  "wait_ok s \<longleftrightarrow> six_bits (fst s) \<and> leo_ok (fst (snd s))"

lemma wait_round_ok:
  assumes K: "plain_kernel K" and s: "wait_ok s"
  shows "\<exists>fin t. wait_round K cv sel s = Some (fin, t) \<and> wait_ok t \<and> (\<forall>r. fin = Some r \<longrightarrow> leo_reported r)"
proof -
  obtain new dev w where sv: "s = (new, dev, w)" by (metis prod_cases3)
  obtain res w1 where sel: "sel (events_fd dev) w = (res, w1)" by fastforce
  show ?thesis
  proof (cases res)
    case None
    then show ?thesis using sel sv s by (simp add: wait_round_def leo_reported_def wait_ok_def)
  next
    case (Some acl)
    obtain a c l where acl: "acl = (a, c, l)" by (metis prod_cases3)
    let ?fds = "events_fd dev"
    let ?v1 = "\<lparr>pv_syn = False, pv_exit = False, pv_new = new, pv_dev = dev\<rparr>"
    have v1: "leo_ok (pv_dev ?v1)" "six_bits (pv_new ?v1)" using s sv by (simp_all add: wait_ok_def)
    obtain v2 w2 where v2: "poll_section K (no_world (data_poll_process_akm_abs cv)) (?fds ! 0) a (?v1, w1) = Some (v2, w2)"
        "leo_ok (pv_dev v2)" "six_bits (pv_new v2)"
      using akm_abs.section_ok [OF K v1] by blast
    obtain v3 w3 where v3: "poll_section K (no_world (data_poll_process_cm_abs cv)) (?fds ! 1) c (v2, w2) = Some (v3, w3)"
        "leo_ok (pv_dev v3)" "six_bits (pv_new v3)"
      using cm_abs.section_ok [OF K v2(2,3)] by blast
    obtain v4 w4 where v4: "poll_section K (data_poll_process_ls_abs K cv (?fds ! 2)) (?fds ! 2) l (v3, w3) = Some (v4, w4)"
        "leo_ok (pv_dev v4)" "six_bits (pv_new v4)"
      using ls_abs.section_ok [OF K v3(2,3)] by blast
    obtain r dev1 where p: "pick_sensor (pv_dev v4) = (r, dev1)" by fastforce
    show ?thesis
      using sel sv Some acl v2(1) v3(1) v4 p pick_sensor_reported [OF v4(2) p]
      by (auto simp: wait_round_def wait_ok_def leo_reported_def)
  qed
qed

definition wait_step :: "'w sensor_kernel \<Rightarrow> (conv \<Rightarrow> int \<Rightarrow> 'f) \<Rightarrow> (int list \<Rightarrow> 'w \<Rightarrow> (bool \<times> bool \<times> bool) option \<times> 'w)
    \<Rightarrow> u32 \<times> 'f leo_data \<times> 'w \<Rightarrow> u32 \<times> 'f leo_data \<times> 'w \<Rightarrow> bool" where
  "wait_step K cv sel s t \<longleftrightarrow> plain_kernel K \<and> wait_round K cv sel s = Some (None, t)"

interpretation waiting: invariant_system wait_ok "wait_step K cv sel" wait_ok for K cv sel
proof
  fix s t
  assume "wait_ok s" "wait_step K cv sel s t"
  then show "wait_ok t" using wait_round_ok [of K s cv sel] by (auto simp: wait_step_def)
qed

lemma poll_wait_steps: "steps (wait_step K cv sel) s t \<Longrightarrow> poll_wait K cv sel s = poll_wait K cv sel t"
proof (induction rule: steps.induct)
  case (steps_step s t u)
  then have "poll_wait K cv sel t = poll_wait K cv sel u" by (subst poll_wait.simps) (simp add: wait_step_def)
  with steps_step show ?case by simp
qed simp

text \<open>
  Every call ends with a result the caller may get, as soon as some number of rounds reaches one that ends, and no round on the
  way is undefined: after any number of rounds the next one either goes on or ends the call.
\<close>

theorem leo_poll_safe:
  assumes K: "plain_kernel K" and dev: "leo_ok dev"
    and run: "steps (wait_step K cv sel) (0, dev, w) s"
    and open_fds: "list_all (\<lambda>fd. 0 \<le> fd) (events_fd dev)" "pendingSensors dev = 0"
  shows "wait_ok s \<and> ((\<exists>t. wait_step K cv sel s t) \<or> (\<exists>r t. data_poll K cv sel dev w = Some (r, snd t) \<and> leo_reported r \<and> wait_ok t))"
proof -
  have "wait_ok (0, dev, w)" using dev by (simp add: wait_ok_def six_bits_zero)
  then have s: "wait_ok s" using run by (rule waiting.reachable_inv)
  obtain fin t where t: "wait_round K cv sel s = Some (fin, t)" "wait_ok t" "\<forall>r. fin = Some r \<longrightarrow> leo_reported r"
    using wait_round_ok [OF K s] by blast
  have d: "data_poll K cv sel dev w = poll_wait K cv sel s"
    using open_fds poll_wait_steps [OF run] by (auto simp: data_poll_def list_all_iff not_less)
  show ?thesis
  proof (cases fin)
    case None
    then have "wait_step K cv sel s t" using t(1) K by (simp add: wait_step_def)
    then show ?thesis using s by blast
  next
    case (Some r)
    then have "poll_wait K cv sel s = Some (r, snd t)" using t(1) by (simp add: poll_wait.simps)
    then show ?thesis using d t Some s by metis
  qed
qed

subsection \<open>Azimuth and opening\<close>

text \<open>The correction of the compass angle is a rotation by a quarter on the angles from 1 to 360.\<close>

lemma fix_azimuth_rotates:
  assumes "unat v \<le> 360"
  shows "unat (fix_azimuth v) = (unat v + 89) mod 360 + 1"
proof -
  have w: "271 \<le> v \<longleftrightarrow> 271 \<le> unat v" "v \<le> 360 \<longleftrightarrow> unat v \<le> 360" "v \<le> 270 \<longleftrightarrow> unat v \<le> 270"
    by (simp_all add: word_le_nat_alt)
  show ?thesis
  proof (cases "271 \<le> unat v")
    case True
    then have "(unat v + 89) mod 360 = unat v + 89 - 360" using assms by (simp add: mod_if)
    then show ?thesis using True assms w by (simp add: fix_azimuth_def unat_sub)
  next
    case False
    then show ?thesis using w by (simp add: fix_azimuth_def unat_word_ariths unat_add_lem [THEN iffD1])
  qed
qed

text \<open>Opening always reports an error.\<close>

lemma open_sensors_fails: "fst (open_sensors name) = - EINVAL_code"
  by (simp add: open_sensors_def Let_def split: leo_name.split)

text \<open>Every listed sensor delivers its events under the type it is listed with.\<close>

lemma listed_types: "list_all (\<lambda>(_, i, t). i < MAX_NUM_SENSORS \<and> id_to_sensor ! i = t) (snd leo_get_sensors_list)"
  by (simp add: leo_get_sensors_list_def leo_sSensorList_def id_to_sensor_def MAX_NUM_SENSORS_def leo_ids)

end
