(* ===== verification/Power_Hal.thy ===== *)
theory Power_Hal
  imports Gps_Conf
begin

text \<open>
  The power module, \<open>power/metadata-parser.c\<close> and \<open>power/power.c\<close>: the parser of the metadata string of
  a video-encode hint, the reader of the CPU governor and the votes cast in the vendor's library.

  A C string is the list of its characters before the terminator. \<open>strtok_r\<close> is the pair of the token and the rest
  that \<open>saveptr\<close> points to; that it overwrites the delimiters in the caller's string is left out, nothing reads them
  again. The loop of \<open>parse_video_metadata\<close> is a \<open>partial_function\<close>, and its property says that it returns.
\<close>

subsection \<open>The metadata parser\<close>

definition METADATA_PARSING_ERR :: int where "METADATA_PARSING_ERR = - 1"
definition METADATA_PARSING_CONTINUE :: int where "METADATA_PARSING_CONTINUE = 0"
definition METADATA_PARSING_DONE :: int where "METADATA_PARSING_DONE = 1"

definition strtok_r :: "char \<Rightarrow> string \<Rightarrow> (string \<times> string) option" where
  "strtok_r d s =
     (let t = dropWhile (\<lambda>c. c = d) s in
      if t = [] then None else Some (takeWhile (\<lambda>c. c \<noteq> d) t, drop 1 (dropWhile (\<lambda>c. c \<noteq> d) t)))"

text \<open>Status, the rest of the string, and the two buffers.\<close>

definition parse_metadata ::
  "string \<Rightarrow> string \<times> nat \<Rightarrow> string \<times> nat \<Rightarrow> int \<times> string \<times> string \<times> string" where
  "parse_metadata metadata attribute val =
     (case strtok_r (CHR '';'') metadata of
        None \<Rightarrow> (METADATA_PARSING_DONE, metadata, fst attribute, fst val)
      | Some (attribute_string, rest) \<Rightarrow>
          if CHR ''='' \<in> set attribute_string then
            let delim = length (takeWhile (\<lambda>c. c \<noteq> CHR ''='') attribute_string);
                a = take (min delim (snd attribute - 1)) attribute_string;
                v = take (min (length attribute_string - length a - 1) (snd val - 1)) (drop (delim + 1) attribute_string)
            in (METADATA_PARSING_CONTINUE, rest, a, v)
          else (METADATA_PARSING_CONTINUE, rest, [], []))"

partial_function (option) video_loop :: "string \<Rightarrow> string \<Rightarrow> string \<Rightarrow> int \<Rightarrow> (int \<times> int) option" where
  "video_loop temp_metadata attribute val state =
     (let (status, rest, a, v) = parse_metadata temp_metadata (attribute, 1024) (val, 1024) in
      if status = METADATA_PARSING_CONTINUE then
        do { state1 \<leftarrow> (if a = ''state'' \<and> length v > 0 then atoi (v @ [NUL]) else Some state);
             video_loop rest a v state1 }
      else Some (if status = METADATA_PARSING_ERR then - 1 else 0, state))"

text \<open>The result and the field \<open>state\<close> of the metadata structure.\<close>

definition parse_video_metadata :: "string \<Rightarrow> int \<Rightarrow> (int \<times> int) option" where
  "parse_video_metadata metadata state = video_loop metadata [] [] state"

subsection \<open>The governor\<close>

text \<open>
  What the module meets outside: files (\<open>None\<close>: cannot be opened, \<open>Some None\<close>: cannot be read), the property with the
  path of the vendor's library, and the dynamic linker.
\<close>

record power_env =
  pe_file :: "string \<Rightarrow> string option option"
  pe_write :: "string \<Rightarrow> string \<Rightarrow> int option"
  pe_library :: string
  pe_dlopen :: "string \<Rightarrow> nat option"
  pe_dlsym :: "nat \<Rightarrow> string \<Rightarrow> bool"

definition sysfs_read :: "power_env \<Rightarrow> string \<Rightarrow> string \<Rightarrow> nat \<Rightarrow> int \<times> string" where
  "sysfs_read E path s num_bytes =
     (case pe_file E path of
        None \<Rightarrow> (- 1, s)
      | Some None \<Rightarrow> (- 1, s)
      | Some (Some content) \<Rightarrow> (0, takeWhile (\<lambda>c. c \<noteq> NUL) (take (num_bytes - 1) content)))"

definition sysfs_write :: "power_env \<Rightarrow> string \<Rightarrow> string \<Rightarrow> int" where
  "sysfs_write E path s = (case pe_write E path s of None \<Rightarrow> - 1 | Some len \<Rightarrow> if len < 0 then - 1 else 0)"

definition line_end :: "char \<Rightarrow> bool" where
  "line_end c \<longleftrightarrow> c = CHR 0x0A \<or> c = CHR 0x0D"

text \<open>The loop that strips line ends from the back.\<close>

function strip_line_end :: "string \<Rightarrow> string" where
  "strip_line_end governor =
     (if governor \<noteq> [] \<and> line_end (last governor) then strip_line_end (butlast governor) else governor)"
  by auto
termination
  by (relation "measure length") auto

declare strip_line_end.simps [simp del]

definition SCALING_GOVERNOR_PATH :: string where
  "SCALING_GOVERNOR_PATH = ''/sys/devices/system/cpu/cpu0/cpufreq/scaling_governor''"

definition get_scaling_governor :: "power_env \<Rightarrow> string \<Rightarrow> nat \<Rightarrow> int \<times> string" where
  "get_scaling_governor E governor n =
     (let (rc, g) = sysfs_read E SCALING_GOVERNOR_PATH governor n in
      if rc = - 1 then (- 1, g) else (0, strip_line_end g))"

subsection \<open>Votes\<close>

datatype vote = IoBusy int | SamplingDown int

record power_state =
  perf_vote_ondemand_io_busy_unavailable :: bool
  perf_vote_ondemand_sdf_unavailable :: bool
  qcopt_handle :: "nat option"
  qcopt_handle_unavailable :: bool
  votes :: "vote list"

definition get_qcopt_handle :: "power_env \<Rightarrow> power_state \<Rightarrow> nat option \<times> power_state" where
  "get_qcopt_handle E s =
     (if qcopt_handle_unavailable s then (None, s)
      else if qcopt_handle s = None then
        if pe_library E \<noteq> [] then
          case pe_dlopen E (pe_library E) of
            None \<Rightarrow> (None, s\<lparr>qcopt_handle_unavailable := True\<rparr>)
          | Some h \<Rightarrow> (Some h, s\<lparr>qcopt_handle := Some h\<rparr>)
        else (None, s\<lparr>qcopt_handle_unavailable := True\<rparr>)
      else (qcopt_handle s, s))"

definition vote_io_busy :: "power_env \<Rightarrow> nat \<Rightarrow> int \<Rightarrow> power_state \<Rightarrow> power_state" where
  "vote_io_busy E h v s =
     (if perf_vote_ondemand_io_busy_unavailable s then s
      else if pe_dlsym E h ''perf_vote_turnoff_ondemand_io_busy'' then s\<lparr>votes := votes s @ [IoBusy v]\<rparr>
      else s\<lparr>perf_vote_ondemand_io_busy_unavailable := True\<rparr>)"

definition vote_sdf :: "power_env \<Rightarrow> nat \<Rightarrow> int \<Rightarrow> power_state \<Rightarrow> power_state" where
  "vote_sdf E h v s =
     (if perf_vote_ondemand_sdf_unavailable s then s
      else if pe_dlsym E h ''perf_vote_lower_ondemand_sdf'' then s\<lparr>votes := votes s @ [SamplingDown v]\<rparr>
      else s\<lparr>perf_vote_ondemand_sdf_unavailable := True\<rparr>)"

definition process_video_encode_hint :: "power_env \<Rightarrow> string option \<Rightarrow> string \<Rightarrow> power_state \<Rightarrow> power_state option" where
  "process_video_encode_hint E metadata junk s =
     (let (rc, governor) = get_scaling_governor E junk 80 in
      if rc = - 1 then Some s
      else
        case metadata of
          None \<Rightarrow> Some s
        | Some md \<Rightarrow>
            do { (err, state) \<leftarrow> parse_video_metadata md (- 1);
                 if err = - 1 then Some s
                 else
                   let (handle, s1) = get_qcopt_handle E s in
                   case handle of
                     None \<Rightarrow> Some s1
                   | Some h \<Rightarrow>
                       Some (if state = 1 then
                               if governor = ''ondemand'' then vote_sdf E h 1 (vote_io_busy E h 1 s1) else s1
                             else if state = 0 then
                               if governor = ''ondemand'' then vote_sdf E h 0 (vote_io_busy E h 0 s1) else s1
                             else s1) })"

text \<open>The hints the switch names, and every other value of the framework's type.\<close>

datatype power_hint_t = POWER_HINT_VSYNC | POWER_HINT_INTERACTION | POWER_HINT_VIDEO_ENCODE | other_hint int

text \<open>The weak definition; a board may link another one.\<close>

definition power_hint_override :: "power_hint_t \<Rightarrow> string option \<Rightarrow> int" where
  "power_hint_override hint data = - 1"

definition power_hint :: "power_env \<Rightarrow> power_hint_t \<Rightarrow> string option \<Rightarrow> string \<Rightarrow> power_state \<Rightarrow> power_state option" where
  "power_hint E hint data junk s =
     (if power_hint_override hint data = 0 then Some s
      else case hint of
             POWER_HINT_VSYNC \<Rightarrow> Some s
           | POWER_HINT_INTERACTION \<Rightarrow> Some s
           | POWER_HINT_VIDEO_ENCODE \<Rightarrow> process_video_encode_hint E data junk s
           | other_hint _ \<Rightarrow> Some s)"

definition set_interactive :: "int \<Rightarrow> power_state \<Rightarrow> power_state" where
  "set_interactive on s = s"

subsection \<open>What the parser computes\<close>

fun split_on :: "char \<Rightarrow> string \<Rightarrow> string list" where
  "split_on d [] = [[]]"
| "split_on d (c # cs) =
     (if c = d then [] # split_on d cs else (c # hd (split_on d cs)) # tl (split_on d cs))"

definition md_fields :: "string \<Rightarrow> string list" where
  "md_fields md = filter (\<lambda>s. s \<noteq> []) (split_on (CHR '';'') md)"

definition field_key :: "string \<Rightarrow> string" where
  "field_key f = takeWhile (\<lambda>c. c \<noteq> CHR ''='') f"

definition field_text :: "string \<Rightarrow> string" where
  "field_text f = drop 1 (dropWhile (\<lambda>c. c \<noteq> CHR ''='') f)"

text \<open>The last field \<open>state=\<close> with a text decides; of the text 1023 characters count.\<close>

definition field_state :: "string \<Rightarrow> int \<Rightarrow> int" where
  "field_state f st = (if field_key f = ''state'' \<and> field_text f \<noteq> [] then text_int (take 1023 (field_text f)) else st)"

lemma split_on_not_Nil [simp]: "split_on d s \<noteq> []"
  by (cases s) simp_all

lemma split_on_token:
  assumes "takeWhile (\<lambda>c. c \<noteq> d) s = t" "dropWhile (\<lambda>c. c \<noteq> d) s = r"
  shows "split_on d s = t # (case r of [] \<Rightarrow> [] | _ # r' \<Rightarrow> split_on d r')"
  using assms by (induction s arbitrary: t) (auto split: if_splits)

lemma md_fields_strtok:
  "md_fields md = (case strtok_r (CHR '';'') md of None \<Rightarrow> [] | Some (t, rest) \<Rightarrow> t # md_fields rest)"
proof (induction md)
  case Nil
  show ?case by (simp add: md_fields_def strtok_r_def)
next
  case (Cons c cs)
  show ?case
  proof (cases "c = CHR '';''")
    case True
    with Cons show ?thesis by (simp add: md_fields_def strtok_r_def Let_def)
  next
    case False
    have "split_on (CHR '';'') (c # cs) = takeWhile (\<lambda>c. c \<noteq> CHR '';'') (c # cs) #
        (case dropWhile (\<lambda>c. c \<noteq> CHR '';'') (c # cs) of [] \<Rightarrow> [] | _ # r \<Rightarrow> split_on (CHR '';'') r)"
      by (rule split_on_token) simp_all
    then have "md_fields (c # cs) = takeWhile (\<lambda>c. c \<noteq> CHR '';'') (c # cs) #
        filter (\<lambda>s. s \<noteq> []) (case dropWhile (\<lambda>c. c \<noteq> CHR '';'') (c # cs) of [] \<Rightarrow> [] | _ # r \<Rightarrow> split_on (CHR '';'') r)"
      using False by (simp add: md_fields_def)
    also have "filter (\<lambda>s. s \<noteq> []) (case dropWhile (\<lambda>c. c \<noteq> CHR '';'') (c # cs) of [] \<Rightarrow> [] | _ # r \<Rightarrow> split_on (CHR '';'') r) =
        md_fields (drop 1 (dropWhile (\<lambda>c. c \<noteq> CHR '';'') (c # cs)))"
      by (cases "dropWhile (\<lambda>c. c \<noteq> CHR '';'') (c # cs)") (simp_all add: md_fields_def)
    finally show ?thesis using False by (simp add: strtok_r_def)
  qed
qed

lemma strtok_shorter: "strtok_r d s = Some (t, rest) \<Longrightarrow> length rest < length s"
proof -
  assume "strtok_r d s = Some (t, rest)"
  then have ne: "dropWhile (\<lambda>c. c = d) s \<noteq> []"
    and r: "rest = drop 1 (dropWhile (\<lambda>c. c \<noteq> d) (dropWhile (\<lambda>c. c = d) s))"
    by (simp_all add: strtok_r_def Let_def split: if_splits)
  obtain c cs where c: "dropWhile (\<lambda>c. c = d) s = c # cs" using ne by (cases "dropWhile (\<lambda>c. c = d) s") simp_all
  with hd_dropWhile [OF ne] have "c \<noteq> d" by simp
  note c = c this and rest = r [unfolded c]
  have "length (dropWhile (\<lambda>c. c \<noteq> d) cs) \<le> length cs" by (rule length_dropWhile_le)
  then have "length rest \<le> length cs" using rest c(2) by simp
  also have "length cs < length s" using length_dropWhile_le [of "\<lambda>c. c = d" s] c(1) by simp
  finally show ?thesis .
qed

lemma field_text_equals: "CHR ''='' \<notin> set t \<Longrightarrow> field_text t = []"
proof -
  assume "CHR ''='' \<notin> set t"
  then have "dropWhile (\<lambda>c. c \<noteq> CHR ''='') t = []" unfolding dropWhile_eq_Nil_conv by blast
  then show ?thesis unfolding field_text_def by (metis drop_Nil)
qed

lemma take_eq_conv: "length k < n \<Longrightarrow> take n xs = k \<longleftrightarrow> xs = k"
  by (metis length_take min.strict_order_iff min.commute not_less take_all nat_less_le)

lemma parse_metadata_field:
  assumes "strtok_r (CHR '';'') md = Some (t, rest)"
  shows "\<exists>a v. parse_metadata md (a0, 1024) (v0, 1024) = (METADATA_PARSING_CONTINUE, rest, a, v) \<and>
     (a = ''state'' \<longleftrightarrow> field_key t = ''state'' \<and> CHR ''='' \<in> set t) \<and>
     (a = ''state'' \<longrightarrow> v = take 1023 (field_text t)) \<and> length a \<le> 1023 \<and> length v \<le> 1023"
proof (cases "CHR ''='' \<in> set t")
  case False
  with assms show ?thesis by (simp add: parse_metadata_def)
next
  case True
  let ?d = "length (field_key t)"
  have t: "t = field_key t @ CHR ''='' # field_text t"
  proof -
    have ne: "dropWhile (\<lambda>c. c \<noteq> CHR ''='') t \<noteq> []" using True unfolding dropWhile_eq_Nil_conv by blast
    then obtain x xs where x: "dropWhile (\<lambda>c. c \<noteq> CHR ''='') t = x # xs"
      by (cases "dropWhile (\<lambda>c. c \<noteq> CHR ''='') t") simp_all
    with hd_dropWhile [OF ne] have "dropWhile (\<lambda>c. c \<noteq> CHR ''='') t = CHR ''='' # field_text t"
      by (simp add: field_text_def)
    then show ?thesis unfolding field_key_def by (metis takeWhile_dropWhile_id)
  qed
  let ?a = "take (min ?d 1023) t"
  let ?v = "take (min (length t - length ?a - 1) 1023) (drop (?d + 1) t)"
  have p: "parse_metadata md (a0, 1024) (v0, 1024) = (METADATA_PARSING_CONTINUE, rest, ?a, ?v)"
    using assms True by (simp add: parse_metadata_def field_key_def Let_def)
  have a: "?a = take 1023 (field_key t)" by (subst t) (simp add: min_def)
  have st: "?a = ''state'' \<longleftrightarrow> field_key t = ''state''"
    unfolding a by (auto simp: take_eq_conv)
  have dr: "drop (?d + 1) t = field_text t" by (subst t) simp
  have "?v = take 1023 (field_text t)" if "?a = ''state''"
  proof -
    have "?d = 5" using that st by simp
    then have "length t - length ?a - 1 = length (field_text t)" by (subst (1) t) (use that in simp)
    then show ?thesis unfolding dr by (simp add: min_def)
  qed
  moreover have "length ?a \<le> 1023" "length ?v \<le> 1023" by simp_all
  ultimately show ?thesis using p st True by blast
qed

lemma parse_metadata_buffers:
  "case parse_metadata metadata ([], 1024) ([], 1024) of (_, _, a, v) \<Rightarrow> length a \<le> 1023 \<and> length v \<le> 1023"
  by (auto simp: parse_metadata_def Let_def split: option.splits)

lemma parse_metadata_total:
  "parse_video_metadata metadata st = Some (0, fold field_state (md_fields metadata) st)"
proof -
  have "video_loop metadata a v st = Some (0, fold field_state (md_fields metadata) st)" for a v
  proof (induction "length metadata" arbitrary: metadata a v st rule: less_induct)
    case less
    show ?case
    proof (cases "strtok_r (CHR '';'') metadata")
      case None
      then show ?thesis
        by (simp add: video_loop.simps parse_metadata_def md_fields_strtok [of metadata] METADATA_PARSING_CONTINUE_def
            METADATA_PARSING_DONE_def METADATA_PARSING_ERR_def)
    next
      case (Some tr)
      then obtain t rest where t: "strtok_r (CHR '';'') metadata = Some (t, rest)" by (cases tr) auto
      obtain a1 v1 where p: "parse_metadata metadata (a, 1024) (v, 1024) = (METADATA_PARSING_CONTINUE, rest, a1, v1)"
          "a1 = ''state'' \<longleftrightarrow> field_key t = ''state'' \<and> CHR ''='' \<in> set t" "a1 = ''state'' \<longrightarrow> v1 = take 1023 (field_text t)"
        using parse_metadata_field [OF t] by blast
      have "(if a1 = ''state'' \<and> length v1 > 0 then atoi (v1 @ [NUL]) else Some st) = Some (field_state t st)"
        using p(2,3) field_text_equals [of t] atoi_text [of v1 "[]"] by (auto simp: field_state_def)
      with less [OF strtok_shorter [OF t], of a1 v1 "field_state t st"] p(1) t show ?thesis
        by (subst video_loop.simps) (simp add: md_fields_strtok [of metadata])
    qed
  qed
  then show ?thesis by (simp add: parse_video_metadata_def)
qed

text \<open>
  C30: the metadata parser returns for every string, without an error, and what it leaves in \<open>state\<close> is the number of the
  last of the fields, separated by semicolons, whose name is \<open>state\<close> and whose text is not empty; without such a field \<open>state\<close>
  is unchanged. Splitting off a field fills neither of the two buffers beyond the 1023 characters they have room for.
\<close>

theorem parse_video_metadata_correct:
  "parse_video_metadata metadata st = Some (0, fold field_state (md_fields metadata) st) \<and>
   (case parse_metadata metadata ([], 1024) ([], 1024) of (_, _, a, v) \<Rightarrow> length a \<le> 1023 \<and> length v \<le> 1023)"
  by (intro conjI parse_metadata_total parse_metadata_buffers)

subsection \<open>What a hint does\<close>

lemma strip_line_end_rev: "strip_line_end g = rev (dropWhile line_end (rev g))"
proof (induction g rule: rev_induct)
  case Nil
  show ?case by (simp add: strip_line_end.simps)
next
  case (snoc c g)
  show ?case by (subst strip_line_end.simps) (simp add: snoc)
qed

definition governor_of :: "string \<Rightarrow> string" where
  "governor_of content = rev (dropWhile line_end (rev (takeWhile (\<lambda>c. c \<noteq> NUL) (take 79 content))))"

lemma get_scaling_governor_file:
  assumes "pe_file E SCALING_GOVERNOR_PATH = Some (Some content)"
  shows "get_scaling_governor E junk 80 = (0, governor_of content)"
  using assms by (simp add: get_scaling_governor_def sysfs_read_def strip_line_end_rev governor_of_def)

lemma get_qcopt_handle_keeps:
  assumes "get_qcopt_handle E s = (h, s')"
  shows "votes s' = votes s" "perf_vote_ondemand_io_busy_unavailable s' = perf_vote_ondemand_io_busy_unavailable s"
    "perf_vote_ondemand_sdf_unavailable s' = perf_vote_ondemand_sdf_unavailable s"
  using assms by (auto simp: get_qcopt_handle_def split: if_splits option.splits)

text \<open>Without the governor file or without metadata a hint changes nothing.\<close>

lemma hint_ignored:
  "pe_file E SCALING_GOVERNOR_PATH = None \<or> pe_file E SCALING_GOVERNOR_PATH = Some None \<or> metadata = None \<Longrightarrow>
   process_video_encode_hint E metadata junk s = Some s"
  by (auto simp: process_video_encode_hint_def get_scaling_governor_def sysfs_read_def split: option.splits)

text \<open>
  C31: a video-encode hint casts its votes exactly when it should. With a readable governor file and the vendor's library, the hint
  returns; the value of \<open>state\<close> in the metadata is voted on \<open>io_is_busy\<close> and then on the sampling factor, iff the governor, without line ends, is
  \<open>ondemand\<close>, the value is 0 or 1, and the function is in the library and has not been missing before; a missing function is remembered.
\<close>

theorem video_hint_votes:
  fixes md content
  assumes gov: "pe_file E SCALING_GOVERNOR_PATH = Some (Some content)" and lib: "get_qcopt_handle E s = (Some h, s1)"
  defines "state \<equiv> fold field_state (md_fields md) (- 1)"
  defines "on \<equiv> governor_of content = ''ondemand'' \<and> (state = 0 \<or> state = 1)"
    and "io \<equiv> pe_dlsym E h ''perf_vote_turnoff_ondemand_io_busy''"
    and "sdf \<equiv> pe_dlsym E h ''perf_vote_lower_ondemand_sdf''"
  shows "\<exists>s'. power_hint E POWER_HINT_VIDEO_ENCODE (Some md) junk s = Some s' \<and>
     votes s' = votes s @ (if on \<and> io \<and> \<not> perf_vote_ondemand_io_busy_unavailable s then [IoBusy state] else []) @
       (if on \<and> sdf \<and> \<not> perf_vote_ondemand_sdf_unavailable s then [SamplingDown state] else []) \<and>
     (perf_vote_ondemand_io_busy_unavailable s' \<longleftrightarrow> perf_vote_ondemand_io_busy_unavailable s \<or> on \<and> \<not> io) \<and>
     (perf_vote_ondemand_sdf_unavailable s' \<longleftrightarrow> perf_vote_ondemand_sdf_unavailable s \<or> on \<and> \<not> sdf)"
proof -
  define s' where "s' = (if on then vote_sdf E h state (vote_io_busy E h state s1) else s1)"
  have "power_hint E POWER_HINT_VIDEO_ENCODE (Some md) junk s = Some s'"
    using get_scaling_governor_file [OF gov] lib parse_metadata_total [of md "- 1"]
    by (auto simp: power_hint_def power_hint_override_def process_video_encode_hint_def s'_def on_def state_def)
  moreover note get_qcopt_handle_keeps [OF lib]
  ultimately show ?thesis
    by (simp add: s'_def vote_sdf_def vote_io_busy_def io_def sdf_def)
qed

definition demo_power :: power_env where
  "demo_power = \<lparr>pe_file = (\<lambda>p. Some (Some (''ondemand'' @ [CHR 0x0A]))), pe_write = (\<lambda>p s. None), pe_library = ''lib'',
     pe_dlopen = (\<lambda>p. Some 1), pe_dlsym = (\<lambda>h n. True)\<rparr>"

definition demo_power_state :: power_state where
  "demo_power_state = \<lparr>perf_vote_ondemand_io_busy_unavailable = False, perf_vote_ondemand_sdf_unavailable = True,
     qcopt_handle = None, qcopt_handle_unavailable = False, votes = []\<rparr>"

theorem video_hint_votes_witness:
  "map_option votes (power_hint demo_power POWER_HINT_VIDEO_ENCODE (Some ''a=b;;state=1'') [] demo_power_state) = Some [IoBusy 1]"
proof -
  have gov: "pe_file demo_power SCALING_GOVERNOR_PATH = Some (Some (''ondemand'' @ [CHR 0x0A]))" by (simp add: demo_power_def)
  have lib: "get_qcopt_handle demo_power demo_power_state = (Some 1, demo_power_state\<lparr>qcopt_handle := Some 1\<rparr>)"
    by (simp add: get_qcopt_handle_def demo_power_def demo_power_state_def)
  have g: "governor_of (''ondemand'' @ [CHR 0x0A]) = ''ondemand''" by (simp add: governor_of_def line_end_def)
  have st: "fold field_state (md_fields ''a=b;;state=1'') (- 1) = 1"
    by (simp add: md_fields_def field_state_def field_key_def field_text_def text_int_def atoi_def isspace_def isdigit_def saturate_def)
  show ?thesis
    using video_hint_votes [OF gov lib, of "''a=b;;state=1''" "[]"] unfolding g st
    by (auto simp: demo_power_def demo_power_state_def)
qed

end
