(* ===== verification/Lights.thy ===== *)
theory Lights
  imports Gps_Conf Input_Reader
begin

unbundle bit_operations_syntax

text \<open>
  The lights module, \<open>liblights/lights.c\<close>: the battery and notification LED, the backlight and the buttons, and the
  thread that polls the battery status.

  The files of the kernel are a parameter (\<open>lights_env\<close>): which can be opened and written, and what the status file
  holds at the moment of the call. A successful write is recorded in \<open>writes\<close>. The flash mode and the name of a light
  are constants of the framework's header, so they are datatypes and their numbers do not occur. The calls of the
  framework hold \<open>g_lock\<close>; the polling thread takes no lock, so its accesses to the shared flags are single steps of
  \<open>light_step\<close>, except that one call of \<open>check_battery_level\<close> and one call of the framework are one step each. Log
  output is left out.
\<close>

subsection \<open>State\<close>

datatype flash_mode = LIGHT_FLASH_NONE | LIGHT_FLASH_TIMED | other_flash int

record light_state_t =
  color :: u32
  flashMode :: flash_mode

datatype led_color = LED_AMBER | LED_GREEN | LED_BLUE | LED_BLANK

definition BATT_NONE :: int where "BATT_NONE = 1"
definition BATT_FULL :: int where "BATT_FULL = 5"
definition BATT_CHARGING :: int where "BATT_CHARGING = 9"

definition AMBER_LED_FILE :: string where "AMBER_LED_FILE = ''/sys/class/leds/amber/brightness''"
definition GREEN_LED_FILE :: string where "GREEN_LED_FILE = ''/sys/class/leds/green/brightness''"
definition BUTTON_FILE :: string where "BUTTON_FILE = ''/sys/class/leds/button-backlight/brightness''"
definition AMBER_BLINK_FILE :: string where "AMBER_BLINK_FILE = ''/sys/class/leds/amber/blink''"
definition GREEN_BLINK_FILE :: string where "GREEN_BLINK_FILE = ''/sys/class/leds/green/blink''"
definition LCD_BACKLIGHT_FILE :: string where "LCD_BACKLIGHT_FILE = ''/sys/class/leds/lcd-backlight/brightness''"

text \<open>Where a polling thread stands in \<open>battery_level_check\<close>.\<close>

datatype batt_pc = BWait | BRun | BArm | BTest | BCheck | BEnd | BDone

record lights_state =
  g_notification :: light_state_t
  g_battery :: light_state_t
  g_backlight :: int
  t_battery_checker :: nat
  battery_thread_check :: bool
  last_battery_state :: int
  force_led_amber :: bool
  battery_thread_running :: bool
  already_warned :: bool
  writes :: "(string \<times> string) list"
  bthreads :: "batt_pc list"

text \<open>
  \<open>le_open\<close> and \<open>le_write\<close> give the error number or 0; \<open>le_status\<close> is what a read of the status file delivers
  (\<open>None\<close> when it fails), \<open>le_thread\<close> the identifier of a new thread (\<open>None\<close> when none can be created).
\<close>

record lights_env =
  le_open :: "string \<Rightarrow> int"
  le_write :: "string \<Rightarrow> string \<Rightarrow> int"
  le_status :: "string option"
  le_thread :: "nat option"

subsection \<open>Writing numbers\<close>

function nat_digits :: "nat \<Rightarrow> string" where
  "nat_digits n = (if n < 10 then [char_of (48 + n)] else nat_digits (n div 10) @ [char_of (48 + n mod 10)])"
  by auto
termination by (relation "measure id") auto

declare nat_digits.simps [simp del]

text \<open>The conversion \<open>%d\<close>.\<close>

definition dec_string :: "int \<Rightarrow> string" where
  "dec_string v = (if v < 0 then CHR ''-'' # nat_digits (nat (- v)) else nat_digits (nat v))"

definition int_line :: "int \<Rightarrow> string" where
  "int_line v = take 19 (dec_string v @ [CHR 0x0A])"

definition write_int :: "lights_env \<Rightarrow> string \<Rightarrow> int \<Rightarrow> lights_state \<Rightarrow> int \<times> lights_state" where
  "write_int E path v s =
     (if le_open E path \<noteq> 0 then (- le_open E path, s\<lparr>already_warned := True\<rparr>)
      else
        let buffer = int_line v in
        if le_write E path buffer \<noteq> 0 then (- le_write E path buffer, s)
        else (0, s\<lparr>writes := writes s @ [(path, buffer)]\<rparr>))"

abbreviation put_int :: "lights_env \<Rightarrow> string \<Rightarrow> int \<Rightarrow> lights_state \<Rightarrow> lights_state" where
  "put_int E path v s \<equiv> snd (write_int E path v s)"

subsection \<open>The LED\<close>

definition is_lit :: "light_state_t \<Rightarrow> bool" where
  "is_lit state \<longleftrightarrow> color state AND 0x00ffffff \<noteq> 0"

definition red_of :: "light_state_t \<Rightarrow> u32" where
  "red_of state = drop_bit 16 (color state AND 0xFFFFFF) AND 0xFF"

definition green_of :: "light_state_t \<Rightarrow> u32" where
  "green_of state = drop_bit 8 (color state AND 0xFFFFFF) AND 0xFF"

definition blue_of :: "light_state_t \<Rightarrow> u32" where
  "blue_of state = (color state AND 0xFFFFFF) AND 0xFF"

definition led_of :: "light_state_t \<Rightarrow> led_color" where
  "led_of state =
     (let c = LED_BLANK;
          c = (if blue_of state \<noteq> 0 then LED_BLUE else c);
          c = (if green_of state \<noteq> 0 then LED_GREEN else c)
      in if red_of state \<noteq> 0 then LED_AMBER else c)"

definition set_speaker_light_locked :: "lights_env \<Rightarrow> light_state_t \<Rightarrow> lights_state \<Rightarrow> lights_state" where
  "set_speaker_light_locked E state s =
     (let c = led_of state;
          forced = (flashMode state = LIGHT_FLASH_NONE \<and> c = LED_GREEN \<and> force_led_amber s);
          c = (if forced then LED_AMBER else c);
          s = (if forced then s\<lparr>force_led_amber := False\<rparr> else s)
      in case flashMode state of
           LIGHT_FLASH_TIMED \<Rightarrow>
             (case c of
                LED_AMBER \<Rightarrow> put_int E GREEN_LED_FILE 0 (put_int E AMBER_BLINK_FILE 2 s)
              | LED_GREEN \<Rightarrow> put_int E AMBER_LED_FILE 0 (put_int E GREEN_BLINK_FILE 3 s)
              | LED_BLUE \<Rightarrow> put_int E AMBER_LED_FILE 0 (put_int E GREEN_BLINK_FILE 3 s)
              | LED_BLANK \<Rightarrow> put_int E GREEN_BLINK_FILE 0 (put_int E AMBER_BLINK_FILE 0 s))
         | LIGHT_FLASH_NONE \<Rightarrow>
             (case c of
                LED_AMBER \<Rightarrow> put_int E GREEN_LED_FILE 0 (put_int E AMBER_LED_FILE 1 s)
              | LED_GREEN \<Rightarrow> put_int E GREEN_LED_FILE 1 (put_int E AMBER_LED_FILE 0 s)
              | LED_BLUE \<Rightarrow> put_int E GREEN_LED_FILE 1 (put_int E AMBER_LED_FILE 0 s)
              | LED_BLANK \<Rightarrow> put_int E GREEN_LED_FILE 0 (put_int E AMBER_LED_FILE 0 s))
         | other_flash _ \<Rightarrow> s)"

subsection \<open>The battery status\<close>

text \<open>
  \<open>str\<close> has 20 bytes and the read may fill all of them; without a terminator among them \<open>sprintf\<close> leaves the
  array, which is \<open>None\<close>. Otherwise the copy of the string onto itself returns its length.
\<close>

definition battery_status :: "lights_env \<Rightarrow> int option" where
  "battery_status E =
     (let str = (case le_status E of None \<Rightarrow> [] | Some t \<Rightarrow> take 20 t);
          text = takeWhile (\<lambda>c. c \<noteq> NUL) str
      in if length text = 20 then None else Some (int (length text)))"

text \<open>The argument and the result are flags: 0 asks for no result.\<close>

definition check_battery_level :: "lights_env \<Rightarrow> bool \<Rightarrow> lights_state \<Rightarrow> (bool \<times> lights_state) option" where
  "check_battery_level E ret s =
     do { battery_state \<leftarrow> battery_status E;
          let last = (if last_battery_state s \<noteq> BATT_CHARGING \<and> last_battery_state s \<noteq> BATT_FULL then BATT_NONE
                      else last_battery_state s);
              s = s\<lparr>last_battery_state := last\<rparr>
          in if battery_state \<noteq> last then
               let s = s\<lparr>last_battery_state := battery_state\<rparr> in
               if is_lit (g_battery s) \<and> is_lit (g_notification s) then
                 if battery_state = BATT_CHARGING then
                   Some (ret, put_int E GREEN_LED_FILE 0 (put_int E AMBER_BLINK_FILE 2 s))
                 else
                   Some (ret, (put_int E GREEN_BLINK_FILE 3 (put_int E AMBER_LED_FILE 0 s))\<lparr>battery_thread_check := False\<rparr>)
               else
                 if battery_state = BATT_CHARGING then
                   Some (ret, put_int E GREEN_LED_FILE 0 (put_int E AMBER_LED_FILE 1 s))
                 else if battery_state = BATT_FULL then
                   Some (False, (put_int E GREEN_LED_FILE 1 (put_int E AMBER_LED_FILE 0 s))\<lparr>battery_thread_check := False\<rparr>)
                 else Some (ret, s)
             else if ret then Some (battery_state = BATT_CHARGING, s)
             else Some (ret, s) }"

definition start_battery_thread :: "lights_env \<Rightarrow> lights_state \<Rightarrow> lights_state" where
  "start_battery_thread E s =
     (if t_battery_checker s = 0 then
        case le_thread E of
          None \<Rightarrow> s
        | Some tid \<Rightarrow> s\<lparr>t_battery_checker := tid, bthreads := bthreads s @ [BWait]\<rparr>
      else s)"

definition set_speaker_light_locked_dual :: "lights_env \<Rightarrow> light_state_t \<Rightarrow> lights_state \<Rightarrow> lights_state option" where
  "set_speaker_light_locked_dual E bstate s =
     do { (is_charging, s) \<leftarrow> check_battery_level E True s;
          let bcolor = LED_BLANK;
              bcolor = (if green_of bstate \<noteq> 0 then LED_GREEN else bcolor);
              bcolor = (if red_of bstate \<noteq> 0 then LED_AMBER else bcolor)
          in Some (if bcolor = LED_GREEN \<and> is_charging then
                     start_battery_thread E (put_int E GREEN_LED_FILE 0 (put_int E AMBER_BLINK_FILE 2 s))
                   else if bcolor = LED_AMBER then put_int E GREEN_LED_FILE 0 (put_int E AMBER_BLINK_FILE 2 s)
                   else if bcolor = LED_GREEN then put_int E GREEN_BLINK_FILE 3 (put_int E AMBER_LED_FILE 0 s)
                   else s) }"

definition handle_speaker_battery_locked :: "lights_env \<Rightarrow> lights_state \<Rightarrow> lights_state option" where
  "handle_speaker_battery_locked E s =
     (let s = s\<lparr>t_battery_checker := 0, battery_thread_check := False\<rparr> in
      if is_lit (g_battery s) \<and> is_lit (g_notification s) then
        set_speaker_light_locked_dual E (g_battery s) s
      else if is_lit (g_battery s) then
        do { s \<leftarrow> (if green_of (g_battery s) \<noteq> 0 then
                   do { (ret, s) \<leftarrow> check_battery_level E True s;
                        Some (if ret then start_battery_thread E (s\<lparr>force_led_amber := True\<rparr>) else s) }
                 else Some s);
             Some (set_speaker_light_locked E (g_battery s) s) }
      else Some (set_speaker_light_locked E (g_notification s) s))"

subsection \<open>The interface\<close>

definition set_light_buttons :: "lights_env \<Rightarrow> light_state_t \<Rightarrow> lights_state \<Rightarrow> int \<times> lights_state" where
  "set_light_buttons E state s = write_int E BUTTON_FILE (if is_lit state then 255 else 0) s"

definition rgb_to_brightness :: "light_state_t \<Rightarrow> int" where
  "rgb_to_brightness state =
     (let c = uint (color state AND 0x00ffffff) in
      drop_bit 8 (77 * (drop_bit 16 c AND 0x00ff) + 150 * (drop_bit 8 c AND 0x00ff) + 29 * (c AND 0x00ff)))"

definition set_light_backlight :: "lights_env \<Rightarrow> light_state_t \<Rightarrow> lights_state \<Rightarrow> int \<times> lights_state" where
  "set_light_backlight E state s =
     (let brightness = rgb_to_brightness state in
      write_int E LCD_BACKLIGHT_FILE brightness (s\<lparr>g_backlight := brightness\<rparr>))"

definition set_light_battery :: "lights_env \<Rightarrow> light_state_t \<Rightarrow> lights_state \<Rightarrow> (int \<times> lights_state) option" where
  "set_light_battery E state s =
     do { s \<leftarrow> handle_speaker_battery_locked E (s\<lparr>g_battery := state\<rparr>); Some (0, s) }"

definition set_light_attention :: "lights_env \<Rightarrow> light_state_t \<Rightarrow> lights_state \<Rightarrow> int \<times> lights_state" where
  "set_light_attention E state s = (0, s)"

definition set_light_notifications :: "lights_env \<Rightarrow> light_state_t \<Rightarrow> lights_state \<Rightarrow> (int \<times> lights_state) option" where
  "set_light_notifications E state s =
     do { s \<leftarrow> handle_speaker_battery_locked E (s\<lparr>g_notification := state\<rparr>); Some (0, s) }"

datatype light_id =
  LIGHT_ID_BACKLIGHT | LIGHT_ID_BUTTONS | LIGHT_ID_BATTERY | LIGHT_ID_ATTENTION | LIGHT_ID_NOTIFICATIONS | other_id string

type_synonym light_op = "lights_env \<Rightarrow> light_state_t \<Rightarrow> lights_state \<Rightarrow> (int \<times> lights_state) option"

text \<open>The device is the function stored in its field \<open>set_light\<close>.\<close>

definition open_lights :: "light_id \<Rightarrow> int + light_op" where
  "open_lights name =
     (case name of
        LIGHT_ID_BACKLIGHT \<Rightarrow> Inr (\<lambda>E st s. Some (set_light_backlight E st s))
      | LIGHT_ID_BUTTONS \<Rightarrow> Inr (\<lambda>E st s. Some (set_light_buttons E st s))
      | LIGHT_ID_BATTERY \<Rightarrow> Inr set_light_battery
      | LIGHT_ID_ATTENTION \<Rightarrow> Inr (\<lambda>E st s. Some (set_light_attention E st s))
      | LIGHT_ID_NOTIFICATIONS \<Rightarrow> Inr set_light_notifications
      | other_id _ \<Rightarrow> Inl (- EINVAL_code))"

subsection \<open>The polling thread\<close>

text \<open>One step of \<open>battery_level_check\<close>; a sleep has no effect. \<open>BDone\<close> is a finished thread.\<close>

definition batt_step :: "lights_env \<Rightarrow> batt_pc \<Rightarrow> lights_state \<Rightarrow> (batt_pc \<times> lights_state) option" where
  "batt_step E pc s =
     (case pc of
        BWait \<Rightarrow> Some (if battery_thread_running s then BWait else BRun, s)
      | BRun \<Rightarrow> Some (BArm, s\<lparr>battery_thread_running := True\<rparr>)
      | BArm \<Rightarrow> Some (BTest, s\<lparr>battery_thread_check := True\<rparr>)
      | BTest \<Rightarrow> Some (if battery_thread_check s then BCheck else BEnd, s)
      | BCheck \<Rightarrow> do { (_, s) \<leftarrow> check_battery_level E False s; Some (BTest, s) }
      | BEnd \<Rightarrow> Some (BDone, s\<lparr>battery_thread_running := False\<rparr>)
      | BDone \<Rightarrow> Some (BDone, s))"

inductive thread_step :: "lights_env \<Rightarrow> lights_state \<Rightarrow> lights_state \<Rightarrow> bool" for E where
  thread: "\<lbrakk>i < length (bthreads s); batt_step E (bthreads s ! i) s = Some (pc, s')\<rbrakk> \<Longrightarrow>
    thread_step E s (s'\<lparr>bthreads := (bthreads s')[i := pc]\<rparr>)"

inductive light_step :: "lights_state \<Rightarrow> lights_state \<Rightarrow> bool" where
  poll: "thread_step E s s' \<Longrightarrow> light_step s s'"
| command: "\<lbrakk>open_lights name = Inr set_light; set_light E st s = Some (rc, s')\<rbrakk> \<Longrightarrow> light_step s s'"

inductive_cases thread_stepE: "thread_step E s s'"

subsection \<open>Lemmas on the writes\<close>

lemma length_nat_digits: "n < 10 ^ k \<Longrightarrow> 0 < k \<Longrightarrow> length (nat_digits n) \<le> k"
proof (induction n arbitrary: k rule: nat_digits.induct)
  case (1 n)
  show ?case
  proof (cases "n < 10")
    case True
    then show ?thesis using 1 by (simp add: nat_digits.simps)
  next
    case False
    then obtain j where k: "k = Suc j" and j: "0 < j" using 1(2,3) by (cases k; cases "k - 1") auto
    have "length (nat_digits (n div 10)) \<le> j"
      using 1(1) [OF False _ j] 1(2) k by (simp add: less_mult_imp_div_less mult.commute)
    then show ?thesis using False k by (subst nat_digits.simps) simp
  qed
qed

text \<open>The buffer of 20 bytes holds every 32-bit number.\<close>

lemma int_line_full: "int32_ok v \<Longrightarrow> int_line v = dec_string v @ [CHR 0x0A]"
proof -
  assume v: "int32_ok v"
  have "length (nat_digits (nat \<bar>v\<bar>)) \<le> 10"
    by (rule length_nat_digits) (use v in \<open>auto simp: int32_ok_def\<close>)
  then have "length (dec_string v) \<le> 11" by (auto simp: dec_string_def abs_if)
  then show ?thesis by (simp add: int_line_def)
qed

lemma int_line_inject [simp]:
  "int_line 0 = [CHR ''0'', CHR 0x0A]" "int_line 1 = [CHR ''1'', CHR 0x0A]"
  "int_line 2 = [CHR ''2'', CHR 0x0A]" "int_line 3 = [CHR ''3'', CHR 0x0A]"
  by (simp_all add: int_line_def dec_string_def nat_digits.simps char_of_def bit_0)

definition writable :: "lights_env \<Rightarrow> bool" where
  "writable E \<longleftrightarrow> (\<forall>p. le_open E p = 0) \<and> (\<forall>p t. le_write E p t = 0)"

lemma write_int_writable [simp]: "writable E \<Longrightarrow> write_int E p v s = (0, s\<lparr>writes := writes s @ [(p, int_line v)]\<rparr>)"
  by (simp add: writable_def write_int_def)

lemmas file_names = AMBER_LED_FILE_def GREEN_LED_FILE_def AMBER_BLINK_FILE_def GREEN_BLINK_FILE_def

lemma put_int_select [simp]:
  "g_notification (put_int E p v s) = g_notification s" "g_battery (put_int E p v s) = g_battery s"
  "t_battery_checker (put_int E p v s) = t_battery_checker s" "force_led_amber (put_int E p v s) = force_led_amber s"
  "last_battery_state (put_int E p v s) = last_battery_state s" "bthreads (put_int E p v s) = bthreads s"
  "battery_thread_running (put_int E p v s) = battery_thread_running s"
  "battery_thread_check (put_int E p v s) = battery_thread_check s"
  by (simp_all add: write_int_def Let_def)

subsection \<open>What the LED is told\<close>

text \<open>
  The specification. An LED has a brightness file and a blink file; the last write to one of the two tells it to be
  off, on or blinking.
\<close>

datatype led = Amber | Green
datatype glow = Off | On | Blinking

fun led_files :: "led \<Rightarrow> string \<times> string" where
  "led_files Amber = (AMBER_LED_FILE, AMBER_BLINK_FILE)"
| "led_files Green = (GREEN_LED_FILE, GREEN_BLINK_FILE)"

definition told :: "led \<Rightarrow> (string \<times> string) list \<Rightarrow> glow option" where
  "told l w =
     (case find (\<lambda>(p, _). p = fst (led_files l) \<or> p = snd (led_files l)) (rev w) of
        None \<Rightarrow> None
      | Some (p, t) \<Rightarrow> Some (if t = int_line 0 then Off else if p = fst (led_files l) then On else Blinking))"

lemma file_distinct [simp]:
  "AMBER_LED_FILE \<noteq> GREEN_LED_FILE" "AMBER_LED_FILE \<noteq> AMBER_BLINK_FILE" "AMBER_LED_FILE \<noteq> GREEN_BLINK_FILE"
  "GREEN_LED_FILE \<noteq> AMBER_LED_FILE" "GREEN_LED_FILE \<noteq> AMBER_BLINK_FILE" "GREEN_LED_FILE \<noteq> GREEN_BLINK_FILE"
  "AMBER_BLINK_FILE \<noteq> AMBER_LED_FILE" "AMBER_BLINK_FILE \<noteq> GREEN_LED_FILE" "AMBER_BLINK_FILE \<noteq> GREEN_BLINK_FILE"
  "GREEN_BLINK_FILE \<noteq> AMBER_LED_FILE" "GREEN_BLINK_FILE \<noteq> GREEN_LED_FILE" "GREEN_BLINK_FILE \<noteq> AMBER_BLINK_FILE"
  by (simp_all add: file_names)

lemma find_append: "find P (xs @ ys) = (case find P xs of None \<Rightarrow> find P ys | Some x \<Rightarrow> Some x)"
  by (induction xs) simp_all

lemma told_append: "told l (w @ w') = (case told l w' of None \<Rightarrow> told l w | Some g \<Rightarrow> Some g)"
  by (simp add: told_def find_append split: option.splits)

lemma told_Nil [simp]: "told l [] = None"
  by (simp add: told_def)

lemma told_one [simp]:
  "told l [(p, t)] =
     (if p = fst (led_files l) \<or> p = snd (led_files l) then
        Some (if t = int_line 0 then Off else if p = fst (led_files l) then On else Blinking)
      else None)"
  by (simp add: told_def)

lemma told_two [simp]: "told l (w @ [e, e']) = (case told l [e'] of None \<Rightarrow> told l (w @ [e]) | Some g \<Rightarrow> Some g)"
  using told_append [of l "w @ [e]" "[e']"] by simp

lemmas told_last [simp] = told_append [of _ _ "[e]" for e]

text \<open>The LED a colour asks for, and how it is to glow.\<close>

definition shade :: "light_state_t \<Rightarrow> led option" where
  "shade st = (if red_of st \<noteq> 0 then Some Amber else if is_lit st then Some Green else None)"

fun glow_of :: "flash_mode \<Rightarrow> glow" where
  "glow_of LIGHT_FLASH_NONE = On"
| "glow_of LIGHT_FLASH_TIMED = Blinking"
| "glow_of (other_flash _) = Off"

text \<open>
  Battery and notification share the LED. Both at once blink, amber while the battery is charging; a battery light alone is
  shown as amber instead of a steady green while the battery is charging; a notification is shown when the
  battery has no light.
\<close>

definition led_spec :: "light_state_t \<Rightarrow> light_state_t \<Rightarrow> bool \<Rightarrow> led option \<times> glow" where
  "led_spec b n charging =
     (if is_lit b \<and> is_lit n then (Some (if red_of b \<noteq> 0 \<or> charging then Amber else Green), Blinking)
      else if is_lit b then
        (if charging \<and> green_of b \<noteq> 0 \<and> flashMode b = LIGHT_FLASH_NONE then Some Amber else shade b, glow_of (flashMode b))
      else (shade n, glow_of (flashMode n)))"

text \<open>
  Where the code departs from it: \<open>force_led_amber\<close>, left set by an earlier battery light, turns the next light that would be
  a steady green into amber.
\<close>

definition stale_amber :: "bool \<Rightarrow> light_state_t \<Rightarrow> light_state_t \<Rightarrow> bool \<Rightarrow> bool" where
  "stale_amber forced b n charging \<longleftrightarrow>
     forced \<and> \<not> (is_lit b \<and> is_lit n) \<and> \<not> (is_lit b \<and> charging) \<and>
     (let st = if is_lit b then b else n in flashMode st = LIGHT_FLASH_NONE \<and> red_of st = 0 \<and> green_of st \<noteq> 0)"

definition led_shows :: "led option \<times> glow \<Rightarrow> lights_state \<Rightarrow> bool" where
  "led_shows v s \<longleftrightarrow> (\<forall>l. told l (writes s) = Some (if fst v = Some l then snd v else Off))"

definition known_flash :: "light_state_t \<Rightarrow> bool" where
  "known_flash st \<longleftrightarrow> flashMode st = LIGHT_FLASH_NONE \<or> flashMode st = LIGHT_FLASH_TIMED"

lemma led_all: "(\<forall>l. P l) \<longleftrightarrow> P Amber \<and> P Green"
proof (intro iffI allI)
  fix l assume "P Amber \<and> P Green" then show "P l" by (cases l) simp_all
qed simp

lemmas led_shows_iff = led_shows_def [unfolded led_all]

lemma color_mask: "unat (color st AND 0x00ffffff) = unat (color st) mod 16777216"
proof -
  have "(0x00ffffff :: u32) = mask 24" by (simp add: mask_numeral)
  then show ?thesis by (simp only: take_bit_eq_mask [symmetric] unsigned_take_bit_eq take_bit_eq_mod) (simp add: unat_mod)
qed

lemma byte_mod: "unat (w AND 0xFF :: u32) = unat w mod 256"
proof -
  have "(0xFF :: u32) = mask 8" by (simp add: mask_numeral)
  then show ?thesis by (simp only: take_bit_eq_mask [symmetric] unsigned_take_bit_eq take_bit_eq_mod) (simp add: unat_mod)
qed

lemma unat_bytes:
  "unat (red_of st) = unat (color st) mod 16777216 div 65536 mod 256"
  "unat (green_of st) = unat (color st) mod 16777216 div 256 mod 256"
  "unat (blue_of st) = unat (color st) mod 16777216 mod 256"
  by (simp_all only: red_of_def green_of_def blue_of_def byte_mod unat_drop_bit_eq color_mask) (simp_all add: drop_bit_eq_div)

lemma color_bytes: "color st AND 0x00ffffff = 0 \<longleftrightarrow> red_of st = 0 \<and> green_of st = 0 \<and> blue_of st = 0"
proof -
  have z: "w = 0 \<longleftrightarrow> unat w = 0" for w :: u32 by (simp add: unat_eq_zero)
  have "y = 0 \<longleftrightarrow> y div 65536 mod 256 = 0 \<and> y div 256 mod 256 = 0 \<and> y mod 256 = 0" if "y < 16777216" for y :: nat
  proof -
    have d: "y div 256 div 256 = y div 65536" by (simp add: div_mult2_eq [symmetric])
    have r: "y div 65536 mod 256 = y div 65536" using that by (simp add: less_mult_imp_div_less)
    have y: "y = (y div 65536 * 256 + y div 256 mod 256) * 256 + y mod 256"
      by (simp only: d [symmetric] div_mult_mod_eq)
    have "y = 0" if "y div 65536 = 0 \<and> y div 256 mod 256 = 0 \<and> y mod 256 = 0"
      by (subst y) (use that in simp)
    then show ?thesis unfolding r by auto
  qed
  from this [of "unat (color st) mod 16777216"] show ?thesis unfolding z color_mask unat_bytes by fastforce
qed

lemma not_lit_bytes: "\<not> is_lit st \<Longrightarrow> red_of st = 0 \<and> green_of st = 0 \<and> blue_of st = 0"
  by (simp add: is_lit_def color_bytes)

lemma led_of_shade:
  "led_of st = LED_AMBER \<longleftrightarrow> shade st = Some Amber"
  "led_of st = LED_GREEN \<or> led_of st = LED_BLUE \<longleftrightarrow> shade st = Some Green"
  "led_of st = LED_BLANK \<longleftrightarrow> shade st = None"
  using not_lit_bytes [of st] color_bytes [of st] by (auto simp: led_of_def shade_def is_lit_def Let_def)

subsection \<open>The handler\<close>

lemma speaker_light_select [simp]:
  "g_battery (set_speaker_light_locked E st s) = g_battery s"
  "g_notification (set_speaker_light_locked E st s) = g_notification s"
  "bthreads (set_speaker_light_locked E st s) = bthreads s"
  "battery_thread_running (set_speaker_light_locked E st s) = battery_thread_running s"
  "last_battery_state (set_speaker_light_locked E st s) = last_battery_state s"
  "t_battery_checker (set_speaker_light_locked E st s) = t_battery_checker s"
  "force_led_amber (set_speaker_light_locked E st s) =
     (force_led_amber s \<and> \<not> (flashMode st = LIGHT_FLASH_NONE \<and> led_of st = LED_GREEN))"
  by (cases "flashMode st"; cases "led_of st"; simp add: set_speaker_light_locked_def Let_def)+

lemma speaker_light_shows:
  assumes "writable E" "known_flash st"
  shows "led_shows (if flashMode st = LIGHT_FLASH_NONE \<and> green_of st \<noteq> 0 \<and> force_led_amber s then Some Amber else shade st,
     glow_of (flashMode st)) (set_speaker_light_locked E st s)"
proof -
  have g: "led_of st = LED_GREEN \<longleftrightarrow> red_of st = 0 \<and> green_of st \<noteq> 0" by (simp add: led_of_def Let_def)
  have r: "red_of st \<noteq> 0 \<Longrightarrow> shade st = Some Amber" by (simp add: shade_def)
  show ?thesis
    using assms led_of_shade [of st] g r
    by (cases "led_of st"; cases "flashMode st")
       (auto simp: led_shows_iff set_speaker_light_locked_def known_flash_def)
qed

text \<open>What \<open>check_battery_level\<close> answers, and what it leaves alone.\<close>

definition answer :: "int \<Rightarrow> lights_state \<Rightarrow> bool" where
  "answer st s =
     (let last = (if last_battery_state s \<in> {BATT_CHARGING, BATT_FULL} then last_battery_state s else BATT_NONE) in
      if st = last then st = BATT_CHARGING
      else is_lit (g_battery s) \<and> is_lit (g_notification s) \<or> st \<noteq> BATT_FULL)"

lemma check_battery_level_answer:
  assumes "battery_status E = Some st"
  shows "\<exists>s'. check_battery_level E True s = Some (answer st s, s') \<and>
    g_battery s' = g_battery s \<and> g_notification s' = g_notification s \<and> force_led_amber s' = force_led_amber s \<and>
    bthreads s' = bthreads s \<and> t_battery_checker s' = t_battery_checker s \<and> last_battery_state s' = st"
proof -
  have ne: "BATT_NONE \<noteq> BATT_CHARGING" "BATT_NONE \<noteq> BATT_FULL" "BATT_CHARGING \<noteq> BATT_FULL"
    by (simp_all add: BATT_NONE_def BATT_CHARGING_def BATT_FULL_def)
  show ?thesis
    using assms ne by (auto simp: check_battery_level_def answer_def Let_def)
qed

lemma start_battery_thread_select [simp]:
  "writes (start_battery_thread E s) = writes s" "g_battery (start_battery_thread E s) = g_battery s"
  "g_notification (start_battery_thread E s) = g_notification s"
  "force_led_amber (start_battery_thread E s) = force_led_amber s"
  by (simp_all add: start_battery_thread_def split: option.split)

text \<open>The text of the status file, with its line end.\<close>

definition status_is :: "string \<Rightarrow> lights_env \<Rightarrow> bool" where
  "status_is t E \<longleftrightarrow> le_status E = Some (t @ [CHR 0x0A])"

lemma battery_status_known:
  "status_is ''Charging'' E \<Longrightarrow> battery_status E = Some BATT_CHARGING"
  "status_is ''Full'' E \<Longrightarrow> battery_status E = Some BATT_FULL"
  by (simp_all add: battery_status_def status_is_def BATT_CHARGING_def BATT_FULL_def)

lemma answer_known:
  "answer BATT_CHARGING s"
  "\<not> (is_lit (g_battery s) \<and> is_lit (g_notification s)) \<or> last_battery_state s = BATT_FULL \<Longrightarrow> \<not> answer BATT_FULL s"
  by (auto simp: answer_def BATT_NONE_def BATT_CHARGING_def BATT_FULL_def)

lemma handler_shows:
  assumes E: "writable E" "battery_status E = Some st"
    and b: "known_flash (g_battery s)" "red_of (g_battery s) \<noteq> 0 \<or> green_of (g_battery s) \<noteq> 0 \<or> \<not> is_lit (g_battery s)"
    and n: "known_flash (g_notification s)"
  shows "\<exists>s'. handle_speaker_battery_locked E s = Some s' \<and>
    g_battery s' = g_battery s \<and> g_notification s' = g_notification s \<and>
    led_shows (if stale_amber (force_led_amber s) (g_battery s) (g_notification s) (answer st s) then (Some Amber, On)
      else led_spec (g_battery s) (g_notification s) (answer st s)) s'"
proof -
  let ?s = "s\<lparr>t_battery_checker := 0, battery_thread_check := False\<rparr>"
  have a: "answer st ?s = answer st s" by (simp add: answer_def)
  obtain s1 where s1: "check_battery_level E True ?s = Some (answer st s, s1)"
      "g_battery s1 = g_battery s" "g_notification s1 = g_notification s" "force_led_amber s1 = force_led_amber s"
    using check_battery_level_answer [OF E(2), of ?s] unfolding a by auto
  consider (both) "is_lit (g_battery s) \<and> is_lit (g_notification s)"
    | (battery) "is_lit (g_battery s)" "\<not> is_lit (g_notification s)" | (none) "\<not> is_lit (g_battery s)" by blast
  then show ?thesis
  proof cases
    case both
    then show ?thesis using s1 b(2) E(1)
      by (auto simp: handle_speaker_battery_locked_def set_speaker_light_locked_dual_def led_spec_def led_shows_iff stale_amber_def)
  next
    case none
    let ?n = "g_notification s"
    have "red_of ?n \<noteq> 0 \<Longrightarrow> shade ?n = Some Amber" by (simp add: shade_def)
    then have "(if flashMode ?n = LIGHT_FLASH_NONE \<and> green_of ?n \<noteq> 0 \<and> force_led_amber ?s then Some Amber else shade ?n,
        glow_of (flashMode ?n)) = (if stale_amber (force_led_amber s) (g_battery s) ?n (answer st s) then (Some Amber, On)
        else led_spec (g_battery s) ?n (answer st s))"
      using none by (auto simp: led_spec_def stale_amber_def)
    with none show ?thesis using speaker_light_shows [OF E(1) n, of ?s]
      by (simp add: handle_speaker_battery_locked_def)
  next
    case battery
    let ?b = "g_battery s"
    define s2 where "s2 = (if green_of ?b \<noteq> 0 then
      if answer st s then start_battery_thread E (s1\<lparr>force_led_amber := True\<rparr>) else s1 else ?s)"
    have h: "handle_speaker_battery_locked E s = Some (set_speaker_light_locked E ?b s2)"
      using battery s1 by (simp add: handle_speaker_battery_locked_def s2_def)
    have "force_led_amber s2 \<longleftrightarrow> force_led_amber s \<or> green_of ?b \<noteq> 0 \<and> answer st s" using s1 by (simp add: s2_def)
    moreover have "red_of ?b \<noteq> 0 \<Longrightarrow> shade ?b = Some Amber" by (simp add: shade_def)
    ultimately have "(if stale_amber (force_led_amber s) ?b (g_notification s) (answer st s) then (Some Amber, On)
        else led_spec ?b (g_notification s) (answer st s)) =
        (if flashMode ?b = LIGHT_FLASH_NONE \<and> green_of ?b \<noteq> 0 \<and> force_led_amber s2 then Some Amber else shade ?b,
         glow_of (flashMode ?b))"
      using battery by (auto simp: led_spec_def stale_amber_def)
    moreover have "g_battery s2 = ?b" "g_notification s2 = g_notification s" using s1 by (simp_all add: s2_def)
    ultimately show ?thesis using speaker_light_shows [OF E(1) b(1), of s2] h
      by (intro exI [of _ "set_speaker_light_locked E ?b s2"]) (simp only: speaker_light_select simp_thms)
  qed
qed

lemma handler_battery_off:
  assumes "\<not> is_lit (g_battery s)"
  shows "handle_speaker_battery_locked E s =
    Some (set_speaker_light_locked E (g_notification s) (s\<lparr>t_battery_checker := 0, battery_thread_check := False\<rparr>))"
  using assms by (simp add: handle_speaker_battery_locked_def)

subsection \<open>A poller that cannot be stopped\<close>

text \<open>A thread in its polling loop while battery and notification are not both lit.\<close>

definition polling :: "nat \<Rightarrow> lights_state \<Rightarrow> bool" where
  "polling i s \<longleftrightarrow> i < length (bthreads s) \<and> bthreads s ! i \<in> {BTest, BCheck} \<and> battery_thread_check s \<and>
     \<not> (is_lit (g_battery s) \<and> is_lit (g_notification s))"

text \<open>Steps of the threads while the battery is not full.\<close>

definition poller_step :: "lights_state \<Rightarrow> lights_state \<Rightarrow> bool" where
  "poller_step s s' \<longleftrightarrow> (\<exists>E. battery_status E \<noteq> Some BATT_FULL \<and> thread_step E s s')"

lemma check_keeps_polling:
  assumes "check_battery_level E False s = Some (r, s')" "battery_status E \<noteq> Some BATT_FULL"
    "\<not> (is_lit (g_battery s) \<and> is_lit (g_notification s))"
  shows "bthreads s' = bthreads s \<and> battery_thread_check s' = battery_thread_check s \<and>
    g_battery s' = g_battery s \<and> g_notification s' = g_notification s"
proof -
  have "case check_battery_level E False s of None \<Rightarrow> True | Some (r, s') \<Rightarrow>
      bthreads s' = bthreads s \<and> battery_thread_check s' = battery_thread_check s \<and>
      g_battery s' = g_battery s \<and> g_notification s' = g_notification s"
    using assms(2,3) by (cases "battery_status E") (auto simp: check_battery_level_def Let_def)
  then show ?thesis using assms(1) by simp
qed

lemma polling_step:
  assumes "poller_step s s'" "polling i s"
  shows "polling i s'"
proof -
  obtain E j pc t where E: "battery_status E \<noteq> Some BATT_FULL" and j: "j < length (bthreads s)"
      "batt_step E (bthreads s ! j) s = Some (pc, t)" and s': "s' = t\<lparr>bthreads := (bthreads t)[j := pc]\<rparr>"
    using assms(1) unfolding poller_step_def by (auto elim: thread_stepE)
  have nb: "\<not> (is_lit (g_battery s) \<and> is_lit (g_notification s))" using assms(2) by (simp add: polling_def)
  have t: "bthreads t = bthreads s \<and> battery_thread_check t \<and> g_battery t = g_battery s \<and> g_notification t = g_notification s"
    using j(2) assms(2) check_keeps_polling [OF _ E nb]
    by (auto simp: batt_step_def polling_def bind_eq_Some_conv split: batt_pc.splits)
  have "pc \<in> {BTest, BCheck}" if "i = j"
    using j(2) assms(2) that by (auto simp: batt_step_def polling_def bind_eq_Some_conv split: batt_pc.splits)
  then have "(bthreads s)[j := pc] ! i \<in> {BTest, BCheck}"
    using assms(2) j(1) by (cases "i = j") (simp_all add: polling_def)
  then show ?thesis using t assms(2) s' by (simp add: polling_def)
qed

interpretation poller: invariant_system "polling i" poller_step "polling i" for i
  by unfold_locales (auto intro: polling_step)

lemma poller_starts:
  assumes "i < length (bthreads s)" "bthreads s ! i = BWait" "\<not> battery_thread_running s"
  shows "steps (thread_step E) s (s\<lparr>battery_thread_running := True, battery_thread_check := True,
    bthreads := (bthreads s)[i := BTest]\<rparr>)"
proof -
  let ?s1 = "s\<lparr>bthreads := (bthreads s)[i := BRun]\<rparr>"
  let ?s2 = "s\<lparr>battery_thread_running := True, bthreads := (bthreads s)[i := BArm]\<rparr>"
  have "thread_step E s ?s1" using thread [of i s E BRun s] assms by (simp add: batt_step_def)
  then have 1: "steps (thread_step E) s ?s1" by (rule steps_one)
  have "thread_step E ?s1 ?s2"
    using thread [of i ?s1 E BArm "?s1\<lparr>battery_thread_running := True\<rparr>"] assms by (simp add: batt_step_def)
  with 1 have 2: "steps (thread_step E) s ?s2" by (rule steps_step)
  have "thread_step E ?s2 (s\<lparr>battery_thread_running := True, battery_thread_check := True, bthreads := (bthreads s)[i := BTest]\<rparr>)"
    using thread [of i ?s2 E BTest "?s2\<lparr>battery_thread_check := True\<rparr>"] assms by (simp add: batt_step_def)
  with 2 show ?thesis by (rule steps_step)
qed

subsection \<open>The backlight\<close>

lemma rgb_to_brightness_bytes:
  "rgb_to_brightness st = (77 * uint (red_of st) + 150 * uint (green_of st) + 29 * uint (blue_of st)) div 256"
proof -
  have t: "take_bit 32 (uint w) = uint w" for w :: u32
    using unsigned_take_bit_eq [of 32 w, where 'a = int] take_bit_length_eq [of w] by simp
  have "uint (color st AND 0x00ffffff) AND 0x00ff = uint (blue_of st)"
    "drop_bit 8 (uint (color st AND 0x00ffffff)) AND 0x00ff = uint (green_of st)"
    "drop_bit 16 (uint (color st AND 0x00ffffff)) AND 0x00ff = uint (red_of st)"
    by (simp_all add: red_of_def green_of_def blue_of_def unsigned_and_eq unsigned_drop_bit_eq t)
  then show ?thesis by (simp add: rgb_to_brightness_def drop_bit_eq_div)
qed

lemma byte_bound: "uint (red_of st) \<le> 255" "uint (green_of st) \<le> 255" "uint (blue_of st) \<le> 255"
proof -
  have u: "uint w = int (unat w)" for w :: u32 by simp
  have m: "int (x mod 256) \<le> 255" for x :: nat by (simp add: nat_less_iff mod_less_eq_dividend)
  show "uint (red_of st) \<le> 255" "uint (green_of st) \<le> 255" "uint (blue_of st) \<le> 255"
    unfolding u unat_bytes by (rule m)+
qed

lemma brightness_bounds: "0 \<le> rgb_to_brightness st \<and> rgb_to_brightness st \<le> 255"
  using byte_bound [of st] uint_lt_0 [of "red_of st"] unfolding rgb_to_brightness_bytes
  by (simp add: pos_imp_zdiv_nonneg_iff)

subsection \<open>Properties\<close>

text \<open>
  C32: setting the battery or the notification light tells both LEDs what the specification asks for: which one
  glows, whether it blinks, and the other one to be off. It is stated for files that can be written, the two flash modes of the code, a
  status file that says charging or full, and a battery that is dark or whose colour has red or green in it. There are exactly two exceptions:
  with \<open>force_led_amber\<close> left set, a light that should be a steady green is a steady amber; and when both
  lights are lit and the battery was not known to be full before, a full battery is shown like a charging one.
\<close>

theorem led_follows_spec:
  assumes E: "writable E" and st: "status_is ''Charging'' E \<and> charging \<or> status_is ''Full'' E \<and> \<not> charging"
    and cmd: "name = LIGHT_ID_BATTERY \<and> b = st \<and> n = g_notification s \<or> name = LIGHT_ID_NOTIFICATIONS \<and> b = g_battery s \<and> n = st"
    and op: "open_lights name = Inr set_light"
    and b: "known_flash b" "red_of b \<noteq> 0 \<or> green_of b \<noteq> 0 \<or> \<not> is_lit b" and n: "known_flash n"
  shows "\<exists>s'. set_light E st s = Some (0, s') \<and> g_battery s' = b \<and> g_notification s' = n \<and>
    led_shows (if stale_amber (force_led_amber s) b n charging then (Some Amber, On)
      else if is_lit b \<and> is_lit n \<and> last_battery_state s \<noteq> BATT_FULL then led_spec b n True
      else led_spec b n charging) s'"
proof -
  let ?v = "if charging then BATT_CHARGING else BATT_FULL"
  let ?s = "s\<lparr>g_battery := b, g_notification := n\<rparr>"
  let ?a = "charging \<or> is_lit b \<and> is_lit n \<and> last_battery_state s \<noteq> BATT_FULL"
  have v: "battery_status E = Some ?v" using st battery_status_known by auto
  have a: "answer ?v ?s = ?a" by (auto simp: answer_def BATT_NONE_def BATT_CHARGING_def BATT_FULL_def)
  obtain s' where s': "handle_speaker_battery_locked E ?s = Some s'" "g_battery s' = b" "g_notification s' = n"
      "led_shows (if stale_amber (force_led_amber s) b n ?a then (Some Amber, On) else led_spec b n ?a) s'"
    using handler_shows [OF E v, of ?s] b n by (auto simp: a cong: if_cong)
  have "stale_amber (force_led_amber s) b n ?a = stale_amber (force_led_amber s) b n charging" by (auto simp: stale_amber_def)
  moreover have "led_spec b n ?a = (if is_lit b \<and> is_lit n \<and> last_battery_state s \<noteq> BATT_FULL then led_spec b n True else led_spec b n charging)"
    by auto
  moreover have "set_light E st s = Some (0, s')"
    using cmd op s'(1) by (auto simp: open_lights_def set_light_battery_def set_light_notifications_def)
  ultimately show ?thesis using s' by auto
qed

definition demo_lights_env :: "string \<Rightarrow> lights_env" where
  "demo_lights_env t = \<lparr>le_open = (\<lambda>_. 0), le_write = (\<lambda>_ _. 0), le_status = Some (t @ [CHR 0x0A]), le_thread = Some 7\<rparr>"

definition steady :: "u32 \<Rightarrow> light_state_t" where
  "steady c = \<lparr>color = c, flashMode = LIGHT_FLASH_NONE\<rparr>"

definition demo_lights :: lights_state where
  "demo_lights = \<lparr>g_notification = steady 0, g_battery = steady 0, g_backlight = 255, t_battery_checker = 0,
     battery_thread_check = True, last_battery_state = 0, force_led_amber = False, battery_thread_running = False,
     already_warned = False, writes = [], bthreads = []\<rparr>"

lemma demo_lights_env_ok [simp]: "writable (demo_lights_env t)" "status_is t (demo_lights_env t)"
  by (simp_all add: writable_def status_is_def demo_lights_env_def)

theorem led_follows_spec_witness:
  "\<exists>s'. set_light_battery (demo_lights_env ''Charging'') (steady 0x0000FF00) demo_lights = Some (0, s') \<and>
     led_shows (Some Amber, On) s'"
proof -
  let ?st = "steady 0x0000FF00"
  have "\<exists>s'. set_light_battery (demo_lights_env ''Charging'') ?st demo_lights = Some (0, s') \<and> g_battery s' = ?st \<and>
      g_notification s' = steady 0 \<and> led_shows (if stale_amber (force_led_amber demo_lights) ?st (steady 0) True then (Some Amber, On)
      else if is_lit ?st \<and> is_lit (steady 0) \<and> last_battery_state demo_lights \<noteq> BATT_FULL then led_spec ?st (steady 0) True
      else led_spec ?st (steady 0) True) s'"
    by (rule led_follows_spec [where name = LIGHT_ID_BATTERY])
       (simp_all add: demo_lights_def open_lights_def known_flash_def steady_def is_lit_def green_of_def)
  moreover have "led_spec ?st (steady 0) True = (Some Amber, On)"
    by (simp add: led_spec_def is_lit_def steady_def green_of_def)
  ultimately show ?thesis by (auto simp: stale_amber_def demo_lights_def)
qed

text \<open>
  The backlight is set to the weighted mean of the three colour bytes, a number from 0 to 255 that does not depend on
  the alpha byte, and for a grey it is the grey level itself; the number is written in decimal with a line end.
\<close>

theorem backlight_brightness:
  assumes "writable E"
  shows "\<exists>v. set_light_backlight E st s =
      (0, s\<lparr>g_backlight := v, writes := writes s @ [(LCD_BACKLIGHT_FILE, dec_string v @ [CHR 0x0A])]\<rparr>) \<and>
    v = (77 * uint (red_of st) + 150 * uint (green_of st) + 29 * uint (blue_of st)) div 256 \<and> 0 \<le> v \<and> v \<le> 255 \<and>
    (red_of st = green_of st \<and> green_of st = blue_of st \<longrightarrow> v = uint (blue_of st))"
proof -
  have "int32_ok (rgb_to_brightness st)" using brightness_bounds [of st] by (simp add: int32_ok_def)
  then have "set_light_backlight E st s = (0, s\<lparr>g_backlight := rgb_to_brightness st,
      writes := writes s @ [(LCD_BACKLIGHT_FILE, dec_string (rgb_to_brightness st) @ [CHR 0x0A])]\<rparr>)"
    using assms by (simp add: set_light_backlight_def int_line_full Let_def)
  then show ?thesis
    using brightness_bounds [of st] rgb_to_brightness_bytes [of st] by (intro exI conjI) (assumption | simp)+
qed

theorem backlight_brightness_witness:
  "\<exists>s'. set_light_backlight (demo_lights_env ''Full'') (steady 0xFF646464) demo_lights = (0, s') \<and> g_backlight s' = 100"
  using backlight_brightness [of "demo_lights_env ''Full''" "steady 0xFF646464" demo_lights]
  by (simp add: red_of_def green_of_def blue_of_def steady_def)

text \<open>
  A charging battery shown in a colour with red and green, such as the framework's yellow, leaves \<open>force_led_amber\<close> set
  although the LED is amber anyway; after the battery light is switched off, a steady green notification then
  lights the amber LED and not the green one.
\<close>

theorem stale_force_led_amber:
  assumes E: "writable E" "status_is ''Charging'' E" "writable E'"
    and y: "flashMode yellow = LIGHT_FLASH_NONE" "red_of yellow \<noteq> 0" "green_of yellow \<noteq> 0"
    and off: "\<not> is_lit dark" and s: "\<not> is_lit (g_notification s)"
    and n: "flashMode alert = LIGHT_FLASH_NONE" "shade alert = Some Green" "green_of alert \<noteq> 0"
  shows "\<exists>s1 s2 s3. set_light_battery E yellow s = Some (0, s1) \<and> set_light_battery E' dark s1 = Some (0, s2) \<and>
    set_light_notifications E' alert s2 = Some (0, s3) \<and> led_shows (Some Amber, On) s3"
proof -
  have lit: "is_lit yellow" using y(2) not_lit_bytes by blast
  have c: "battery_status E = Some BATT_CHARGING" using E(2) by (rule battery_status_known)
  let ?s = "s\<lparr>g_battery := yellow, t_battery_checker := 0, battery_thread_check := False\<rparr>"
  obtain t where t: "check_battery_level E True ?s = Some (True, t)" "g_battery t = yellow"
      "g_notification t = g_notification s"
    using check_battery_level_answer [OF c, of ?s] answer_known(1) by auto
  have not_green: "led_of yellow \<noteq> LED_GREEN" using y by (simp add: led_of_def)
  define s1 where "s1 = set_speaker_light_locked E yellow (start_battery_thread E (t\<lparr>force_led_amber := True\<rparr>))"
  have s1: "set_light_battery E yellow s = Some (0, s1)" "force_led_amber s1" "g_notification s1 = g_notification s"
    using t lit s y not_green by (simp_all add: set_light_battery_def handle_speaker_battery_locked_def s1_def)
  have no: "led_of (g_notification s) = LED_BLANK" using led_of_shade(3) [of "g_notification s"] s not_lit_bytes [OF s]
    by (simp add: shade_def)
  obtain s2 where s2: "set_light_battery E' dark s1 = Some (0, s2)" "force_led_amber s2" "\<not> is_lit (g_battery s2)"
    using handler_battery_off [of "s1\<lparr>g_battery := dark\<rparr>" E'] off s1 no by (simp add: set_light_battery_def)
  have "known_flash alert" using n by (simp add: known_flash_def)
  then show ?thesis
    using s1(1) s2 n speaker_light_shows [OF E(3), of alert "s2\<lparr>g_notification := alert, t_battery_checker := 0, battery_thread_check := False\<rparr>"]
      handler_battery_off [of "s2\<lparr>g_notification := alert\<rparr>" E']
    by (simp add: set_light_notifications_def)
qed

theorem stale_force_led_amber_witness:
  "let E = demo_lights_env ''Charging''; D = demo_lights_env ''Discharging'' in
   \<exists>s1 s2 s3. set_light_battery E (steady 0xFFFFFF00) demo_lights = Some (0, s1) \<and>
     set_light_battery D (steady 0) s1 = Some (0, s2) \<and>
     set_light_notifications D (steady 0xFF00FF00) s2 = Some (0, s3) \<and> led_shows (Some Amber, On) s3"
  unfolding Let_def
  by (rule stale_force_led_amber)
     (simp_all add: steady_def red_of_def green_of_def is_lit_def demo_lights_def shade_def)

text \<open>
  Switching the battery light off does not stop a polling thread that is still waiting for its predecessor. Such a
  thread can go on to its loop, where it sets \<open>battery_thread_check\<close> again, and then it polls for ever unless a
  command of the framework or a full battery stops it: no sequence of steps of the threads leaves the loop.
\<close>

theorem cancelled_poller_polls:
  assumes i: "i < length (bthreads s)" "bthreads s ! i = BWait" "\<not> battery_thread_running s"
    and off: "\<not> is_lit st"
  shows "\<exists>s1 s2. set_light_battery E st s = Some (0, s1) \<and> \<not> battery_thread_check s1 \<and>
    steps (thread_step E) s1 s2 \<and> polling i s2 \<and> (\<forall>s3. steps poller_step s2 s3 \<longrightarrow> polling i s3)"
proof -
  define s1 where "s1 = set_speaker_light_locked E (g_notification s)
    (s\<lparr>g_battery := st, t_battery_checker := 0, battery_thread_check := False\<rparr>)"
  have c: "\<not> battery_thread_check s1"
    unfolding s1_def by (cases "flashMode (g_notification s)"; cases "led_of (g_notification s)"; simp add: set_speaker_light_locked_def Let_def)
  have h: "set_light_battery E st s = Some (0, s1)"
    using handler_battery_off [of "s\<lparr>g_battery := st\<rparr>" E] off by (simp add: set_light_battery_def s1_def)
  let ?s2 = "s1\<lparr>battery_thread_running := True, battery_thread_check := True, bthreads := (bthreads s1)[i := BTest]\<rparr>"
  have st: "steps (thread_step E) s1 ?s2" by (rule poller_starts) (use i in \<open>simp_all add: s1_def\<close>)
  have p: "polling i ?s2" using i off by (simp add: polling_def s1_def)
  then have "\<forall>s3. steps poller_step ?s2 s3 \<longrightarrow> polling i s3" using poller.inv_steps by blast
  with h c st p show ?thesis by blast
qed

theorem cancelled_poller_polls_witness:
  "\<exists>s s1 s2. steps light_step demo_lights s \<and> set_light_battery (demo_lights_env ''Charging'') (steady 0) s = Some (0, s1) \<and>
     steps (thread_step (demo_lights_env ''Charging'')) s1 s2 \<and> polling 0 s2"
proof -
  let ?E = "demo_lights_env ''Charging''"
  have "\<exists>s. set_light_battery ?E (steady 0x0000FF00) demo_lights = Some (0, s) \<and> bthreads s = [BWait] \<and>
      \<not> battery_thread_running s"
    by (simp add: set_light_battery_def handle_speaker_battery_locked_def check_battery_level_def battery_status_known
      start_battery_thread_def demo_lights_def steady_def is_lit_def green_of_def BATT_CHARGING_def BATT_NONE_def BATT_FULL_def)
       (simp add: demo_lights_env_def)
  then obtain s where s: "set_light_battery ?E (steady 0x0000FF00) demo_lights = Some (0, s)" "bthreads s = [BWait]"
      "\<not> battery_thread_running s" by blast
  have "steps light_step demo_lights s"
    by (rule steps_one, rule command [of LIGHT_ID_BATTERY set_light_battery ?E]) (use s in \<open>simp_all add: open_lights_def\<close>)
  then show ?thesis
    using cancelled_poller_polls [of 0 s "steady 0" ?E] s(2,3) by (auto simp: is_lit_def steady_def)
qed

end
