(* ===== verification/Healthd.thy ===== *)
theory Healthd
  imports Lights
begin

text \<open>
  The board part of \<open>healthd\<close>, \<open>healthd/healthd_board_htc-qsd8k.cpp\<close>: the files it tells \<open>healthd\<close> to watch. The structure it
  fills belongs to \<open>healthd\<close>; its remaining fields are those of an arbitrary extension of the record.
\<close>

record healthd_config =
  batteryStatusPath :: string
  batteryHealthPath :: string
  batteryPresentPath :: string
  batteryCapacityPath :: string
  batteryVoltagePath :: string
  batteryTemperaturePath :: string
  batteryTechnologyPath :: string

definition healthd_board_init :: "'a healthd_config_scheme \<Rightarrow> 'a healthd_config_scheme" where
  "healthd_board_init config = config\<lparr>
     batteryStatusPath := ''/sys/class/power_supply/battery/status'',
     batteryHealthPath := ''/sys/class/power_supply/battery/health'',
     batteryPresentPath := ''/sys/class/power_supply/battery/present'',
     batteryCapacityPath := ''/sys/class/power_supply/battery/capacity'',
     batteryVoltagePath := ''/sys/class/power_supply/battery/batt_vol'',
     batteryTemperaturePath := ''/sys/class/power_supply/battery/batt_temp'',
     batteryTechnologyPath := ''/sys/class/power_supply/battery/technology''\<rparr>"

definition healthd_board_battery_update :: "'p \<Rightarrow> int" where
  "healthd_board_battery_update props = 1"

text \<open>The file from which \<open>liblights/lights.c\<close> reads the status of the battery.\<close>

definition BATTERY_STATUS_FILE :: string where
  "BATTERY_STATUS_FILE = ''/sys/class/power_supply/battery/status''"

definition watched :: "'a healthd_config_scheme \<Rightarrow> string list" where
  "watched c = [batteryStatusPath c, batteryHealthPath c, batteryPresentPath c, batteryCapacityPath c, batteryVoltagePath c,
     batteryTemperaturePath c, batteryTechnologyPath c]"

text \<open>The module for the lights and \<open>healthd\<close> watch the same file; the seven files are different; the rest of the structure is
  left alone.\<close>

lemma healthd_paths:
  "batteryStatusPath (healthd_board_init c) = BATTERY_STATUS_FILE" "distinct (watched (healthd_board_init c))"
  "healthd_config.more (healthd_board_init c) = healthd_config.more c" "healthd_board_init (healthd_board_init c) = healthd_board_init c"
  by (simp_all add: healthd_board_init_def BATTERY_STATUS_FILE_def watched_def)

end
