(* ===== verification/Camera_Frames.thy ===== *)
theory Camera_Frames
  imports Prelude
begin

unbundle bit_operations_syntax

text \<open>
  The frame routines of the camera module, \<open>camera/QcomCamera.cpp\<close>: the conversion of a preview frame from YUV 4:2:0
  semi-planar to 32-bit pixels, and the copy of a frame in words. Source and destination are blocks of
  memory; an access outside of its block is \<open>None\<close>. The reference definitions are at the end of the theory: a picture as a
  list of rows, and the copy as a prefix of the source.
\<close>

subsection \<open>Colour conversion\<close>

definition clamp18 :: "int \<Rightarrow> int" where
  "clamp18 x = (if x < 0 then 0 else if x > 262143 then 262143 else x)"

definition rgb_word :: "int \<Rightarrow> int \<Rightarrow> int \<Rightarrow> u32" where
  "rgb_word r g b =
     0xff000000 OR (word_of_int (push_bit 6 b) AND 0xff0000) OR
     (word_of_int (drop_bit 2 g) AND 0xff00) OR (word_of_int (drop_bit 10 r) AND 0xff)"

definition luma :: "u8 \<Rightarrow> int" where
  "luma c = (let y = uint c - 16 in if y < 0 then 0 else y)"

definition chroma :: "u8 \<Rightarrow> int" where
  "chroma c = uint c - 128"

definition yuv_rgb :: "int \<Rightarrow> int \<Rightarrow> int \<Rightarrow> u32" where
  "yuv_rgb y v u =
     (let y1192 = 1192 * y;
          r = y1192 + 1634 * v;
          g = y1192 - 833 * v - 400 * u;
          b = y1192 + 2066 * u
      in rgb_word (clamp18 r) (clamp18 g) (clamp18 b))"

record decoder =
  yp :: int
  uvp :: int
  dec_u :: int
  dec_v :: int
  rgb :: "u32 list"

text \<open>The inner loop, from column \<open>i\<close> on.\<close>

function decode_row :: "u8 list \<Rightarrow> int \<Rightarrow> int \<Rightarrow> decoder \<Rightarrow> decoder option" where
  "decode_row yuv420sp width i d =
     (if i < width then
        do { yc \<leftarrow> mem_get yuv420sp (yp d);
             d \<leftarrow> (if i mod 2 = 0 then
                    do { vc \<leftarrow> mem_get yuv420sp (uvp d);
                         uc \<leftarrow> mem_get yuv420sp (uvp d + 1);
                         Some (d\<lparr>dec_v := chroma vc, dec_u := chroma uc, uvp := uvp d + 2\<rparr>) }
                  else Some d);
             out \<leftarrow> mem_set (rgb d) (yp d) (yuv_rgb (luma yc) (dec_v d) (dec_u d));
             decode_row yuv420sp width (i + 1) (d\<lparr>rgb := out, yp := yp d + 1\<rparr>) }
      else Some d)"
  by pat_completeness auto
termination
  by (relation "measure (\<lambda>(_, w, i, _). nat (w - i))") auto

declare decode_row.simps [simp del]

text \<open>The outer loop, from row \<open>j\<close> on.\<close>

function decode_rows :: "u8 list \<Rightarrow> int \<Rightarrow> int \<Rightarrow> int \<Rightarrow> int \<Rightarrow> decoder \<Rightarrow> decoder option" where
  "decode_rows yuv420sp frameSize width height j d =
     (if j < height then
        do { d \<leftarrow> decode_row yuv420sp width 0 (d\<lparr>uvp := frameSize + j div 2 * width, dec_u := 0, dec_v := 0\<rparr>);
             decode_rows yuv420sp frameSize width height (j + 1) d }
      else Some d)"
  by pat_completeness auto
termination
  by (relation "measure (\<lambda>(_, _, _, h, j, _). nat (h - j))") auto

declare decode_rows.simps [simp del]

definition internal_decode_sw :: "bool \<Rightarrow> u32 list \<Rightarrow> u8 list \<Rightarrow> int \<Rightarrow> int \<Rightarrow> u32 list option" where
  "internal_decode_sw previewEnabled bits yuv420sp width height =
     do { frameSize \<leftarrow> smul width height;
          if \<not> previewEnabled then Some bits
          else map_option rgb (decode_rows yuv420sp frameSize width height 0
            \<lparr>yp = 0, uvp = 0, dec_u = 0, dec_v = 0, rgb = bits\<rparr>) }"

subsection \<open>Copying a frame\<close>

text \<open>Words and bytes, both from element \<open>i\<close> on; prefetching has no effect. A word has four bytes.\<close>

function copy_words :: "u8 list \<Rightarrow> int \<Rightarrow> int \<Rightarrow> u8 list \<Rightarrow> u8 list option" where
  "copy_words src numWords i dest =
     (if i < numWords then
        do { w \<leftarrow> mem_read src (4 * i) 4;
             dest \<leftarrow> mem_write dest (4 * i) w;
             copy_words src numWords (i + 1) dest }
      else Some dest)"
  by pat_completeness auto
termination
  by (relation "measure (\<lambda>(_, n, i, _). nat (n - i))") auto

function copy_bytes :: "u8 list \<Rightarrow> int \<Rightarrow> int \<Rightarrow> int \<Rightarrow> u8 list \<Rightarrow> u8 list option" where
  "copy_bytes src start numBytes i dest =
     (if i < numBytes then
        do { b \<leftarrow> mem_get src (start + i);
             dest \<leftarrow> mem_set dest (start + i) b;
             copy_bytes src start numBytes (i + 1) dest }
      else Some dest)"
  by pat_completeness auto
termination
  by (relation "measure (\<lambda>(_, _, n, i, _). nat (n - i))") auto

declare copy_words.simps [simp del] copy_bytes.simps [simp del]

text \<open>\<open>sizeof\<close> is unsigned, so the quotient and the remainder of \<open>size\<close> are computed modulo \<open>2\<^sup>3\<^sup>2\<close>.\<close>

definition internal_copybuffers_sw :: "u8 list \<Rightarrow> u8 list \<Rightarrow> int \<Rightarrow> u8 list option" where
  "internal_copybuffers_sw dest src bytes =
     (let numWords = bytes mod 2 ^ 32 div 4;
          rest = (bytes - numWords * 4) mod 2 ^ 32
      in do { dest \<leftarrow> copy_words src numWords 0 dest;
              if rest > 0 then copy_bytes src (numWords * 4) rest 0 dest else Some dest })"

subsection \<open>Reference definitions\<close>

text \<open>The pixel in row \<open>j\<close> and column \<open>i\<close>: one chroma pair serves a block of two by two pixels.\<close>

definition yuv_pixel :: "u8 list \<Rightarrow> nat \<Rightarrow> nat \<Rightarrow> nat \<Rightarrow> nat \<Rightarrow> u32" where
  "yuv_pixel yuv w h j i =
     (let c = w * h + j div 2 * w + i div 2 * 2 in
      yuv_rgb (luma (yuv ! (j * w + i))) (chroma (yuv ! c)) (chroma (yuv ! (c + 1))))"

definition yuv_picture :: "u8 list \<Rightarrow> nat \<Rightarrow> nat \<Rightarrow> u32 list" where
  "yuv_picture yuv w h = concat (map (\<lambda>j. map (yuv_pixel yuv w h j) [0..<w]) [0..<h])"

subsection \<open>Lemmas\<close>

lemma mem_get_nth: "i < length m \<Longrightarrow> mem_get m (int i) = Some (m ! i)"
  by (simp add: mem_get_def)

lemma mem_set_nth: "i < length m \<Longrightarrow> mem_set m (int i) v = Some (m[i := v])"
  by (simp add: mem_set_def)

lemma decode_row_step:
  assumes "i < w" "yp d = int p" "p < length yuv" "p < length (rgb d)"
    and "even i \<Longrightarrow> uvp d = int c \<and> c + 1 < length yuv"
  shows "decode_row yuv (int w) (int i) d =
    (let d1 = (if even i then d\<lparr>dec_v := chroma (yuv ! c), dec_u := chroma (yuv ! (c + 1)), uvp := int (c + 2)\<rparr> else d)
     in decode_row yuv (int w) (int (i + 1))
          (d1\<lparr>rgb := (rgb d)[p := yuv_rgb (luma (yuv ! p)) (dec_v d1) (dec_u d1)], yp := int (p + 1)\<rparr>))"
proof -
  have e: "int i mod 2 = 0 \<longleftrightarrow> even i" by presburger
  have c0: "mem_get yuv (int c) = Some (yuv ! c)" if "even i"
    using mem_get_nth [of c yuv] assms(5) that by simp
  have c1: "mem_get yuv (int c + 1) = Some (yuv ! (c + 1))" if "even i"
    using mem_get_nth [of "c + 1" yuv] assms(5) that by (simp add: add.commute)
  show ?thesis
    using assms c0 c1
    by (subst decode_row.simps)
       (simp add: e mem_get_nth mem_set_nth Let_def add.commute cong: if_cong)
qed

lemma update_split: "p < length m \<Longrightarrow> take p m @ x # drop (Suc p) m = m[p := x]"
  by (simp add: upd_conv_take_nth_drop)

lemma decode_row_pixels:
  assumes w: "even w" and i: "i \<le> w" and yp: "yp d = int (p + i)" and uvp: "uvp d = int (q + (i + 1) div 2 * 2)"
    and odd: "odd i \<Longrightarrow> dec_v d = chroma (yuv ! (q + (i - 1))) \<and> dec_u d = chroma (yuv ! (q + i))"
    and yuv: "p + w \<le> length yuv" "q + w \<le> length yuv" and out: "p + w \<le> length (rgb d)"
  shows "\<exists>d'. decode_row yuv (int w) (int i) d = Some d' \<and> yp d' = int (p + w) \<and>
    rgb d' = take (p + i) (rgb d) @
      map (\<lambda>i. yuv_rgb (luma (yuv ! (p + i))) (chroma (yuv ! (q + i div 2 * 2))) (chroma (yuv ! (q + i div 2 * 2 + 1)))) [i..<w] @
      drop (p + w) (rgb d)"
  using i yp uvp odd out
proof (induction "w - i" arbitrary: i d)
  case 0
  then show ?case by (subst decode_row.simps) auto
next
  case (Suc n)
  let ?px = "\<lambda>i. yuv_rgb (luma (yuv ! (p + i))) (chroma (yuv ! (q + i div 2 * 2))) (chroma (yuv ! (q + i div 2 * 2 + 1)))"
  have iw: "i < w" using Suc.hyps(2) by simp
  have ev: "i + 1 < w" if "even i" using iw w that by presburger
  have e2: "(i + 1) div 2 * 2 = i" "i div 2 * 2 = i" if "even i" using that by presburger+
  have o2: "(i + 2) div 2 * 2 = i + 1" "i div 2 * 2 = i - 1" "0 < i" if "odd i" using that by presburger+
  define d1 where "d1 = (if even i then
    d\<lparr>dec_v := chroma (yuv ! (q + i)), dec_u := chroma (yuv ! (q + i + 1)), uvp := int (q + i + 2)\<rparr> else d)"
  define d2 where "d2 = d1\<lparr>rgb := (rgb d)[p + i := ?px i], yp := int (p + i + 1)\<rparr>"
  have dv: "dec_v d1 = chroma (yuv ! (q + i div 2 * 2))" "dec_u d1 = chroma (yuv ! (q + i div 2 * 2 + 1))"
    using Suc.prems(4) e2 o2 by (auto simp: d1_def)
  have step: "decode_row yuv (int w) (int i) d = decode_row yuv (int w) (int (i + 1)) d2"
    unfolding d2_def dv [symmetric] unfolding d1_def
    by (rule decode_row_step [of i w d "p + i" yuv "q + i", unfolded Let_def])
       (use Suc.prems yuv iw ev e2 in \<open>auto simp: add.assoc\<close>)
  have "\<exists>d'. decode_row yuv (int w) (int (i + 1)) d2 = Some d' \<and> yp d' = int (p + w) \<and>
      rgb d' = take (p + (i + 1)) (rgb d2) @ map ?px [i + 1..<w] @ drop (p + w) (rgb d2)"
  proof (rule Suc.hyps(1))
    show "uvp d2 = int (q + (i + 1 + 1) div 2 * 2)"
      using Suc.prems(3) e2 o2 by (cases "even i") (auto simp: d1_def d2_def)
    show "dec_v d2 = chroma (yuv ! (q + (i + 1 - 1))) \<and> dec_u d2 = chroma (yuv ! (q + (i + 1)))" if "odd (i + 1)"
      using that by (simp add: d1_def d2_def)
  qed (use Suc.hyps(2) Suc.prems iw in \<open>simp_all add: d2_def\<close>)
  moreover have "take (p + (i + 1)) (rgb d2) = take (p + i) (rgb d) @ [?px i]"
    using Suc.prems(5) iw by (simp add: d2_def take_Suc_conv_app_nth)
  moreover have "drop (p + w) (rgb d2) = drop (p + w) (rgb d)" using iw by (simp add: d2_def)
  moreover have "[i..<w] = i # [i + 1..<w]" using iw by (simp add: upt_conv_Cons)
  ultimately show ?case unfolding step by auto
qed

lemma decode_rows_picture:
  assumes w: "even w" and j: "j \<le> h" and yp: "yp d = int (j * w)"
    and yuv: "w * h + (h + 1) div 2 * w \<le> length yuv" and out: "w * h \<le> length (rgb d)"
  shows "map_option rgb (decode_rows yuv (int (w * h)) (int w) (int h) (int j) d) =
    Some (take (j * w) (rgb d) @ concat (map (\<lambda>j. map (yuv_pixel yuv w h j) [0..<w]) [j..<h]) @ drop (w * h) (rgb d))"
  using j yp out
proof (induction "h - j" arbitrary: j d)
  case 0
  then show ?case by (subst decode_rows.simps) (simp add: mult.commute)
next
  case (Suc n)
  have jh: "j < h" using Suc.hyps(2) by simp
  let ?d = "d\<lparr>uvp := int (w * h) + int j div 2 * int w, dec_u := 0, dec_v := 0\<rparr>"
  have row: "j * w + w \<le> w * h" using mult_le_mono1 [of "Suc j" h w] jh by (simp add: mult.commute add.commute)
  have "(j div 2 + 1) * w \<le> (h + 1) div 2 * w" by (rule mult_le_mono1) (use jh in presburger)
  then have chr: "w * h + j div 2 * w + w \<le> length yuv" using yuv by (simp add: algebra_simps)
  have y: "j * w + w \<le> length yuv" using row yuv by linarith
  have u: "uvp ?d = int (w * h + j div 2 * w)" by (simp add: zdiv_int)
  obtain d' where d': "decode_row yuv (int w) (int 0) ?d = Some d'" "yp d' = int (j * w + w)"
      "rgb d' = take (j * w) (rgb d) @ map (yuv_pixel yuv w h j) [0..<w] @ drop (j * w + w) (rgb d)"
    using decode_row_pixels [OF w, of 0 ?d "j * w" "w * h + j div 2 * w" yuv] Suc.prems row chr y u
    by (auto simp: yuv_pixel_def Let_def)
  have len: "length (rgb d') = length (rgb d)" using d'(3) row Suc.prems(3) by simp
  have "decode_rows yuv (int (w * h)) (int w) (int h) (int j) d =
      decode_rows yuv (int (w * h)) (int w) (int h) (int (j + 1)) d'"
    using jh d'(1) by (subst decode_rows.simps) (simp add: add.commute)
  moreover have "map_option rgb (decode_rows yuv (int (w * h)) (int w) (int h) (int (j + 1)) d') =
      Some (take ((j + 1) * w) (rgb d') @ concat (map (\<lambda>j. map (yuv_pixel yuv w h j) [0..<w]) [j + 1..<h]) @
        drop (w * h) (rgb d'))"
    by (rule Suc.hyps(1)) (use Suc.hyps(2) Suc.prems d'(2) len jh in \<open>simp_all add: add.commute\<close>)
  moreover have "take ((j + 1) * w) (rgb d') = take (j * w) (rgb d) @ map (yuv_pixel yuv w h j) [0..<w]"
    using row Suc.prems(3) by (simp add: d'(3) min_def)
  moreover have "drop (w * h) (rgb d') = drop (w * h) (rgb d)"
    using row Suc.prems(3) jh by (simp add: d'(3) min_def)
  moreover have "[j..<h] = j # [j + 1..<h]" using jh by (simp add: upt_conv_Cons)
  ultimately show ?case by simp
qed

lemma copy_words_take:
  assumes "4 * n \<le> length src" "4 * n \<le> length dest" "i \<le> n"
  shows "copy_words src (int n) (int i) (take (4 * i) src @ drop (4 * i) dest) = Some (take (4 * n) src @ drop (4 * n) dest)"
  using assms(3)
proof (induction "n - i" arbitrary: i)
  case 0
  then show ?case by (subst copy_words.simps) simp
next
  case (Suc k)
  have i: "i < n" using Suc.hyps(2) by simp
  let ?m = "take (4 * i) src @ drop (4 * i) dest"
  have r: "mem_read src (4 * int i) 4 = Some (take 4 (drop (4 * i) src))"
    using i assms by (simp add: mem_read_def nat_mult_distrib)
  have "mem_write ?m (4 * int i) ws = Some (take (4 * i) src @ ws @ drop (4 * i + 4) dest)" if "length ws = 4" for ws
    using i assms that by (simp add: mem_write_def nat_mult_distrib min_def add.commute)
  from this [of "take 4 (drop (4 * i) src)"]
  have "mem_write ?m (4 * int i) (take 4 (drop (4 * i) src)) = Some (take (4 * i) src @ take 4 (drop (4 * i) src) @ drop (4 * i + 4) dest)"
    using i assms by simp
  also have "take (4 * i) src @ take 4 (drop (4 * i) src) @ drop (4 * i + 4) dest = take (4 * (i + 1)) src @ drop (4 * (i + 1)) dest"
    using take_add [of "4 * i" 4 src] by (simp add: add.commute)
  finally have wr: "mem_write ?m (4 * int i) (take 4 (drop (4 * i) src)) = Some (take (4 * (i + 1)) src @ drop (4 * (i + 1)) dest)" .
  have ih: "copy_words src (int n) (int (i + 1)) (take (4 * (i + 1)) src @ drop (4 * (i + 1)) dest) =
      Some (take (4 * n) src @ drop (4 * n) dest)"
    by (rule Suc.hyps(1)) (use Suc.hyps(2) in simp_all)
  have j: "int i + 1 = int (i + 1)" by simp
  show ?case using i r wr ih by (subst copy_words.simps) (simp only: j of_nat_less_iff if_True bind.bind_lunit)
qed

lemma copy_bytes_take:
  assumes "s + n \<le> length src" "s + n \<le> length dest" "i \<le> n"
  shows "copy_bytes src (int s) (int n) (int i) (take (s + i) src @ drop (s + i) dest) = Some (take (s + n) src @ drop (s + n) dest)"
  using assms(3)
proof (induction "n - i" arbitrary: i)
  case 0
  then show ?case by (subst copy_bytes.simps) simp
next
  case (Suc k)
  have i: "i < n" using Suc.hyps(2) by simp
  let ?m = "take (s + i) src @ drop (s + i) dest"
  have g: "mem_get src (int s + int i) = Some (src ! (s + i))"
    using mem_get_nth [of "s + i" src] i assms by simp
  have "?m[s + i := src ! (s + i)] = take (s + (i + 1)) src @ drop (s + (i + 1)) dest"
    using i assms by (simp add: list_update_append min_def take_Suc_conv_app_nth Cons_nth_drop_Suc [symmetric])
  then have wr: "mem_set ?m (int s + int i) (src ! (s + i)) = Some (take (s + (i + 1)) src @ drop (s + (i + 1)) dest)"
    using mem_set_nth [of "s + i" ?m "src ! (s + i)"] i assms by simp
  have ih: "copy_bytes src (int s) (int n) (int (i + 1)) (take (s + (i + 1)) src @ drop (s + (i + 1)) dest) =
      Some (take (s + n) src @ drop (s + n) dest)"
    by (rule Suc.hyps(1)) (use Suc.hyps(2) in simp_all)
  have j: "int i + 1 = int (i + 1)" by simp
  show ?case using i g wr ih by (subst copy_bytes.simps) (simp only: j of_nat_less_iff if_True bind.bind_lunit)
qed

lemma copy_quotient:
  assumes "n < 2 ^ 31"
  shows "int n mod 2 ^ 32 div 4 = int (n div 4)" "(int n - int (n div 4) * 4) mod 2 ^ 32 = int (n mod 4)"
proof -
  show "int n mod 2 ^ 32 div 4 = int (n div 4)" using assms by (simp add: zdiv_int)
  have "int n - int (n div 4) * 4 = int (n mod 4)" by (simp add: zmod_int zdiv_int minus_div_mult_eq_mod)
  then show "(int n - int (n div 4) * 4) mod 2 ^ 32 = int (n mod 4)" by simp
qed

lemma copybuffers_prefix:
  assumes "n \<le> length src" "n \<le> length dest" "n < 2 ^ 31"
  shows "internal_copybuffers_sw dest src (int n) = Some (take n src @ drop n dest)"
proof -
  note q = copy_quotient [OF assms(3)]
  have n: "n div 4 * 4 + n mod 4 = n" by simp
  have b4: "int (n div 4) * 4 = int (n div 4 * 4)" by simp
  have w: "copy_words src (int (n div 4)) 0 dest = Some (take (n div 4 * 4) src @ drop (n div 4 * 4) dest)"
    using copy_words_take [of "n div 4" src dest 0] assms by (simp add: mult.commute)
  show ?thesis
  proof (cases "n mod 4 = 0")
    case True
    then show ?thesis using w n unfolding internal_copybuffers_sw_def Let_def q by simp
  next
    case False
    then show ?thesis
      using w n copy_bytes_take [of "n div 4 * 4" "n mod 4" src dest 0] assms
      unfolding internal_copybuffers_sw_def Let_def q unfolding b4 by simp
  qed
qed

subsection \<open>Properties\<close>

lemma decode_picture:
  assumes "even w" "w * h + (h + 1) div 2 * w \<le> length yuv" "w * h \<le> length bits" "w * h < 2 ^ 31"
  shows "internal_decode_sw True bits yuv (int w) (int h) = Some (yuv_picture yuv w h @ drop (w * h) bits)"
proof -
  let ?d = "\<lparr>yp = 0, uvp = 0, dec_u = 0, dec_v = 0, rgb = bits\<rparr>"
  have "smul (int w) (int h) = Some (int (w * h))" using assms(4) smul_small [of "int w" "int h"]
    by (simp add: int32_ok_def flip: of_nat_mult)
  moreover have "map_option rgb (decode_rows yuv (int (w * h)) (int w) (int h) 0 ?d) =
      Some (yuv_picture yuv w h @ drop (w * h) bits)"
    using decode_rows_picture [of w 0 h ?d yuv] assms by (simp add: yuv_picture_def)
  ultimately show ?thesis by (simp add: internal_decode_sw_def)
qed

lemma length_yuv_picture [simp]: "length (yuv_picture yuv w h) = w * h"
  by (simp add: yuv_picture_def length_concat comp_def sum_list_triv mult.commute)

lemma rows_nth:
  assumes "j < h" "i < w"
  shows "concat (map (\<lambda>j. map (f j) [0..<w]) [0..<h]) ! (j * w + i) = f j i"
  using assms(1)
proof (induction h)
  case (Suc h)
  let ?c = "concat (map (\<lambda>j. map (f j) [0..<w]) [0..<h])"
  have l: "length ?c = h * w" by (simp add: length_concat comp_def sum_list_triv)
  show ?case
  proof (cases "j = h")
    case True
    then show ?thesis using l assms(2) by (simp add: nth_append)
  next
    case False
    then have j: "j < h" using Suc.prems by simp
    have "j * w + i < h * w" using j assms(2) mult_le_mono1 [of "Suc j" h w] by simp
    then show ?thesis using Suc.IH [OF j] l by (simp add: nth_append)
  qed
qed simp

text \<open>
  C34: the conversion of a preview frame returns, stays within both buffers and computes every pixel from its own luma byte
  and the chroma pair of its block of two by two pixels, for an even width, a source that holds the frame, a destination
  that holds the pixels and a number of pixels that fits into \<open>int\<close>; what follows the picture in the
  destination is unchanged.
\<close>

theorem decode_sw_correct:
  assumes "even w" "w * h + (h + 1) div 2 * w \<le> length yuv" "w * h \<le> length bits" "w * h < 2 ^ 31"
  shows "\<exists>out. internal_decode_sw True bits yuv (int w) (int h) = Some out \<and> length out = length bits \<and>
    (\<forall>j<h. \<forall>i<w. out ! (j * w + i) = yuv_pixel yuv w h j i) \<and> (\<forall>k\<ge>w * h. k < length bits \<longrightarrow> out ! k = bits ! k)"
proof -
  have "(yuv_picture yuv w h @ drop (w * h) bits) ! (j * w + i) = yuv_pixel yuv w h j i" if "j < h" "i < w" for i j
  proof -
    have "j * w + i < w * h" using that mult_le_mono1 [of "Suc j" h w] by (simp add: mult.commute)
    then show ?thesis using rows_nth [OF that, of "yuv_pixel yuv w h"] by (simp add: nth_append yuv_picture_def [symmetric])
  qed
  then show ?thesis using decode_picture [OF assms] assms(3) by (auto simp: nth_append)
qed

theorem decode_sw_correct_witness:
  "\<exists>out. internal_decode_sw True [0, 0, 0, 0, 7] [16, 235, 50, 60, 128, 128] 2 2 = Some out \<and> length out = 5 \<and>
     out ! 0 = 0xff000000 \<and> out ! 3 = 0xff333333 \<and> out ! 4 = 7"
proof -
  let ?yuv = "[16, 235, 50, 60, 128, 128] :: u8 list" and ?bits = "[0, 0, 0, 0, 7] :: u32 list"
  obtain out where out: "internal_decode_sw True ?bits ?yuv 2 2 = Some out" "length out = 5"
      "\<forall>j<2. \<forall>i<2. out ! (j * 2 + i) = yuv_pixel ?yuv 2 2 j i" "\<forall>k\<ge>4. k < 5 \<longrightarrow> out ! k = ?bits ! k"
    using decode_sw_correct [of 2 2 ?yuv ?bits] by auto
  have "yuv_pixel ?yuv 2 2 0 0 = 0xff000000" "yuv_pixel ?yuv 2 2 1 1 = 0xff333333" by code_simp+
  then show ?thesis using out(1,2) out(3) [rule_format, of 0 0] out(3) [rule_format, of 1 1] out(4) [rule_format, of 4] by simp
qed

lemma copy_words_overrun:
  assumes "4 * i \<le> length src" "4 * i \<le> length m" "i \<le> n" "4 * n > length src \<or> 4 * n > length m"
  shows "copy_words src (int n) (int i) m = None"
  using assms
proof (induction "n - i" arbitrary: i m)
  case 0
  then show ?case by auto
next
  case (Suc k)
  have i: "i < n" using Suc.hyps(2) by simp
  show ?case
  proof (cases "do { w \<leftarrow> mem_read src (4 * int i) 4; mem_write m (4 * int i) w }")
    case None
    then show ?thesis using i by (subst copy_words.simps) (auto split: Option.bind_splits)
  next
    case (Some m')
    then obtain w where w: "mem_read src (4 * int i) 4 = Some w" "mem_write m (4 * int i) w = Some m'"
      by (auto split: Option.bind_splits)
    have "4 * (i + 1) \<le> length src" "4 * (i + 1) \<le> length m'" "length m' = length m"
      using w mem_read_length [OF w(1)] mem_write_length [OF w(2)]
      by (auto simp: mem_read_def mem_write_def split: if_splits)
    then have "copy_words src (int n) (int (i + 1)) m' = None"
      by (intro Suc.hyps(1)) (use Suc.hyps(2) Suc.prems in auto)
    then show ?thesis using i w by (subst copy_words.simps) (simp add: add.commute)
  qed
qed

lemma copy_bytes_overrun:
  assumes "s + i \<le> length src" "s + i \<le> length m" "i \<le> n" "s + n > length src \<or> s + n > length m"
  shows "copy_bytes src (int s) (int n) (int i) m = None"
  using assms
proof (induction "n - i" arbitrary: i m)
  case 0
  then show ?case by auto
next
  case (Suc k)
  have i: "i < n" using Suc.hyps(2) by simp
  show ?case
  proof (cases "do { b \<leftarrow> mem_get src (int s + int i); mem_set m (int s + int i) b }")
    case None
    then show ?thesis using i by (subst copy_bytes.simps) (auto split: Option.bind_splits)
  next
    case (Some m')
    then obtain b where b: "mem_get src (int s + int i) = Some b" "mem_set m (int s + int i) b = Some m'"
      by (auto split: Option.bind_splits)
    have "s + (i + 1) \<le> length src" "s + (i + 1) \<le> length m'" "length m' = length m"
      using b by (auto simp: mem_get_def mem_set_def split: if_splits)
    then have "copy_bytes src (int s) (int n) (int (i + 1)) m' = None"
      by (intro Suc.hyps(1)) (use Suc.hyps(2) Suc.prems in auto)
    then show ?thesis using i b by (subst copy_bytes.simps) (simp add: add.commute)
  qed
qed

text \<open>
  C36: for every size that fits into \<open>int\<close> the copy of a frame in words and trailing bytes is the plain copy: when both blocks
  hold that many bytes it returns and replaces exactly the first bytes of the destination by those of the
  source; otherwise it leaves one of them.
\<close>

theorem copybuffers_sw_correct:
  assumes "n < 2 ^ 31"
  shows "internal_copybuffers_sw dest src (int n) =
    (if n \<le> length src \<and> n \<le> length dest then Some (take n src @ drop n dest) else None)"
proof (cases "n \<le> length src \<and> n \<le> length dest")
  case True
  then show ?thesis using copybuffers_prefix assms by simp
next
  case False
  have n: "n div 4 * 4 + n mod 4 = n" by simp
  note q = copy_quotient [OF assms]
  show ?thesis
  proof (cases "4 * (n div 4) > length src \<or> 4 * (n div 4) > length dest")
    case True
    then have "copy_words src (int (n div 4)) 0 dest = None" using copy_words_overrun [of 0 src dest "n div 4"] by simp
    then show ?thesis using False unfolding internal_copybuffers_sw_def Let_def q by simp
  next
    case fits: False
    then have w: "copy_words src (int (n div 4)) 0 dest = Some (take (4 * (n div 4)) src @ drop (4 * (n div 4)) dest)"
      using copy_words_take [of "n div 4" src dest 0] by simp
    have "n mod 4 > 0" using False fits n by (metis add.right_neutral mult.commute neq0_conv not_less)
    moreover have "copy_bytes src (int (n div 4 * 4)) (int (n mod 4)) 0 (take (4 * (n div 4)) src @ drop (4 * (n div 4)) dest) = None"
      using copy_bytes_overrun [of "n div 4 * 4" 0 src "take (4 * (n div 4)) src @ drop (4 * (n div 4)) dest" "n mod 4"] fits False n
      by (auto simp: mult.commute not_le not_less)
    ultimately show ?thesis using False w
      unfolding internal_copybuffers_sw_def Let_def q unfolding of_nat_mult by simp
  qed
qed

theorem copybuffers_sw_correct_witness:
  "internal_copybuffers_sw [0, 0, 0, 0, 0, 0, 0, 0] [1, 2, 3, 4, 5, 6, 7, 8] 6 = Some [1, 2, 3, 4, 5, 6, 0, 0]"
  using copybuffers_sw_correct [of 6 "[0, 0, 0, 0, 0, 0, 0, 0]" "[1, 2, 3, 4, 5, 6, 7, 8]"] by simp

text \<open>With an odd width the last pair of the last row reads one byte behind the frame.\<close>

lemma decode_odd_width_overruns: "internal_decode_sw True [0, 0] [16, 16, 128] 1 2 = None"
  by code_simp

end
