(* ===== verification/Camera_Hal.thy ===== *)
theory Camera_Hal
  imports Camera_Frames Gps_Conf Input_Reader
begin

unbundle bit_operations_syntax

text \<open>
  The camera module, \<open>camera/QcomCamera.cpp\<close>: the functions of the device, the callbacks of the camera object, the preview
  window and the parameters.

  The camera object is the vendor's implementation of \<open>CameraHardwareInterface\<close>; its methods, the message flags and the
  functions of the parameter class are fields of \<open>camera_env\<close>, a parameter. How window, buffer mapper and the
  client's allocator answer during one callback is the parameter \<open>frame_env\<close>. What the module does to
  the window and the client is recorded in \<open>cs_log\<close>. A call through a null pointer is \<open>None\<close>. Log output is left out.
\<close>

subsection \<open>State\<close>

datatype cam_key =
  KEY_VIDEO_FRAME_FORMAT | KEY_SUPPORTED_PREVIEW_SIZES | KEY_SUPPORTED_VIDEO_SIZES | KEY_VIDEO_SIZE
  | KEY_PREFERRED_PREVIEW_SIZE_FOR_VIDEO | KEY_SUPPORTED_PREVIEW_FRAME_RATES | KEY_PREVIEW_FRAME_RATE
  | KEY_SUPPORTED_PREVIEW_FPS_RANGE | other_key string

type_synonym cam_params = "cam_key \<rightharpoonup> string"

text \<open>A frame of the camera: a part of a heap.\<close>

record frame =
  fr_heap :: "u8 list option"
  fr_offset :: int
  fr_size :: nat

record 'q camera_env =
  q_setCallbacks :: "'q \<Rightarrow> 'q"
  q_enableMsgType :: "u32 \<Rightarrow> 'q \<Rightarrow> 'q"
  q_disableMsgType :: "u32 \<Rightarrow> 'q \<Rightarrow> 'q"
  q_msgTypeEnabled :: "u32 \<Rightarrow> 'q \<Rightarrow> bool"
  q_startPreview :: "'q \<Rightarrow> int \<times> 'q"
  q_stopPreview :: "'q \<Rightarrow> 'q"
  q_previewEnabled :: "'q \<Rightarrow> bool"
  q_startRecording :: "'q \<Rightarrow> int \<times> 'q"
  q_stopRecording :: "'q \<Rightarrow> 'q"
  q_recordingEnabled :: "'q \<Rightarrow> bool"
  q_releaseRecordingFrame :: "frame \<Rightarrow> 'q \<Rightarrow> 'q"
  q_autoFocus :: "'q \<Rightarrow> int \<times> 'q"
  q_cancelAutoFocus :: "'q \<Rightarrow> int \<times> 'q"
  q_takePicture :: "'q \<Rightarrow> int \<times> 'q"
  q_cancelPicture :: "'q \<Rightarrow> int \<times> 'q"
  q_setParameters :: "cam_params \<Rightarrow> 'q \<Rightarrow> int \<times> 'q"
  q_getParameters :: "'q \<Rightarrow> cam_params"
  q_sendCommand :: "int \<Rightarrow> int \<Rightarrow> int \<Rightarrow> 'q \<Rightarrow> int \<times> 'q"
  q_release :: "'q \<Rightarrow> 'q"
  q_dump :: "int \<Rightarrow> 'q \<Rightarrow> int"
  CAMERA_MSG_SHUTTER :: u32
  CAMERA_MSG_PREVIEW_FRAME :: u32
  CAMERA_MSG_VIDEO_FRAME :: u32
  CAMERA_MSG_POSTVIEW_FRAME :: u32
  CAMERA_MSG_RAW_IMAGE :: u32
  CAMERA_MSG_COMPRESSED_IMAGE :: u32
  CAMERA_MSG_RAW_IMAGE_NOTIFY :: u32
  CAMERA_MSG_PREVIEW_METADATA :: u32
  CAMERA_CMD_ENABLE_FOCUS_MOVE_MSG :: int
  CAMERA_FACING_BACK :: int
  PIXEL_FORMAT_YUV420SP :: string
  cp_flatten :: "cam_params \<Rightarrow> string"
  cp_unflatten :: "string \<Rightarrow> cam_params"
  cp_getPreviewSize :: "cam_params \<Rightarrow> int \<times> int"
  dl_libcamera :: bool
  dl_symbol :: "string \<Rightarrow> bool"
  LINK_getNumberofCameras :: int
  LINK_getCameraInfo :: "int \<Rightarrow> int \<times> int"
  LINK_openCameraHardware :: "int \<Rightarrow> 'q option"
  malloc_device :: bool

record frame_env =
  fe_geometry :: int
  fe_dequeue :: int
  fe_handle :: nat
  fe_stride :: int
  fe_lock :: int
  fe_map :: "u32 list option"
  fe_alloc :: "nat \<Rightarrow> u8 list option"

datatype cam_event =
  WinUsage | WinGeometry int int | WinDequeue nat int | WinLock nat | WinMap nat | WinUnmap nat "u32 list"
  | WinEnqueue nat | WinCancel nat
  | ClientNotify u32 int int | ClientData u32 "u8 list" | ClientFrame int u32 "u8 list" | ClientRelease

record 'q camera_state =
  origNotify_cb :: bool
  origData_cb :: bool
  origDataTS_cb :: bool
  origCamReqMemory :: bool
  mWindow :: bool
  camSettings :: cam_params
  qCamera :: "'q option"
  cs_log :: "cam_event list"

definition cam_log :: "cam_event list \<Rightarrow> 'q camera_state \<Rightarrow> 'q camera_state" where
  "cam_log es s = s\<lparr>cs_log := cs_log s @ es\<rparr>"

text \<open>A method of the camera object that changes it.\<close>

definition on_camera :: "('q \<Rightarrow> 'q) \<Rightarrow> 'q camera_state \<Rightarrow> 'q camera_state option" where
  "on_camera f s = (case qCamera s of None \<Rightarrow> None | Some q \<Rightarrow> Some (s\<lparr>qCamera := Some (f q)\<rparr>))"

subsection \<open>Frames\<close>

definition frame_base :: "frame \<Rightarrow> u8 list option" where
  "frame_base f =
     do { heap \<leftarrow> fr_heap f;
          if 0 \<le> fr_offset f \<and> fr_offset f \<le> int (length heap) then Some (drop (nat (fr_offset f)) heap) else None }"

definition internal_handle_preview ::
  "'q camera_env \<Rightarrow> frame_env \<Rightarrow> frame \<Rightarrow> int \<Rightarrow> int \<Rightarrow> 'q camera_state \<Rightarrow> 'q camera_state option" where
  "internal_handle_preview K F dataPtr previewWidth previewHeight s =
     (if mWindow s \<and> origCamReqMemory s then
        let s = cam_log [WinUsage, WinGeometry previewWidth previewHeight] s in
        if fe_geometry F = 0 then
          if fe_dequeue F = 0 then
            let h = fe_handle F; stride = fe_stride F; s = cam_log [WinDequeue h stride, WinLock h] s in
            if fe_lock F = 0 then
              do { bits \<leftarrow> fe_map F;
                   base \<leftarrow> frame_base dataPtr;
                   q \<leftarrow> qCamera s;
                   out \<leftarrow> internal_decode_sw (q_previewEnabled K q) bits base previewWidth previewHeight;
                   Some (cam_log [WinMap h, WinUnmap h out, WinEnqueue h] s) }
            else Some (cam_log [WinCancel h] s)
          else Some s
        else Some s
      else Some s)"

text \<open>The outer option is a failure, the inner one the pointer to the client's memory.\<close>

definition internal_generate_client_data :: "frame_env \<Rightarrow> frame \<Rightarrow> u8 list option option" where
  "internal_generate_client_data F dataPtr =
     (case fe_alloc F (fr_size dataPtr) of
        None \<Rightarrow> Some None
      | Some mem \<Rightarrow>
          do { base \<leftarrow> frame_base dataPtr;
               copy \<leftarrow> internal_copybuffers_sw mem base (sint (of_nat (fr_size dataPtr) :: u32));
               Some (Some copy) })"

definition cam_notify_callback :: "u32 \<Rightarrow> int \<Rightarrow> int \<Rightarrow> 'q camera_state \<Rightarrow> 'q camera_state" where
  "cam_notify_callback msg_type ext1 ext2 s =
     (if origNotify_cb s then cam_log [ClientNotify msg_type ext1 ext2] s else s)"

definition cam_data_callback ::
  "'q camera_env \<Rightarrow> frame_env \<Rightarrow> u32 \<Rightarrow> frame \<Rightarrow> 'q camera_state \<Rightarrow> 'q camera_state option" where
  "cam_data_callback K F msgType dataPtr s =
     do { s \<leftarrow> (if msgType = CAMERA_MSG_PREVIEW_FRAME K then
                do { q \<leftarrow> qCamera s;
                     let (previewWidth, previewHeight) = cp_getPreviewSize K (q_getParameters K q) in
                     internal_handle_preview K F dataPtr previewWidth previewHeight s }
              else Some s);
          if origData_cb s \<and> origCamReqMemory s then
            do { clientData \<leftarrow> internal_generate_client_data F dataPtr;
                 case clientData of
                   None \<Rightarrow> Some s
                 | Some c \<Rightarrow> Some (cam_log [ClientData msgType c, ClientRelease] s) }
          else Some s }"

definition cam_data_callback_timestamp ::
  "'q camera_env \<Rightarrow> frame_env \<Rightarrow> int \<Rightarrow> u32 \<Rightarrow> frame \<Rightarrow> 'q camera_state \<Rightarrow> 'q camera_state option" where
  "cam_data_callback_timestamp K F timestamp msgType dataPtr s =
     (if origDataTS_cb s \<and> origCamReqMemory s then
        do { clientData \<leftarrow> internal_generate_client_data F dataPtr;
             case clientData of
               None \<Rightarrow> Some s
             | Some c \<Rightarrow>
                 do { s \<leftarrow> on_camera (q_releaseRecordingFrame K dataPtr) (cam_log [ClientFrame timestamp msgType c] s);
                      Some (cam_log [ClientRelease] s) } }
      else Some s)"

subsection \<open>Parameters\<close>

definition preview_sizes :: string where
  "preview_sizes = ''1280x720,800x480,768x432,720x480,640x480,576x432,480x320,384x288,352x288,320x240,240x160,176x144''"
definition video_sizes :: string where
  "video_sizes = ''1280x720,800x480,720x480,640x480,352x288,320x240,176x144''"
definition preferred_size :: string where "preferred_size = ''640x480''"
definition preview_frame_rates :: string where "preview_frame_rates = ''30,27,24,15''"
definition preferred_frame_rate :: string where "preferred_frame_rate = ''15''"
definition frame_rate_range :: string where "frame_rate_range = ''(15,30)''"

definition set_default :: "cam_key \<Rightarrow> string \<Rightarrow> cam_params \<Rightarrow> cam_params" where
  "set_default k v settings = (if settings k = None then settings(k \<mapsto> v) else settings)"

definition internal_fixup_settings :: "'q camera_env \<Rightarrow> cam_params \<Rightarrow> cam_params" where
  "internal_fixup_settings K settings =
     (let settings = settings(KEY_VIDEO_FRAME_FORMAT \<mapsto> PIXEL_FORMAT_YUV420SP K);
          settings = set_default KEY_SUPPORTED_PREVIEW_SIZES preview_sizes settings;
          settings = set_default KEY_SUPPORTED_VIDEO_SIZES video_sizes settings;
          settings = set_default KEY_VIDEO_SIZE preferred_size settings;
          settings = set_default KEY_PREFERRED_PREVIEW_SIZE_FOR_VIDEO preferred_size settings;
          settings = set_default KEY_SUPPORTED_PREVIEW_FRAME_RATES preview_frame_rates settings;
          settings = set_default KEY_PREVIEW_FRAME_RATE preferred_frame_rate settings
      in set_default KEY_SUPPORTED_PREVIEW_FPS_RANGE frame_rate_range settings)"

definition set_parameters :: "'q camera_env \<Rightarrow> string \<Rightarrow> 'q camera_state \<Rightarrow> (int \<times> 'q camera_state) option" where
  "set_parameters K params s =
     (let s = s\<lparr>camSettings := cp_unflatten K params\<rparr> in
      do { s \<leftarrow> on_camera (\<lambda>q. snd (q_setParameters K (camSettings s) q)) s; Some (0, s) })"

definition get_parameters :: "'q camera_env \<Rightarrow> 'q camera_state \<Rightarrow> (string \<times> 'q camera_state) option" where
  "get_parameters K s =
     do { q \<leftarrow> qCamera s;
          let s = s\<lparr>camSettings := internal_fixup_settings K (q_getParameters K q)\<rparr> in
          Some (cp_flatten K (camSettings s), s) }"

subsection \<open>Opening and closing\<close>

definition get_number_of_cameras :: "'q camera_env \<Rightarrow> int" where
  "get_number_of_cameras K =
     (if dl_libcamera K \<and> dl_symbol K ''HAL_getNumberOfCameras'' then LINK_getNumberofCameras K else 1)"

text \<open>The result and facing and orientation of the camera, when they are set.\<close>

definition get_camera_info :: "'q camera_env \<Rightarrow> int \<Rightarrow> int \<times> (int \<times> int) option" where
  "get_camera_info K camera_id =
     (if \<not> dl_libcamera K then (EINVAL_code, None)
      else if dl_symbol K ''HAL_getCameraInfo'' then (0, Some (LINK_getCameraInfo K camera_id))
      else (0, Some (CAMERA_FACING_BACK K, 90)))"

text \<open>
  The arguments are the pointers \<open>module\<close>, \<open>id\<close> and \<open>hw_device\<close>. The result is the status and what is stored through
  \<open>hw_device\<close>: nothing, or whether the device exists.
\<close>

definition camera_device_open ::
  "'q camera_env \<Rightarrow> bool \<Rightarrow> string option \<Rightarrow> bool \<Rightarrow> 'q camera_state \<Rightarrow> (int \<times> bool option \<times> 'q camera_state) option" where
  "camera_device_open K module idp hw_device s =
     (case idp of
        Some ids \<Rightarrow>
          if module \<and> hw_device then
            do { cameraId \<leftarrow> atoi (ids @ [NUL]);
                 if dl_libcamera K then
                   if dl_symbol K ''openCameraHardware'' then
                     let s = s\<lparr>qCamera := LINK_openCameraHardware K cameraId\<rparr> in
                     Some (if malloc_device K then (0, Some True, s) else (- 1, Some False, s))
                   else Some (- 1, None, s)
                 else Some (- 1, Some False, s) }
          else if hw_device then Some (- 1, Some False, s) else None
      | None \<Rightarrow> if hw_device then Some (- 1, Some False, s) else None)"

definition close_camera_device :: "bool \<Rightarrow> 'q camera_state \<Rightarrow> int \<times> 'q camera_state" where
  "close_camera_device device s = (if device then (0, s\<lparr>qCamera := None\<rparr>) else (- 1, s))"

subsection \<open>The functions of the device\<close>

definition set_preview_window :: "bool \<Rightarrow> bool \<Rightarrow> 'q camera_state \<Rightarrow> int \<times> 'q camera_state" where
  "set_preview_window device window s = (if \<not> device then (- EINVAL_code, s) else (0, s\<lparr>mWindow := window\<rparr>))"

definition set_callbacks ::
  "'q camera_env \<Rightarrow> bool \<Rightarrow> bool \<Rightarrow> bool \<Rightarrow> bool \<Rightarrow> 'q camera_state \<Rightarrow> 'q camera_state option" where
  "set_callbacks K notify_cb data_cb data_cb_timestamp get_memory s =
     on_camera (q_setCallbacks K)
       (s\<lparr>origNotify_cb := notify_cb, origData_cb := data_cb, origDataTS_cb := data_cb_timestamp,
          origCamReqMemory := get_memory\<rparr>)"

definition enable_msg_type :: "'q camera_env \<Rightarrow> u32 \<Rightarrow> 'q camera_state \<Rightarrow> 'q camera_state option" where
  "enable_msg_type K msg_type s =
     (let msg_type = (if msg_type = 0xfff then 0x1ff
                      else msg_type AND NOT (CAMERA_MSG_PREVIEW_METADATA K OR CAMERA_MSG_RAW_IMAGE_NOTIFY K))
      in on_camera (q_enableMsgType K msg_type) s)"

definition disable_msg_type :: "'q camera_env \<Rightarrow> u32 \<Rightarrow> 'q camera_state \<Rightarrow> 'q camera_state option" where
  "disable_msg_type K msg_type s =
     on_camera (q_disableMsgType K (if msg_type = 0xfff then 0x1ff else msg_type)) s"

definition msg_type_enabled :: "'q camera_env \<Rightarrow> u32 \<Rightarrow> 'q camera_state \<Rightarrow> bool option" where
  "msg_type_enabled K msg_type s = map_option (q_msgTypeEnabled K msg_type) (qCamera s)"

definition with_status :: "('q \<Rightarrow> int \<times> 'q) \<Rightarrow> 'q camera_state \<Rightarrow> (int \<times> 'q camera_state) option" where
  "with_status f s = (case qCamera s of None \<Rightarrow> None | Some q \<Rightarrow> Some (fst (f q), s\<lparr>qCamera := Some (snd (f q))\<rparr>))"

definition start_preview :: "'q camera_env \<Rightarrow> 'q camera_state \<Rightarrow> (int \<times> 'q camera_state) option" where
  "start_preview K s =
     do { on \<leftarrow> msg_type_enabled K (CAMERA_MSG_PREVIEW_FRAME K) s;
          s \<leftarrow> (if \<not> on then on_camera (q_enableMsgType K (CAMERA_MSG_PREVIEW_FRAME K)) s else Some s);
          with_status (q_startPreview K) s }"

definition stop_preview :: "'q camera_env \<Rightarrow> 'q camera_state \<Rightarrow> 'q camera_state option" where
  "stop_preview K s =
     do { on \<leftarrow> msg_type_enabled K (CAMERA_MSG_PREVIEW_FRAME K) s;
          s \<leftarrow> (if on then on_camera (q_disableMsgType K (CAMERA_MSG_PREVIEW_FRAME K)) s else Some s);
          on_camera (q_stopPreview K) s }"

definition preview_enabled :: "'q camera_env \<Rightarrow> 'q camera_state \<Rightarrow> int option" where
  "preview_enabled K s = map_option (\<lambda>q. if q_previewEnabled K q then 1 else 0) (qCamera s)"

definition start_recording :: "'q camera_env \<Rightarrow> 'q camera_state \<Rightarrow> (int \<times> 'q camera_state) option" where
  "start_recording K s =
     do { s \<leftarrow> on_camera (q_enableMsgType K (CAMERA_MSG_VIDEO_FRAME K)) s;
          s \<leftarrow> on_camera (\<lambda>q. snd (q_startRecording K q)) s;
          Some (0, s) }"

definition stop_recording :: "'q camera_env \<Rightarrow> 'q camera_state \<Rightarrow> 'q camera_state option" where
  "stop_recording K s =
     do { s \<leftarrow> on_camera (q_disableMsgType K (CAMERA_MSG_VIDEO_FRAME K)) s;
          on_camera (q_stopRecording K) s }"

definition recording_enabled :: "'q camera_env \<Rightarrow> 'q camera_state \<Rightarrow> int option" where
  "recording_enabled K s = map_option (\<lambda>q. if q_recordingEnabled K q then 1 else 0) (qCamera s)"

definition release_recording_frame :: "'q camera_state \<Rightarrow> 'q camera_state" where
  "release_recording_frame s = s"

definition auto_focus :: "'q camera_env \<Rightarrow> 'q camera_state \<Rightarrow> (int \<times> 'q camera_state) option" where
  "auto_focus K s = do { s \<leftarrow> on_camera (\<lambda>q. snd (q_autoFocus K q)) s; Some (0, s) }"

definition cancel_auto_focus :: "'q camera_env \<Rightarrow> 'q camera_state \<Rightarrow> (int \<times> 'q camera_state) option" where
  "cancel_auto_focus K s = do { s \<leftarrow> on_camera (\<lambda>q. snd (q_cancelAutoFocus K q)) s; Some (0, s) }"

definition take_picture :: "'q camera_env \<Rightarrow> 'q camera_state \<Rightarrow> (int \<times> 'q camera_state) option" where
  "take_picture K s =
     do { s \<leftarrow> on_camera (q_enableMsgType K (CAMERA_MSG_SHUTTER K OR CAMERA_MSG_POSTVIEW_FRAME K OR
             CAMERA_MSG_RAW_IMAGE K OR CAMERA_MSG_COMPRESSED_IMAGE K)) s;
          s \<leftarrow> on_camera (\<lambda>q. snd (q_takePicture K q)) s;
          Some (0, s) }"

definition cancel_picture :: "'q camera_env \<Rightarrow> 'q camera_state \<Rightarrow> (int \<times> 'q camera_state) option" where
  "cancel_picture K s = do { s \<leftarrow> on_camera (\<lambda>q. snd (q_cancelPicture K q)) s; Some (0, s) }"

definition send_command :: "'q camera_env \<Rightarrow> int \<Rightarrow> int \<Rightarrow> int \<Rightarrow> 'q camera_state \<Rightarrow> (int \<times> 'q camera_state) option" where
  "send_command K cmd arg0 arg1 s =
     (if cmd = CAMERA_CMD_ENABLE_FOCUS_MOVE_MSG K then Some (0, s) else with_status (q_sendCommand K cmd arg0 arg1) s)"

definition camera_release :: "'q camera_env \<Rightarrow> 'q camera_state \<Rightarrow> 'q camera_state option" where
  "camera_release K s = on_camera (q_release K) s"

definition camera_dump :: "'q camera_env \<Rightarrow> int \<Rightarrow> 'q camera_state \<Rightarrow> int option" where
  "camera_dump K fd s = map_option (q_dump K fd) (qCamera s)"

definition store_meta_data_in_buffers :: "int \<Rightarrow> int" where
  "store_meta_data_in_buffers enable = 0"

subsection \<open>Every call of the module\<close>

inductive camera_step :: "'q camera_env \<Rightarrow> 'q camera_state \<Rightarrow> 'q camera_state \<Rightarrow> bool" for K where
  cam_notify: "camera_step K s (cam_notify_callback msg e1 e2 s)"
| cam_data: "cam_data_callback K F msg f s = Some s' \<Longrightarrow> camera_step K s s'"
| cam_timestamp: "cam_data_callback_timestamp K F t msg f s = Some s' \<Longrightarrow> camera_step K s s'"
| cam_open: "camera_device_open K m idp hw s = Some (rc, dev, s') \<Longrightarrow> camera_step K s s'"
| cam_close: "close_camera_device dev s = (rc, s') \<Longrightarrow> camera_step K s s'"
| cam_window: "set_preview_window dev win s = (rc, s') \<Longrightarrow> camera_step K s s'"
| cam_callbacks: "set_callbacks K a b c d s = Some s' \<Longrightarrow> camera_step K s s'"
| cam_enable: "enable_msg_type K msg s = Some s' \<Longrightarrow> camera_step K s s'"
| cam_disable: "disable_msg_type K msg s = Some s' \<Longrightarrow> camera_step K s s'"
| cam_start: "start_preview K s = Some (rc, s') \<Longrightarrow> camera_step K s s'"
| cam_stop: "stop_preview K s = Some s' \<Longrightarrow> camera_step K s s'"
| cam_record: "start_recording K s = Some (rc, s') \<Longrightarrow> camera_step K s s'"
| cam_record_stop: "stop_recording K s = Some s' \<Longrightarrow> camera_step K s s'"
| cam_frame: "camera_step K s (release_recording_frame s)"
| cam_focus: "auto_focus K s = Some (rc, s') \<Longrightarrow> camera_step K s s'"
| cam_focus_cancel: "cancel_auto_focus K s = Some (rc, s') \<Longrightarrow> camera_step K s s'"
| cam_picture: "take_picture K s = Some (rc, s') \<Longrightarrow> camera_step K s s'"
| cam_picture_cancel: "cancel_picture K s = Some (rc, s') \<Longrightarrow> camera_step K s s'"
| cam_set_parameters: "set_parameters K ps s = Some (rc, s') \<Longrightarrow> camera_step K s s'"
| cam_get_parameters: "get_parameters K s = Some (str, s') \<Longrightarrow> camera_step K s s'"
| cam_command: "send_command K cmd a0 a1 s = Some (rc, s') \<Longrightarrow> camera_step K s s'"
| cam_release: "camera_release K s = Some s' \<Longrightarrow> camera_step K s s'"

subsection \<open>The protocol of the window\<close>

text \<open>
  A buffer that was dequeued is held until it is enqueued or cancelled; it is locked and mapped while it is held and neither
  enqueued nor cancelled while it is mapped.
\<close>

datatype win_state = Idle | Held nat | Mapped nat

fun win_next :: "win_state \<Rightarrow> cam_event \<Rightarrow> win_state option" where
  "win_next w (WinDequeue h stride) = (if w = Idle then Some (Held h) else None)"
| "win_next w (WinLock h) = (if w = Held h then Some w else None)"
| "win_next w (WinMap h) = (if w = Held h then Some (Mapped h) else None)"
| "win_next w (WinUnmap h _) = (if w = Mapped h then Some (Held h) else None)"
| "win_next w (WinEnqueue h) = (if w = Held h then Some Idle else None)"
| "win_next w (WinCancel h) = (if w = Held h then Some Idle else None)"
| "win_next w _ = Some w"

fun win_run :: "win_state \<Rightarrow> cam_event list \<Rightarrow> win_state option" where
  "win_run w [] = Some w"
| "win_run w (e # es) = do { w \<leftarrow> win_next w e; win_run w es }"

definition win_ok :: "'q camera_state \<Rightarrow> bool" where
  "win_ok s \<longleftrightarrow> win_run Idle (cs_log s) = Some Idle"

lemma win_run_append: "win_run w (es @ fs) = do { w \<leftarrow> win_run w es; win_run w fs }"
  by (induction es arbitrary: w) simp_all

lemma win_ok_log: "win_ok s \<Longrightarrow> win_run Idle es = Some Idle \<Longrightarrow> win_ok (cam_log es s)"
  by (simp add: win_ok_def cam_log_def win_run_append)

lemma win_ok_same: "cs_log s' = cs_log s \<Longrightarrow> win_ok s' = win_ok s"
  by (simp add: win_ok_def)

lemma cam_log_twice: "cam_log fs (cam_log es s) = cam_log (es @ fs) s"
  by (simp add: cam_log_def)

lemma qCamera_log [simp]: "qCamera (cam_log es s) = qCamera s"
  by (simp add: cam_log_def)

lemma on_camera_log: "on_camera f s = Some s' \<Longrightarrow> cs_log s' = cs_log s"
  by (auto simp: on_camera_def split: option.splits)

lemma with_status_log: "with_status f s = Some (rc, s') \<Longrightarrow> cs_log s' = cs_log s"
  by (auto simp: with_status_def split: option.splits)

lemma preview_win_ok:
  assumes "internal_handle_preview K F f w h s = Some s'" "win_ok s"
  shows "win_ok s'"
  using assms
  by (auto simp: internal_handle_preview_def Let_def cam_log_twice split: if_splits Option.bind_splits intro: win_ok_log)

lemma data_callback_win_ok:
  assumes "cam_data_callback K F msg f s = Some s'" "win_ok s"
  shows "win_ok s'"
proof -
  obtain s1 where s1: "win_ok s1" "s' = s1 \<or> (\<exists>c. s' = cam_log [ClientData msg c, ClientRelease] s1)"
    using assms by (auto simp: cam_data_callback_def Let_def split: if_splits Option.bind_splits option.splits prod.splits
      dest: preview_win_ok)
  then show ?thesis by (auto intro: win_ok_log)
qed

lemma timestamp_win_ok:
  assumes "cam_data_callback_timestamp K F t msg f s = Some s'" "win_ok s"
  shows "win_ok s'"
  using assms
  by (auto simp: cam_data_callback_timestamp_def on_camera_def cam_log_def win_ok_def win_run_append
      split: if_splits Option.bind_splits option.splits)

lemma notify_win_ok: "win_ok s \<Longrightarrow> win_ok (cam_notify_callback msg e1 e2 s)"
  by (auto simp: cam_notify_callback_def intro: win_ok_log)

lemmas device_ops = set_callbacks_def enable_msg_type_def disable_msg_type_def start_preview_def stop_preview_def
  start_recording_def stop_recording_def auto_focus_def cancel_auto_focus_def take_picture_def cancel_picture_def
  set_parameters_def get_parameters_def send_command_def camera_release_def set_preview_window_def
  close_camera_device_def release_recording_frame_def

lemma open_log: "camera_device_open K m idp hw s = Some (rc, dev, s') \<Longrightarrow> cs_log s' = cs_log s"
  by (auto simp: camera_device_open_def Let_def split: option.splits if_splits Option.bind_splits)

lemma win_ok_step: "camera_step K s s' \<Longrightarrow> win_ok s \<Longrightarrow> win_ok s'"
proof (induction rule: camera_step.induct)
  case (cam_open m idp hw s rc dev s')
  then show ?case using open_log win_ok_same by blast
next
  case (cam_notify s msg e1 e2)
  then show ?case by (rule notify_win_ok)
qed (auto simp: device_ops win_ok_def Let_def
      dest!: data_callback_win_ok timestamp_win_ok on_camera_log with_status_log
      split: Option.bind_splits if_splits)

interpretation camera_window: invariant_system win_ok "camera_step K" win_ok for K :: "'q camera_env"
  by unfold_locales (auto intro: win_ok_step)

subsection \<open>Properties\<close>

text \<open>
  C33: whatever the framework calls and the camera delivers, in any order and with any answers of the window, every buffer that
  was dequeued from the preview window is given back exactly once, enqueued after it was mapped and unmapped or cancelled, before the next
  one is dequeued.
\<close>

theorem camera_buffers_returned:
  assumes "win_run Idle (cs_log s0) = Some Idle" "steps (camera_step K) s0 s"
  shows "win_run Idle (cs_log s) = Some Idle"
  using camera_window.reachable_inv [of s0 K s] assms by (simp add: win_ok_def)

text \<open>The bytes of a frame.\<close>

definition frame_bytes :: "frame \<Rightarrow> u8 list" where
  "frame_bytes f = (case frame_base f of None \<Rightarrow> [] | Some b \<Rightarrow> take (fr_size f) b)"

definition frame_whole :: "frame \<Rightarrow> bool" where
  "frame_whole f \<longleftrightarrow> (case frame_base f of None \<Rightarrow> False | Some b \<Rightarrow> fr_size f \<le> length b) \<and> fr_size f < 2 ^ 31"

lemma client_data_copy:
  assumes "frame_whole f" "fe_alloc F (fr_size f) = Some mem" "length mem = fr_size f"
  shows "internal_generate_client_data F f = Some (Some (frame_bytes f))"
proof -
  obtain b where b: "frame_base f = Some b" "fr_size f \<le> length b" "fr_size f < 2 ^ 31"
    using assms(1) by (auto simp: frame_whole_def split: option.splits)
  let ?n = "of_nat (fr_size f) :: u32"
  have u: "unat ?n = fr_size f" using b(3) by (simp add: unat_of_nat take_bit_nat_eq_self_iff)
  have "sint ?n = int (unat ?n)" by (rule sint_u32_small) (use u b(3) in simp)
  then have "sint ?n = int (fr_size f)" unfolding u .
  then show ?thesis
    using b assms(2,3) copybuffers_prefix [of "fr_size f" b mem]
    by (simp add: internal_generate_client_data_def frame_bytes_def)
qed

text \<open>The display takes the pixel in row \<open>j\<close> and column \<open>i\<close> of a buffer from where the stride of the buffer puts it.\<close>

definition display_pixel :: "nat \<Rightarrow> u32 list \<Rightarrow> nat \<Rightarrow> nat \<Rightarrow> u32" where
  "display_pixel stride buf j i = buf ! (j * stride + i)"




text \<open>
  With any other stride the rows are out of place: the display takes for row \<open>j\<close> the pixels of the picture from
  number \<open>j * stride\<close> on, where the code has written from number \<open>j * w\<close> on.
\<close>

theorem preview_rows_out_of_place:
  assumes "j * stride + i < w * h"
  shows "display_pixel stride (yuv_picture base w h @ rest) j i = yuv_picture base w h ! (j * stride + i)"
  using assms by (simp add: display_pixel_def nth_append)

text \<open>A camera whose state is the number of frames given back.\<close>

definition demo_camera :: "nat camera_env" where
  "demo_camera = \<lparr>q_setCallbacks = id, q_enableMsgType = (\<lambda>_. id), q_disableMsgType = (\<lambda>_. id), q_msgTypeEnabled = (\<lambda>_ _. True),
     q_startPreview = Pair 0, q_stopPreview = id, q_previewEnabled = (\<lambda>_. True), q_startRecording = Pair 0,
     q_stopRecording = id, q_recordingEnabled = (\<lambda>_. True), q_releaseRecordingFrame = (\<lambda>_. Suc), q_autoFocus = Pair 0,
     q_cancelAutoFocus = Pair 0, q_takePicture = Pair 0, q_cancelPicture = Pair 0, q_setParameters = (\<lambda>_. Pair 0),
     q_getParameters = (\<lambda>_. Map.empty), q_sendCommand = (\<lambda>_ _ _. Pair 0), q_release = id, q_dump = (\<lambda>_ _. 0),
     CAMERA_MSG_SHUTTER = 2, CAMERA_MSG_PREVIEW_FRAME = 16, CAMERA_MSG_VIDEO_FRAME = 32, CAMERA_MSG_POSTVIEW_FRAME = 64,
     CAMERA_MSG_RAW_IMAGE = 128, CAMERA_MSG_COMPRESSED_IMAGE = 256, CAMERA_MSG_RAW_IMAGE_NOTIFY = 512,
     CAMERA_MSG_PREVIEW_METADATA = 1024, CAMERA_CMD_ENABLE_FOCUS_MOVE_MSG = 8, CAMERA_FACING_BACK = 0,
     PIXEL_FORMAT_YUV420SP = ''yuv420sp'', cp_flatten = (\<lambda>_. []), cp_unflatten = (\<lambda>_. Map.empty),
     cp_getPreviewSize = (\<lambda>_. (2, 2)), dl_libcamera = True, dl_symbol = (\<lambda>_. True), LINK_getNumberofCameras = 1,
     LINK_getCameraInfo = (\<lambda>_. (0, 90)), LINK_openCameraHardware = (\<lambda>_. Some 0), malloc_device = True\<rparr>"

definition demo_frame_env :: frame_env where
  "demo_frame_env = \<lparr>fe_geometry = 0, fe_dequeue = 0, fe_handle = 3, fe_stride = 2, fe_lock = 0, fe_map = Some [0, 0, 0, 0],
     fe_alloc = (\<lambda>n. Some (replicate n 0))\<rparr>"

definition demo_frame :: frame where
  "demo_frame = \<lparr>fr_heap = Some [9, 16, 235, 50, 60, 128, 128], fr_offset = 1, fr_size = 6\<rparr>"

definition demo_camera_state :: "nat camera_state" where
  "demo_camera_state = \<lparr>origNotify_cb = True, origData_cb = True, origDataTS_cb = True, origCamReqMemory = True,
     mWindow = True, camSettings = Map.empty, qCamera = Some 0, cs_log = []\<rparr>"

lemma demo_frame_base [simp]: "frame_base demo_frame = Some [16, 235, 50, 60, 128, 128]"
  by (simp add: frame_base_def demo_frame_def)

lemma demo_frame_size [simp]: "fr_size demo_frame = 6"
  by (simp add: demo_frame_def)


theorem camera_buffers_returned_witness:
  "\<exists>s. steps (camera_step demo_camera) demo_camera_state s \<and> WinCancel 3 \<in> set (cs_log s) \<and> win_run Idle (cs_log s) = Some Idle"
proof -
  let ?F = "demo_frame_env\<lparr>fe_lock := - 22, fe_alloc := \<lambda>_. None\<rparr>"
  have "\<exists>s. cam_data_callback demo_camera ?F 16 demo_frame demo_camera_state = Some s \<and> WinCancel 3 \<in> set (cs_log s)"
    by (simp add: cam_data_callback_def internal_handle_preview_def internal_generate_client_data_def cam_log_def
      demo_camera_def demo_frame_env_def demo_camera_state_def)
  then obtain s where s: "cam_data_callback demo_camera ?F 16 demo_frame demo_camera_state = Some s" "WinCancel 3 \<in> set (cs_log s)"
    by blast
  have st: "steps (camera_step demo_camera) demo_camera_state s" by (rule steps_one, rule cam_data [OF s(1)])
  moreover have "win_run Idle (cs_log s) = Some Idle"
    by (rule camera_buffers_returned [OF _ st]) (simp add: demo_camera_state_def)
  ultimately show ?thesis using s(2) by blast
qed

text \<open>
  C37: a recorded frame is delivered and given back: when the client has a callback and memory for a copy, it receives one exact
  copy of the frame with its timestamp, the camera gets the frame back exactly once, after the client has returned, and the copy is
  released.
\<close>

theorem video_frame_delivered:
  assumes f: "frame_whole f" and q: "qCamera s = Some q" and cb: "origDataTS_cb s" "origCamReqMemory s"
    and mem: "fe_alloc F (fr_size f) = Some m" "length m = fr_size f"
  shows "cam_data_callback_timestamp K F t msg f s =
    Some (s\<lparr>qCamera := Some (q_releaseRecordingFrame K f q),
            cs_log := cs_log s @ [ClientFrame t msg (frame_bytes f), ClientRelease]\<rparr>)"
  using client_data_copy [OF f mem] q cb by (simp add: cam_data_callback_timestamp_def on_camera_def cam_log_def)

theorem video_frame_delivered_witness:
  "map_option qCamera (cam_data_callback_timestamp demo_camera demo_frame_env 7 32 demo_frame demo_camera_state) = Some (Some 1)"
proof -
  have f: "frame_whole demo_frame" by (simp add: frame_whole_def)
  have "cam_data_callback_timestamp demo_camera demo_frame_env 7 32 demo_frame demo_camera_state =
      Some (demo_camera_state\<lparr>qCamera := Some (q_releaseRecordingFrame demo_camera demo_frame 0),
        cs_log := cs_log demo_camera_state @ [ClientFrame 7 32 (frame_bytes demo_frame), ClientRelease]\<rparr>)"
    by (rule video_frame_delivered [OF f, where m = "replicate 6 0"]) (simp_all add: demo_camera_state_def demo_frame_env_def)
  then show ?thesis by (simp add: demo_camera_def)
qed

text \<open>
  When the client has no callback or no memory for the copy, the frame is dropped without being released, although the
  interface of the camera asks for every recorded frame to be released.
\<close>

theorem video_frame_not_released:
  assumes "\<not> origDataTS_cb s \<or> \<not> origCamReqMemory s \<or> fe_alloc F (fr_size f) = None"
  shows "cam_data_callback_timestamp K F t msg f s = Some s"
  using assms by (auto simp: cam_data_callback_timestamp_def internal_generate_client_data_def)

subsection \<open>The parameters\<close>

lemma set_default_get: "set_default k v p x = (if x = k then Some (case p x of None \<Rightarrow> v | Some u \<Rightarrow> u) else p x)"
  by (auto simp: set_default_def split: option.split)

lemma fixup_format: "internal_fixup_settings K p KEY_VIDEO_FRAME_FORMAT = Some (PIXEL_FORMAT_YUV420SP K)"
  and fixup_other: "internal_fixup_settings K p (other_key x) = p (other_key x)"
  by (simp_all add: internal_fixup_settings_def set_default_get Let_def)

lemma fixup_keeps: "k \<noteq> KEY_VIDEO_FRAME_FORMAT \<Longrightarrow> p k = Some v \<Longrightarrow> internal_fixup_settings K p k = Some v"
  by (cases k) (simp_all add: internal_fixup_settings_def set_default_get Let_def)

lemma fixup_defined: "internal_fixup_settings K p k = None \<Longrightarrow> \<exists>x. k = other_key x"
  by (cases k) (simp_all add: internal_fixup_settings_def set_default_get Let_def)

lemma fixup_idempotent: "internal_fixup_settings K (internal_fixup_settings K p) = internal_fixup_settings K p"
proof
  fix k
  show "internal_fixup_settings K (internal_fixup_settings K p) k = internal_fixup_settings K p k"
  proof (cases "internal_fixup_settings K p k")
    case None
    then obtain x where "k = other_key x" using fixup_defined by blast
    then show ?thesis by (simp add: fixup_other)
  next
    case (Some v)
    then show ?thesis by (cases "k = KEY_VIDEO_FRAME_FORMAT") (simp_all add: fixup_format fixup_keeps)
  qed
qed

end
