(* ===== verification/Spec2Isabelle.thy ===== *)
theory Spec2Isabelle
  imports Gps_Link Gps_Delivery Gps_Tracking Sensor_Stack Leo_Sensors Power_Hal Healthd Camera_Hal
begin

text \<open>
  A verification development of the device libraries of the HTC Leo (\<open>src/custom_libraries\<close>): the RPC
  library to the modem, the GPS library on top of it, and the hardware modules for GPS, sensors, lights,
  camera and power.

  \<^bold>\<open>The program.\<close>
  \<open>librpc\<close> carries remote procedure calls in packets of a kernel router device. A handle
  (\<open>struct xdr_struct\<close>) holds one incoming and one outgoing packet; the filters of \<open>xdr.c\<close> write
  values into it and read them back, \<open>rpc.c\<close> adds the headers, \<open>svc.c\<close> is the server side and \<open>clnt.c\<close> the client
  side, with one receiver thread for all clients and a callback thread per client that lets a client serve
  calls of the modem. \<open>libgps\<close> is a client of the modem's position service: \<open>leo-gps-rpc.c\<close> makes the calls and decodes
  the events, \<open>leo-gps.c\<close> parses NMEA lines and runs a state thread, a timer thread and a position thread. \<open>gpsshim\<close>
  offers \<open>libgps\<close> to the framework under a newer interface. \<open>libsensors\<close> reads input devices through a ring buffer and
  delivers sensor events; \<open>liblights\<close> drives the LEDs and polls the battery; \<open>camera\<close> wraps the vendor's camera object and
  copies its frames into windows; \<open>power\<close> turns hints of the framework into votes of the vendor's power library.

  \<^bold>\<open>Theories and sources.\<close>
  \<^item> \<open>Prelude\<close>: machine integers of the 32-bit target, arrays with checked access, network byte order, runs of
    a step relation and the locale \<open>invariant_system\<close>.
  \<^item> \<open>Xdr_Std\<close> (\<open>librpc/svc_clnt_common.c\<close>, \<open>ops.c\<close>, \<open>rpc/types.h\<close>): the handle \<open>xdr_s_type\<close>, its operations and the
    router calls, with the invariant \<open>xdr_ok\<close>. \<open>Xdr\<close> (\<open>librpc/xdr.c\<close>): all filters. \<open>Rpc_Msg\<close> (\<open>librpc/rpc.c\<close> and the
    header readers of \<open>clnt.c\<close>): call and reply headers.
  \<^item> \<open>Svc\<close> (\<open>librpc/svc.c\<close>): list of registered servers, dispatch, replies and error replies. \<open>Clnt\<close> (\<open>librpc/clnt.c\<close>):
    creation and destruction of clients, calls, and the three threads of a client as the step relation \<open>clnt_step\<close>, whose argument
    \<open>may\<close> says which threads run and which faults occur (a packet the router refuses, a wait that ends without a signal).
  \<^item> \<open>Nmea\<close>, \<open>Gps_Xtra\<close>, \<open>Gps_Hal\<close> (\<open>libgps/leo-gps.c\<close>): the NMEA reader, the injection of orbit data, and the
    interface functions with the threads as the labelled step relation \<open>hal_act\<close>; \<open>hal_step\<close> is a step with any label, \<open>hal_run\<close> a
    run with given labels, which determine its outcome.
  \<^item> \<open>Gps_Conf\<close>, \<open>Gps_Calls\<close>, \<open>Gps_Rpc\<close>, \<open>Gps_Events\<close> (\<open>libgps/leo-gps-rpc.c\<close>): the parser of \<open>gps.conf\<close>, the remote
    calls, start and end of a session, and the events of the modem. \<open>Gps_Shim\<close> (\<open>gpsshim/gps.c\<close>): the wrappers, and runs in
    which a copy into a static structure and its delivery take time and may race.
  \<^item> \<open>Input_Reader\<close>, \<open>Sensor_Base\<close>, \<open>Simple_Sensors\<close>, \<open>Akm_Sensor\<close>, \<open>Nusensors\<close> (\<open>libsensors\<close>, files of the same names; the
    light and the proximity sensor share \<open>Simple_Sensors\<close>), and \<open>Leo_Sensors\<close> (\<open>libsensors/leosensors.c\<close>, an older module that
    \<open>Android.mk\<close> does not compile).
  \<^item> \<open>Lights\<close> (\<open>liblights/lights.c\<close>), \<open>Camera_Frames\<close> and \<open>Camera_Hal\<close> (\<open>camera/QcomCamera.cpp\<close>), \<open>Power_Hal\<close>
    (\<open>power/metadata-parser.c\<close>, \<open>power/power.c\<close>).
  \<^item> \<open>Healthd\<close> (\<open>healthd/healthd_board_htc-qsd8k.cpp\<close>): the battery files that are watched.
  \<^item> Compositions: \<open>Gps_Link\<close> (events of the modem through the client's threads and the list of servers to \<open>leo-gps-rpc.c\<close>),
    \<open>Gps_Delivery\<close> (NMEA text through parser, timer thread and \<open>gpsshim\<close> to the framework), \<open>Gps_Tracking\<close> (a tracking
    session through the threads of the library and the calls to the modem), \<open>Sensor_Stack\<close> (events of the compass
    device through ring, driver and poll loop to the framework's array, in sessions of any calls), and this theory, client and
    server library together.

  \<^bold>\<open>Correspondence.\<close>
  A C struct is a \<open>record\<close> with the fields of the struct, an enum or a set of alternatives a \<open>datatype\<close>, an unsigned
  integer a word of its width; a signed \<open>int\<close> is an \<open>int\<close> whose overflow is undefined behaviour, or a word where
  the source converts. A function that can run into undefined behaviour has an option result, and \<open>None\<close> is the undefined
  execution; errors the code reports are values. Static variables are fields of the state record of their file.
  The kernel, the vendor libraries, the framework's callbacks and floating-point scaling are arguments: records of
  functions on a world of type \<open>'w\<close> (\<open>kernel\<close>, \<open>sensor_kernel\<close>, \<open>lights_env\<close>, \<open>camera_env\<close>, ...), and what a theorem
  assumes of them (\<open>delivers\<close>, \<open>answers\<close>, \<open>event_router\<close>, \<open>input_log\<close>, \<open>leo_driver\<close>, ...) is a named predicate with an instance in the witness.
  Logging is left out. Where threads matter, the atomic actions between two lock operations are the rules of an
  inductive step relation, and a theorem about reachable states or runs holds for every interleaving the theorem names; where a
  run is claimed to exist, its labels are given and the theorem also holds for every run with these labels.

  \<^bold>\<open>Interfaces.\<close>
  \<^item> \<open>invariant_system\<close>: an invariant of all reachable states; interpreted for the client threads (\<open>cs\<close>, \<open>wedge\<close>), the GPS
    threads (\<open>hal_timer\<close>, \<open>hal_hang\<close>), the poll loops of the sensors (\<open>poll_system\<close>, \<open>waiting\<close>), the
    sessions of the sensors module (\<open>sensor_module\<close>), the battery poller (\<open>poller\<close>) and
    the camera callbacks (\<open>camera_window\<close>).
  \<^item> \<open>xdr_codec\<close>: a filter decodes what it encodes; \<open>xdr_word\<close>, filters of one word, is a sublocale. Interpreted for every
    filter of a scalar; headers, arguments and results of calls are proved once for any codec.
  \<^item> \<open>registry\<close> (list of servers), \<open>event_queue\<close> (the input ring), \<open>sensor_driver\<close> and \<open>reliable_driver\<close> (what the poll loop
    expects of a driver; interpreted for the compass chip, the light and the proximity sensor), \<open>leo_processor\<close> (the three functions of the older
    module that read an event), \<open>shim_channel\<close> (one kind of
    callback through the static variables of \<open>gpsshim\<close>; interpreted for locations, states and satellites).

  \<^bold>\<open>What is shown.\<close>
  \<^item> RPC: no operation of the handle leaves its buffers for the lengths the code uses, and the lengths for which it would are
    stated; strings, arrays and headers survive the wire; registration and the list of clients keep their invariants; the
    input buffer of a client has one owner in every interleaving without the two faults, and each fault breaks this; a call returns the procedure's result (C1); errors are
    mapped as the code maps them; in every interleaving of receiver and callback thread the events of the modem are served in order, each once, and never get stuck (C2); two
    defects of the error paths (an unanswered call blocks the receiver, error replies
    carry a wrong identifier) are theorems.
  \<^item> GPS: a line is parsed once and split into its fields; satellite sentences stay in the table when their number does;
    the parser of the settings leaves its array for every file with a word, and with one cell more would take each setting from the first word with its keyword; a session makes the requests of its specification in order; events
    are reported and acknowledged; orbit data arrives in numbered blocks; there is at most one timer thread; a clean-up while
    started hangs; \<open>gpsshim\<close> delivers in order when each callback finds the previous one delivered, invents nothing in any race-free run, and may lose a report otherwise; a
    fix reaches the framework as it was parsed, in reads of any size (C3); a
    tracking session makes at most one position request more than ends were reported, in every interleaving, and exactly one more when no report is missed, and leaves the threads ready for the next (C4).
  \<^item> Sensors: the ring is a bounded queue; reading the compass in portions gives the same stream of reports; polling stays in the
    caller's array until a read fails, and leaves it after that; in every session without a failed read no compass report is lost, repeated or reordered between device and framework (C5). The stream is
    stated with the function \<open>akm_reports\<close> on the events, \<open>akm_todo\<close> is what a driver still owes for given further events; in the older module, activation makes the drivers' flags and the active mask agree.
  \<^item> Lights, camera, power: the LEDs follow a specification of the shared LED, with two exceptions that are stated; a cancelled poller may poll on; frames are
    converted and copied exactly, without leaving a buffer; each dequeued window buffer is given back once; the metadata parser
    returns for every string; video hints cast the votes their metadata call for.

  \<^bold>\<open>Bounds and loops.\<close>
  Loops that end are \<open>fun\<close>, or \<open>function\<close> with a measure. Five loops may run for ever and are a \<open>partial_function\<close> with an option
  result: \<open>video_loop\<close> and \<open>akm_loop\<close> are shown to return, for every string and for every well-formed driver; \<open>poll_loop\<close>
  and \<open>poll_wait\<close> of the older module wait for events, and it is shown that no round is undefined and that they return as soon
  as a round ends the call; \<open>epoll_retry\<close> returns once a call is not interrupted. No fuel is used.
  Sizes are those of the source: packets of 2048 bytes, 32 NMEA tokens, lines of 255 characters, 32 satellites, blocks of
  400 bytes of orbit data, rings of the size the drivers ask for.

  \<^bold>\<open>Not modelled.\<close>
  The set-up of threads and of tables of function pointers, which hold no state of their own; destructors that only free memory; \<open>libgps/time.cpp\<close>, which forwards to a system call of
  the framework; \<open>rpc/pmap_clnt.h\<close> and \<open>debug.h\<close>, declarations and logging; the kernel's
  headers under \<open>include\<close>; the binaries, patches, overlays and configuration files of the device tree.
\<close>

section \<open>A remote call from end to end\<close>

text \<open>
  C1: a remote procedure call through the client library and the server library of the two sides
  returns \<open>RPC_SUCCESS\<close> with the value the procedure computes from the arguments, for every pair
  of filters that satisfy the filter contract, whenever the router carries packets between the two
  descriptors and arguments and result fit into a message; the client's input buffer is free again.
\<close>

theorem rpc_call_served:
  assumes A: "xdr_codec pa ea wa da" and R: "xdr_codec pr er wr dr"
    and link: "delivers K (x_fd (cl_xdr c)) (x_fd y)" "delivers K (x_fd y) (x_fd (cl_xdr c))"
    and c: "xdr_ok (cl_xdr c)" and y: "xdr_ok y" "x_vers y = x_vers (cl_xdr c)"
    and s: "sv_xdr s = Some y" "sv_prog s = x_prog (cl_xdr c)"
    and disp: "call (sv_dispatch s) = simple_dispatch K pa az pr f" "pid \<noteq> 0"
    and a: "wa a" "da az" "length (ea a) \<le> 2008"
    and r: "wr (f p a)" "dr rz" "length (er (f p a)) \<le> 2024"
  shows "\<exists>c' w'. clnt_call K (serve_wait K call pid (x_fd y) (s # l)) c p pa a pr rz junk w
      = Some (RPC_SUCCESS, c', f p a, w') \<and> \<not> input_xdr_busy c'"
proof -
  let ?x = "cl_xdr c"
  let ?pkt = "call_packet ?x p (ea a)"
  let ?x1 = "sent_xdr ?x p (ea a)"
  obtain w1 w2 where k: "k_write K (x_fd ?x) ?pkt w = (int (length ?pkt), w1)"
      "k_read K (x_fd y) 2048 w1 = (Some ?pkt, w2)"
    using deliversE [OF link(1), of ?pkt w] a(3) by auto
  have send: "clnt_call_send K c p pa a w = Some (Inr (), c\<lparr>cl_xdr := ?x1\<rparr>, w1)"
    using clnt_call_send_writes [OF xdr_codec.codec_encodes [OF A a(1)] c a(3) k(1)] by simp
  note x1 = sent_xdr_ok [OF c a(3) xdr_codec.enc_aligned [OF A a(1)], of p]
  define c2 where "c2 = c\<lparr>cl_xdr := arrive ?x1 (reply_packet (x_xid ?x + 1) (er (f p a))),
    input_xdr_busy := True\<rparr>"
  obtain w3 where serve: "serve_wait K call pid (x_fd y) (s # l) (c\<lparr>cl_xdr := ?x1\<rparr>) w1 = Some (c2, w3)"
    using serve_wait_reply [OF A R link y(1) refl y(2) disp(2), of "c\<lparr>cl_xdr := ?x1\<rparr>" a az f p
        ?pkt "x_xid ?x + 1" "x_prog ?x" no_auth no_auth s "sv_dispatch s" call w1 w2 l]
      x1 a r s disp k(2) by (auto simp: call_packet_def c2_def)
  obtain x3 where "clnt_call_recv c2 pr rz junk =
      Some (RPC_SUCCESS, c2\<lparr>cl_xdr := x3, input_xdr_busy := False\<rparr>, f p a)"
    using clnt_call_recv_success [OF xdr_codec.codec_decodes [OF R r(1,2)] x1(1) r(3) x1(5), of c2 junk] by (auto simp: c2_def)
  with send serve show ?thesis by (simp add: clnt_call_def)
qed

text \<open>A router with one slot: each read returns the packet written last.\<close>

definition slot_kernel :: "(u8 list) kernel" where
  "slot_kernel = \<lparr>k_open = (\<lambda>n w. (3, w)), k_close = (\<lambda>f w. (0, w)), k_dup = (\<lambda>f w. (4, w)),
     k_read = (\<lambda>f n w. (Some w, w)), k_write = (\<lambda>f bs w. (int (length bs), bs)),
     k_ioctl = (\<lambda>f cmd arg w. (0, w)), k_calloc = (\<lambda>w. True)\<rparr>"

definition demo_entry :: registered_server where
  "demo_entry = \<lparr>sv_xdr = Some (cl_xdr demo_client), sv_prog = 0x3000005B, sv_vers = 0x10000,
     sv_active = 0, sv_dispatch = 7\<rparr>"

lemma slot_delivers: "delivers slot_kernel a b"
  by (simp add: delivers_def slot_kernel_def)

theorem rpc_call_served_witness:
  "\<exists>c' w'. clnt_call slot_kernel
       (serve_wait slot_kernel (\<lambda>_. simple_dispatch slot_kernel xdr_u_int 0 xdr_u_hyper (\<lambda>p a. ucast a * 3))
          1 (x_fd (cl_xdr demo_client)) [demo_entry])
       demo_client 5 xdr_u_int 14 xdr_u_hyper 0 demo_reply []
     = Some (RPC_SUCCESS, c', 42, w') \<and> \<not> input_xdr_busy c'"
proof -
  have "xdr_ok (cl_xdr demo_client)" using xdr_ok_zero by (simp add: demo_client_def)
  moreover have "sv_xdr demo_entry = Some (cl_xdr demo_client)"
    "sv_prog demo_entry = x_prog (cl_xdr demo_client)"
    by (simp_all add: demo_entry_def demo_client_def)
  ultimately show ?thesis
    using rpc_call_served [OF wd_u_int.xdr_codec_axioms cd_u_hyper.xdr_codec_axioms slot_delivers
        slot_delivers, where c = demo_client and y = "cl_xdr demo_client" and s = demo_entry and
        call = "\<lambda>_. simple_dispatch slot_kernel xdr_u_int 0 xdr_u_hyper (\<lambda>p a. ucast a * 3)" and
        az = 0 and f = "\<lambda>p a. ucast a * 3" and pid = 1 and a = 14 and p = 5 and rz = 0 and l = "[]" and
        junk = demo_reply and w = "[]"] by simp
qed

text \<open>
  C19: an error reply of the server library is useless to its client: it is stamped with the counter
  of the server's handle instead of the identifier of the call, and the client reports
  \<open>RPC_CANTRECV\<close> instead of the error whenever the two differ.
\<close>

theorem svcerr_reply_rejected:
  assumes "sv_active serv \<noteq> 0" "sv_xdr serv = Some y" "xdr_ok y" "oa_length (x_verf y) = 0"
    and "x_xid y \<noteq> xid"
  shows "\<exists>serv' pkt. svcerr_noproc K serv w = (case k_write K (x_fd y) pkt w of (rc, w1) \<Rightarrow> Some (serv', w1)) \<and>
     (\<forall>c x r0 junk. xdr_ok x \<longrightarrow> load32 (out_msg x) 0 = Some xid \<longrightarrow> cl_xdr c = arrive x pkt \<longrightarrow>
        clnt_call_recv c xdr_results r0 junk = Some (RPC_CANTRECV, c\<lparr>input_xdr_busy := False\<rparr>, r0))"
proof -
  let ?ws = "[RPC_MSG_REPLY, RPC_MSG_ACCEPTED, oa_flavor (x_verf y), 0, RPC_PROC_UNAVAIL]"
  obtain serv' where e: "svcerr_noproc K serv w =
      (case k_write K (x_fd y) (be32s (x_xid y # ?ws)) w of (rc, w1) \<Rightarrow> Some (serv', w1))"
    using svcerr_writes [OF assms(1,2,3) _ assms(4), of RPC_PROC_UNAVAIL K w]
    unfolding svcerr_noproc_def by blast
  have "clnt_call_recv c xdr_results r0 junk = Some (RPC_CANTRECV, c\<lparr>input_xdr_busy := False\<rparr>, r0)"
    if "xdr_ok x" "load32 (out_msg x) 0 = Some xid" "cl_xdr c = arrive x (be32s (x_xid y # ?ws))"
    for c x r0 junk
  proof (rule clnt_call_recv_mismatch)
    show "load32 (out_msg (cl_xdr c)) 0 = Some xid" using that by simp
    show "load32 (in_msg (cl_xdr c)) 0 = Some (x_xid y)"
      using load_first [of x "be32s ?ws" "x_xid y"] that by simp
    show "xid \<noteq> x_xid y" using assms(5) by simp
  qed
  with e show ?thesis by blast
qed

theorem svcerr_reply_rejected_witness:
  "\<exists>serv' pkt. svcerr_noproc slot_kernel (demo_entry\<lparr>sv_active := 1\<rparr>) [] =
       (case k_write slot_kernel (x_fd (cl_xdr demo_client)) pkt [] of (rc, w1) \<Rightarrow> Some (serv', w1)) \<and>
     (\<forall>c x r0 junk. xdr_ok x \<longrightarrow> load32 (out_msg x) 0 = Some 1 \<longrightarrow> cl_xdr c = arrive x pkt \<longrightarrow>
        clnt_call_recv c xdr_u_int r0 junk = Some (RPC_CANTRECV, c\<lparr>input_xdr_busy := False\<rparr>, r0))"
proof (rule svcerr_reply_rejected)
  show "xdr_ok (cl_xdr demo_client)" using xdr_ok_zero by (simp add: demo_client_def)
qed (simp_all add: demo_entry_def demo_client_def xdr_zero_def)

end
